(* ===== verification/Prelude.thy ===== *)
theory Prelude
  imports Main "HOL-Library.Word" "HOL-Library.AList"
begin

text \<open>
  Shared vocabulary of the development.

  \<^item> Byte strings and fixed-width integers: a Go \<open>byte\<close> is an \<open>8 word\<close>, \<open>[]byte\<close> a list of
    them, \<open>uint16\<close>, \<open>uint32\<close> and \<open>uint64\<close> are words of their width.  Lengths and offsets, which
    Go keeps in a non-negative \<open>int\<close>, are natural numbers.  An \<open>int64\<close> counter that may wrap is a
    word whose value is its \<open>sint\<close>.
  \<^item> Errors: the sentinel values of internal/errors, its two wrapper types, and the few standard
    library errors (end of file, context expiry, ad-hoc texts) the modelled operations return.
  \<^item> Results: an operation that returns \<open>(T, error)\<close> gives a value of \<open>T res\<close>.  \<open>Inl (Err e)\<close>
    is a returned error, \<open>Inl Panic\<close> a run-time panic (index or slice bounds out of range),
    \<open>Inr x\<close> the normal result.
  \<^item> Reads from a buffer (\<open>u8_at\<close>, \<open>slice_at\<close>, \<open>u16_at\<close>, \<open>u32_at\<close>, \<open>u64_at\<close>) panic exactly where the Go
    expression does, for a buffer whose capacity is its length.
  \<^item> Go maps are association lists with distinct keys; the lemmas on update and delete.
  \<^item> The big-endian routines of encoding/binary, with the round-trip lemmas all codecs rest on.
\<close>

type_synonym byte = "8 word"
type_synonym bytes = "8 word list"
type_synonym u16 = "16 word"
type_synonym u32 = "32 word"
type_synonym u64 = "64 word"
type_synonym i64 = "64 word"

text \<open>Rules that decide when a chain of fallible reads succeeds, fails or panics.\<close>

named_theorems result_simps
named_theorems codec_simps

text \<open>\<open>Time.Sub\<close>, and with it \<open>time.Since\<close>: the difference in nanoseconds, saturated to an \<open>int64\<close>.\<close>

definition time_Sub :: "int \<Rightarrow> int \<Rightarrow> int" where
  "time_Sub t u = max (- (2 ^ 63)) (min (2 ^ 63 - 1) (t - u))"

lemma time_Sub_compare:
  "0 \<le> time_Sub t u \<longleftrightarrow> u \<le> t" "k < 2 ^ 63 - 1 \<Longrightarrow> 0 \<le> k \<Longrightarrow> time_Sub t u \<le> k \<longleftrightarrow> t \<le> u + k"
  by (auto simp: time_Sub_def)

section \<open>Errors (internal/errors)\<close>

datatype qerror =
    ErrInvalidKeySize | ErrInvalidCiphertext | ErrDecapsulationFailed | ErrKeyGenerationFailed
  | ErrEncapsulationFailed | ErrInvalidPublicKey | ErrInvalidPrivateKey
  | ErrAuthenticationFailed | ErrInvalidNonce | ErrCiphertextTooShort | ErrNonceExhausted
  | ErrInvalidMessage | ErrUnsupportedVersion | ErrUnsupportedCipherSuite | ErrHandshakeFailed
  | ErrSessionExpired | ErrInvalidState | ErrMessageTooLarge | ErrReplayDetected
  | ErrCipherSuiteNotFIPSApproved | ErrInvalidTicket | ErrExpiredTicket | ErrServerKeyMismatch
  | ErrStaticAuthRequired | ErrStaticAuthMisconfigured | ErrPSKMisconfigured | ErrInvalidPSK
  | ErrUnsupportedKEMSuite
  | ErrTunnelClosed | ErrRekeyRequired | ErrRekeyInProgress | ErrTimeout
  | ErrPoolClosed | ErrPoolTimeout | ErrPoolExhausted
  | CryptoError string qerror
  | ProtocolError string qerror
  | ErrEOF | ErrUnexpectedEOF | ErrContext | ErrText string
  | AlertError byte byte bytes

fun Unwrap :: "qerror \<Rightarrow> qerror option" where
  "Unwrap (CryptoError p e) = Some e"
| "Unwrap (ProtocolError p e) = Some e"
| "Unwrap _ = None"

fun error_Is :: "qerror \<Rightarrow> qerror \<Rightarrow> bool" where
  "error_Is (CryptoError p e) t \<longleftrightarrow> error_Is e t"
| "error_Is (ProtocolError p e) t \<longleftrightarrow> error_Is e t"
| "error_Is e t \<longleftrightarrow> e = t"

fun as_ProtocolError :: "qerror \<Rightarrow> (string \<times> qerror) option" where
  "as_ProtocolError (CryptoError p e) = as_ProtocolError e"
| "as_ProtocolError (ProtocolError p e) = Some (p, e)"
| "as_ProtocolError _ = None"

section \<open>Results\<close>

datatype failure = Err qerror | Panic

type_synonym 'a res = "failure + 'a"

definition bindR :: "'a res \<Rightarrow> ('a \<Rightarrow> 'b res) \<Rightarrow> 'b res" where
  "bindR m f = (case m of Inl e \<Rightarrow> Inl e | Inr x \<Rightarrow> f x)"

definition failR :: "qerror \<Rightarrow> 'a res" where
  "failR e = Inl (Err e)"

definition guardR :: "bool \<Rightarrow> qerror \<Rightarrow> 'a res \<Rightarrow> 'a res" where
  "guardR bad e k = (if bad then Inl (Err e) else k)"

definition panics :: "'a res \<Rightarrow> bool" where
  "panics r \<longleftrightarrow> (case r of Inl Panic \<Rightarrow> True | _ \<Rightarrow> False)"

text \<open>
  Operations on a state return a result and the state they leave behind.  \<open>tryS\<close> is Go's
  \<open>if err != nil { return err }\<close> after a call, \<open>rejectS\<close> an early return from a condition; both keep
  the state reached so far.
\<close>

definition tryS :: "'s \<Rightarrow> 'a res \<Rightarrow> ('a \<Rightarrow> 'b res \<times> 's) \<Rightarrow> 'b res \<times> 's" where
  "tryS s r k = (case r of Inl e \<Rightarrow> (Inl e, s) | Inr x \<Rightarrow> k x)"

definition rejectS :: "bool \<Rightarrow> qerror \<Rightarrow> 's \<Rightarrow> 'b res \<times> 's \<Rightarrow> 'b res \<times> 's" where
  "rejectS bad e s k = (if bad then (Inl (Err e), s) else k)"

definition bindS :: "'a res \<times> 's \<Rightarrow> ('a \<Rightarrow> 's \<Rightarrow> 'b res \<times> 's) \<Rightarrow> 'b res \<times> 's" where
  "bindS m k = (case m of (Inl e, s) \<Rightarrow> (Inl e, s) | (Inr x, s) \<Rightarrow> k x s)"

text \<open>Buffer reads.\<close>

definition u8_at :: "bytes \<Rightarrow> nat \<Rightarrow> byte res" where
  "u8_at d i = (if i < length d then Inr (d ! i) else Inl Panic)"

definition slice_at :: "bytes \<Rightarrow> nat \<Rightarrow> nat \<Rightarrow> bytes res" where
  "slice_at d i n = (if i + n \<le> length d then Inr (take n (drop i d)) else Inl Panic)"

text \<open>Big-endian integers: the \<open>n\<close> low bytes of a value, most significant first.\<close>

primrec be_bytes :: "nat \<Rightarrow> nat \<Rightarrow> bytes" where
  "be_bytes 0 v = []"
| "be_bytes (Suc n) v = word_of_nat (v div 256 ^ n) # be_bytes n v"

definition be_nat :: "bytes \<Rightarrow> nat" where
  "be_nat bs = foldl (\<lambda>a b. a * 256 + unat b) 0 bs"

definition be_at :: "nat \<Rightarrow> bytes \<Rightarrow> nat \<Rightarrow> nat res" where
  "be_at n d i = (if i + n \<le> length d then Inr (be_nat (take n (drop i d))) else Inl Panic)"

definition put_u16 :: "u16 \<Rightarrow> bytes" where "put_u16 w = be_bytes 2 (unat w)"
definition put_u32 :: "u32 \<Rightarrow> bytes" where "put_u32 w = be_bytes 4 (unat w)"
definition put_u64 :: "u64 \<Rightarrow> bytes" where "put_u64 w = be_bytes 8 (unat w)"

definition get_u16 :: "bytes \<Rightarrow> u16" where "get_u16 b = word_of_nat (be_nat (take 2 b))"
definition get_u32 :: "bytes \<Rightarrow> u32" where "get_u32 b = word_of_nat (be_nat (take 4 b))"
definition get_u64 :: "bytes \<Rightarrow> u64" where "get_u64 b = word_of_nat (be_nat (take 8 b))"

definition u16_at :: "bytes \<Rightarrow> nat \<Rightarrow> u16 res" where
  "u16_at d i = bindR (be_at 2 d i) (\<lambda>v. Inr (word_of_nat v))"

definition u32_at :: "bytes \<Rightarrow> nat \<Rightarrow> u32 res" where
  "u32_at d i = bindR (be_at 4 d i) (\<lambda>v. Inr (word_of_nat v))"

definition u64_at :: "bytes \<Rightarrow> nat \<Rightarrow> u64 res" where
  "u64_at d i = bindR (be_at 8 d i) (\<lambda>v. Inr (word_of_nat v))"

text \<open>Results.\<close>

lemma bindR_simps [simp]:
  "bindR (Inl e) f = Inl e"
  "bindR (Inr x) f = f x"
  by (simp_all add: bindR_def)

lemma bindR_Inr_iff [result_simps]: "bindR m f = Inr y \<longleftrightarrow> (\<exists>x. m = Inr x \<and> f x = Inr y)"
  by (cases m) (auto simp: bindR_def)

lemma bindR_Panic_iff [result_simps]:
  "bindR m f = Inl Panic \<longleftrightarrow> m = Inl Panic \<or> (\<exists>x. m = Inr x \<and> f x = Inl Panic)"
  by (cases m) (auto simp: bindR_def)

lemma guardR_simps [result_simps]:
  "guardR b e k = Inr y \<longleftrightarrow> \<not> b \<and> k = Inr y"
  "guardR b e k = Inl Panic \<longleftrightarrow> \<not> b \<and> k = Inl Panic"
  by (auto simp: guardR_def)

lemma guardR_bool [simp]: "guardR False e k = k" "guardR True e k = Inl (Err e)"
  by (simp_all add: guardR_def)

lemma failR_simps [simp]: "failR e \<noteq> Inr x" "failR e \<noteq> Inl Panic"
  by (simp_all add: failR_def)

lemma panics_iff [simp]: "panics r \<longleftrightarrow> r = Inl Panic"
  by (auto simp: panics_def split: sum.splits failure.splits)

lemma bindR_cong [fundef_cong]:
  "\<lbrakk>m = m'; \<And>x. m' = Inr x \<Longrightarrow> f x = g x\<rbrakk> \<Longrightarrow> bindR m f = bindR m' g"
  by (auto simp: bindR_def split: sum.splits)

lemma tryS_simps [simp]: "tryS s (Inl e) k = (Inl e, s)" "tryS s (Inr x) k = k x"
  by (simp_all add: tryS_def)

lemma tryS_Inr [result_simps]:
  "tryS s r k = (Inr y, s') \<longleftrightarrow> (\<exists>x. r = Inr x \<and> k x = (Inr y, s'))"
  by (cases r) auto

lemma rejectS_simps [simp]: "rejectS False e s k = k" "rejectS True e s k = (Inl (Err e), s)"
  by (simp_all add: rejectS_def)

lemma rejectS_Inr [result_simps]:
  "rejectS b e s k = (Inr y, s') \<longleftrightarrow> \<not> b \<and> k = (Inr y, s')"
  by (simp add: rejectS_def)

lemma bindS_simps [simp]: "bindS (Inl e, s) k = (Inl e, s)" "bindS (Inr x, s) k = k x s"
  by (simp_all add: bindS_def)

lemma bindS_Inr [result_simps]:
  "bindS m k = (Inr y, s') \<longleftrightarrow> (\<exists>x s. m = (Inr x, s) \<and> k x s = (Inr y, s'))"
  by (cases m; cases "fst m") auto

lemma tryS_state:
  "(\<And>x. r = Inr x \<Longrightarrow> P (snd (k x))) \<Longrightarrow> P s \<Longrightarrow> P (snd (tryS s r k))"
  by (cases r) auto

lemma rejectS_state: "(\<not> b \<Longrightarrow> P (snd k)) \<Longrightarrow> P s \<Longrightarrow> P (snd (rejectS b e s k))"
  by (simp add: rejectS_def)

lemma bindS_state:
  "(\<And>x t. m = (Inr x, t) \<Longrightarrow> P (snd (k x t))) \<Longrightarrow> (\<And>e t. m = (Inl e, t) \<Longrightarrow> P t) \<Longrightarrow> P (snd (bindS m k))"
  by (cases m; cases "fst m") auto

text \<open>When a read panics, and what it gives.\<close>

lemma u8_at_iff [result_simps]:
  "u8_at d i = Inr b \<longleftrightarrow> i < length d \<and> b = d ! i"
  "u8_at d i = Inl Panic \<longleftrightarrow> length d \<le> i"
  by (auto simp: u8_at_def)

lemma slice_at_iff [result_simps]:
  "slice_at d i n = Inr s \<longleftrightarrow> i + n \<le> length d \<and> s = take n (drop i d)"
  "slice_at d i n = Inl Panic \<longleftrightarrow> length d < i + n"
  by (auto simp: slice_at_def)

lemma u16_at_iff [result_simps]:
  "u16_at d i = Inr w \<longleftrightarrow> i + 2 \<le> length d \<and> w = get_u16 (drop i d)"
  "u16_at d i = Inl Panic \<longleftrightarrow> length d < i + 2"
  by (auto simp: u16_at_def be_at_def get_u16_def)

lemma u32_at_iff [result_simps]:
  "u32_at d i = Inr x \<longleftrightarrow> i + 4 \<le> length d \<and> x = get_u32 (drop i d)"
  "u32_at d i = Inl Panic \<longleftrightarrow> length d < i + 4"
  by (auto simp: u32_at_def be_at_def get_u32_def)

lemma u64_at_iff [result_simps]:
  "u64_at d i = Inr y \<longleftrightarrow> i + 8 \<le> length d \<and> y = get_u64 (drop i d)"
  "u64_at d i = Inl Panic \<longleftrightarrow> length d < i + 8"
  by (auto simp: u64_at_def be_at_def get_u64_def)

text \<open>Big-endian round trips.\<close>

lemma length_be_bytes [simp]: "length (be_bytes n v) = n"
  by (induction n) auto

lemma be_bytes_0: "be_bytes n 0 = replicate n 0"
  by (induction n) auto

lemma be_nat_Nil [simp]: "be_nat [] = 0"
  by (simp add: be_nat_def)

lemma foldl_be: "foldl (\<lambda>a b. a * 256 + unat (b :: byte)) k bs
  = k * 256 ^ length bs + foldl (\<lambda>a b. a * 256 + unat b) 0 bs"
proof (induction bs arbitrary: k)
  case (Cons b bs)
  show ?case
    using Cons [of "k * 256 + unat b"] Cons [of "unat b"] by (simp add: algebra_simps)
qed simp

lemma be_nat_Cons: "be_nat (b # bs) = unat b * 256 ^ length bs + be_nat bs"
  using foldl_be [of "unat b" bs] by (simp add: be_nat_def)

lemma unat_less_pow: "unat (w :: 'a::len word) < 2 ^ LENGTH('a)"
  by (rule unsigned_less)

lemma unat_byte_less: "unat (b :: byte) < 256"
  using unat_less_pow [of b] by simp

lemma unat_byte_of_nat: "unat (word_of_nat v :: byte) = v mod 256"
  by (simp add: unat_of_nat)

lemma be_nat_be_bytes: "be_nat (be_bytes n v) = v mod 256 ^ n"
proof (induction n)
  case (Suc n)
  have "v mod 256 ^ Suc n = v div 256 ^ n mod 256 * 256 ^ n + v mod 256 ^ n"
    using mod_mult2_eq [of v "256 ^ n" 256] by (simp add: mult.commute)
  then show ?case
    using Suc by (simp add: be_nat_Cons unat_byte_of_nat)
qed simp

lemma be_nat_less: "be_nat bs < 256 ^ length bs"
proof (induction bs)
  case (Cons b bs)
  have "Suc (unat b) * 256 ^ length bs \<le> 256 * 256 ^ length bs"
    using unat_byte_less [of b] by (intro mult_le_mono1) simp
  then show ?case
    using Cons by (simp only: list.size(4) add_0_right add_Suc_right power_Suc be_nat_Cons mult_Suc)

qed simp

lemma be_bytes_mod: "be_bytes n (v mod 256 ^ n) = be_bytes n v"
proof -
  have "be_bytes m (v mod 256 ^ n) = be_bytes m v" if "m \<le> n" for m
    using that
  proof (induction m)
    case (Suc m)
    have "(256::nat) ^ n = 256 ^ m * 256 ^ (n - m)"
      using Suc.prems by (simp flip: power_add)
    then have "v mod 256 ^ n div 256 ^ m = v div 256 ^ m mod 256 ^ (n - m)"
      by (simp add: mod_mult2_eq)
    moreover have "v div 256 ^ m mod 256 ^ (n - m) mod 256 = v div 256 ^ m mod 256"
      using Suc.prems by (intro mod_mod_cancel) (simp add: dvd_power)
    ultimately show ?case
      using Suc by (simp add: word_of_nat_eq_iff take_bit_eq_mod)
  qed simp
  then show ?thesis
    by simp
qed

lemma be_bytes_be_nat: "length bs = n \<Longrightarrow> be_bytes n (be_nat bs) = bs"
proof (induction bs arbitrary: n)
  case (Cons b bs)
  let ?m = "length bs"
  have "be_nat (b # bs) div 256 ^ ?m = unat b"
    using be_nat_less [of bs] by (simp add: be_nat_Cons)
  moreover have "be_bytes ?m (be_nat (b # bs)) = bs"
    using Cons.IH [of ?m] be_nat_less [of bs]
      be_bytes_mod [of ?m "be_nat (b # bs)"] by (simp add: be_nat_Cons)
  ultimately show ?case
    using Cons.prems by (auto simp del: word_of_nat_eq_iff)
qed simp

lemma be_bytes_inject:
  "\<lbrakk>v < 256 ^ n; w < 256 ^ n\<rbrakk> \<Longrightarrow> be_bytes n v = be_bytes n w \<longleftrightarrow> v = w"
  by (metis be_nat_be_bytes mod_less)

lemma length_put [simp]:
  "length (put_u16 a) = 2" "length (put_u32 b) = 4" "length (put_u64 c) = 8"
  by (simp_all add: put_u16_def put_u32_def put_u64_def)

lemma word_of_be:
  "LENGTH('a) = 8 * n \<Longrightarrow> word_of_nat (be_nat (be_bytes n (unat w))) = (w :: 'a::len word)"
proof -
  assume "LENGTH('a) = 8 * n"
  then have "(256::nat) ^ n = 2 ^ LENGTH('a)"
    by (simp add: power_mult)
  then show ?thesis
    using unat_less_pow [of w] by (simp add: be_nat_be_bytes)
qed

lemma get_put [simp, codec_simps]:
  "get_u16 (put_u16 a @ r) = a"
  "get_u32 (put_u32 b @ r) = b"
  "get_u64 (put_u64 c @ r) = c"
  unfolding get_u16_def put_u16_def get_u32_def put_u32_def get_u64_def put_u64_def
  by (simp_all add: word_of_be)

lemma put_get:
  "length b = 2 \<Longrightarrow> put_u16 (get_u16 b) = b"
  "length c = 4 \<Longrightarrow> put_u32 (get_u32 c) = c"
  "length d = 8 \<Longrightarrow> put_u64 (get_u64 d) = d"
  using be_nat_less [of b] be_nat_less [of c] be_nat_less [of d]
  by (simp_all add: get_u16_def put_u16_def get_u32_def put_u32_def get_u64_def put_u64_def
      be_bytes_be_nat unat_of_nat)

lemma put_inject [simp]:
  "put_u16 a = put_u16 a' \<longleftrightarrow> a = a'"
  "put_u32 b = put_u32 b' \<longleftrightarrow> b = b'"
  "put_u64 c = put_u64 c' \<longleftrightarrow> c = c'"
  by (metis get_put(1), metis get_put(2), metis get_put(3))

text \<open>Cursor rules: what a read gives when the unread rest of the buffer is known.\<close>

lemma length_of_drop: "drop i d = s \<Longrightarrow> s \<noteq> [] \<Longrightarrow> length d = i + length s"
  by (metis add.commute drop_eq_Nil le_add_diff_inverse2 length_drop nat_le_linear)

lemma read_byte: "drop i d = b # r \<Longrightarrow> u8_at d i = Inr b"
  using length_of_drop [of i d "b # r"] by (simp add: u8_at_iff nth_via_drop)

lemma read_slice:
  assumes "drop i d = s @ r" "n = length s" "i \<le> length d"
  shows "slice_at d i n = Inr s"
proof -
  have "length d - i = length s + length r"
    using arg_cong [OF assms(1), of length] by simp
  then have "i + n \<le> length d"
    using assms(2,3) by linarith
  then show ?thesis
    unfolding slice_at_def assms(1) using assms(2) by simp
qed

lemma read_at:
  "drop i d = put_u16 a @ r \<Longrightarrow> u16_at d i = Inr a"
  "drop i d = put_u32 x @ r \<Longrightarrow> u32_at d i = Inr x"
  "drop i d = put_u64 y @ r \<Longrightarrow> u64_at d i = Inr y"
proof -
  have ne: "put_u16 a \<noteq> []" "put_u32 x \<noteq> []" "put_u64 y \<noteq> []"
    by (simp_all flip: length_0_conv)
  show "drop i d = put_u16 a @ r \<Longrightarrow> u16_at d i = Inr a"
    using length_of_drop [of i d "put_u16 a @ r"] ne by (simp add: u16_at_iff)
  show "drop i d = put_u32 x @ r \<Longrightarrow> u32_at d i = Inr x"
    using length_of_drop [of i d "put_u32 x @ r"] ne by (simp add: u32_at_iff)
  show "drop i d = put_u64 y @ r \<Longrightarrow> u64_at d i = Inr y"
    using length_of_drop [of i d "put_u64 y @ r"] ne by (simp add: u64_at_iff)
qed

lemma drop_step: "drop i d = s @ r \<Longrightarrow> j = i + length s \<Longrightarrow> drop j d = r"
  by (metis add.commute append_eq_conv_conj drop_drop)

lemma split_at_two: "take a r @ take b (drop a r) @ drop (b + a) r = r"
  by (metis append_take_drop_id drop_drop)

lemma drop_step1: "drop i d = b # r \<Longrightarrow> drop (Suc i) d = r"
  using drop_step [of i d "[b]" r] by simp

text \<open>Association lists.\<close>

lemma alist_update_set:
  "x \<in> set (AList.update k v al) \<Longrightarrow> x = (k, v) \<or> x \<in> set al"
  by (induction al) (auto split: if_splits)

lemma alist_update_length:
  "length (AList.update k v al) = (if map_of al k = None then Suc (length al) else length al)"
  by (induction al) auto

lemma alist_update_Nil [simp]: "AList.update k v al \<noteq> []"
  by (cases al) auto

lemma alist_delete_set: "x \<in> set (AList.delete k al) \<longleftrightarrow> x \<in> set al \<and> fst x \<noteq> k"
  by (auto simp: AList.delete_eq)

lemma alist_delete_length:
  "k \<in> fst ` set al \<Longrightarrow> length (AList.delete k al) < length al"
  by (induction al) (auto simp: AList.delete_eq intro: le_less_trans [OF length_filter_le])

end
