(* ===== verification/Bitset.thy ===== *)
theory Bitset
  imports Prelude
begin

text \<open>
  A bit set kept in a slice of 64-bit words, as the replay window and the reassembler both do:
  position \<open>p\<close> is bit \<open>p mod 64\<close> of word \<open>p div 64\<close>.  The operations are the Go expressions
  \<open>b[p/64] & (1<<(p%64)) != 0\<close> and \<open>b[p/64] |= 1<<(p%64)\<close>; the lemmas describe them by membership.
\<close>

unbundle bit_operations_syntax

definition testBit :: "u64 list \<Rightarrow> nat \<Rightarrow> bool" where
  "testBit ws p \<longleftrightarrow> ws ! (p div 64) AND push_bit (p mod 64) 1 \<noteq> 0"

definition setBit :: "u64 list \<Rightarrow> nat \<Rightarrow> u64 list" where
  "setBit ws p = ws[p div 64 := ws ! (p div 64) OR push_bit (p mod 64) 1]"

lemma testBit_iff: "testBit ws p \<longleftrightarrow> bit (ws ! (p div 64)) (p mod 64)"
  by (simp add: testBit_def bit_iff_and_push_bit_not_eq_0)

lemma length_setBit [simp]: "length (setBit ws p) = length ws"
  by (simp add: setBit_def)

lemma testBit_setBit:
  assumes "p < 64 * length ws"
  shows "testBit (setBit ws p) q \<longleftrightarrow> q = p \<or> testBit ws q"
proof -
  have "p div 64 < length ws"
    using assms by (simp add: less_mult_imp_div_less mult.commute)
  moreover have "q = p \<longleftrightarrow> q div 64 = p div 64 \<and> q mod 64 = p mod 64"
    by (metis div_mult_mod_eq)
  ultimately show ?thesis
    by (auto simp: testBit_iff setBit_def nth_list_update bit_simps)
qed

lemma testBit_replicate [simp]: "p < 64 * n \<Longrightarrow> \<not> testBit (replicate n 0) p"
  by (simp add: testBit_iff less_mult_imp_div_less mult.commute)

end
