(* ===== verification/Replay.thy ===== *)
theory Replay
  imports Bitset
begin

text \<open>
  The anti-replay window of pkg/tunnel/replay.go, and the stream session's wrapper around it.
  A window is a bitmap of the most recent sequence numbers; the abstract filter is the set of
  all sequence numbers accepted so far.  Shown: the shifting bitmap takes the same decisions as
  the abstract filter on every sequence of checks, so no number is accepted twice and every
  fresh number inside the window is accepted; \<open>Admissible\<close> predicts \<open>Check\<close>.
\<close>

section \<open>The window\<close>

definition DatagramReplayWindowSize :: u64 where "DatagramReplayWindowSize = 1024"
definition StreamReplayWindowSize :: u64 where "StreamReplayWindowSize = 1024"

record replay_window =
  bitmap :: "u64 list"
  highSeq :: u64
  rw_size :: u64
  seen :: bool

definition NewDatagramReplayWindowSize :: "u64 \<Rightarrow> replay_window" where
  "NewDatagramReplayWindowSize sz =
     (let sz = (if sz = 0 then DatagramReplayWindowSize else sz);
          words = (sz + 64 - 1) div 64
      in \<lparr>bitmap = replicate (unat words) 0, highSeq = 0, rw_size = words * 64, seen = False\<rparr>)"

definition NewDatagramReplayWindow :: replay_window where
  "NewDatagramReplayWindow = NewDatagramReplayWindowSize DatagramReplayWindowSize"

definition NewReplayWindow :: replay_window where
  "NewReplayWindow = NewDatagramReplayWindowSize StreamReplayWindowSize"

text \<open>The shift loop runs from the last word down and writes in place.\<close>

definition shifted_word :: "nat \<Rightarrow> nat \<Rightarrow> u64 list \<Rightarrow> nat \<Rightarrow> u64" where
  "shifted_word wordShift bitShift bm i =
     (if i \<ge> wordShift then
        (let src = i - wordShift;
             v = push_bit bitShift (bm ! src)
         in if bitShift \<noteq> 0 \<and> src \<ge> 1 then v OR drop_bit (64 - bitShift) (bm ! (src - 1)) else v)
      else 0)"

primrec shift_loop :: "nat \<Rightarrow> nat \<Rightarrow> nat \<Rightarrow> u64 list \<Rightarrow> u64 list" where
  "shift_loop 0 wordShift bitShift bm = bm"
| "shift_loop (Suc i) wordShift bitShift bm =
     shift_loop i wordShift bitShift (bm[i := shifted_word wordShift bitShift bm i])"

definition advance :: "replay_window \<Rightarrow> u64 \<Rightarrow> replay_window" where
  "advance w delta =
     (if delta \<ge> rw_size w then w\<lparr>bitmap := map (\<lambda>_. 0) (bitmap w)\<rparr>
      else w\<lparr>bitmap := shift_loop (length (bitmap w)) (unat (delta div 64)) (unat (delta mod 64)) (bitmap w)\<rparr>)"

definition window_setBit :: "replay_window \<Rightarrow> u64 \<Rightarrow> replay_window" where
  "window_setBit w pos = w\<lparr>bitmap := setBit (bitmap w) (unat pos)\<rparr>"

definition Check :: "replay_window \<Rightarrow> u64 \<Rightarrow> bool \<times> replay_window" where
  "Check w sq =
     (if \<not> seen w then (True, window_setBit (w\<lparr>seen := True, highSeq := sq\<rparr>) 0)
      else if sq > highSeq w then
        (True, window_setBit ((advance w (sq - highSeq w))\<lparr>highSeq := sq\<rparr>) 0)
      else if sq = highSeq w then (False, w)
      else (let diff = highSeq w - sq in
        if diff \<ge> rw_size w then (False, w)
        else if testBit (bitmap w) (unat diff) then (False, w)
        else (True, window_setBit w diff)))"

definition Admissible :: "replay_window \<Rightarrow> u64 \<Rightarrow> bool" where
  "Admissible w sq \<longleftrightarrow>
     (if \<not> seen w then True
      else if sq > highSeq w then True
      else if sq = highSeq w then False
      else (let diff = highSeq w - sq in
        if diff \<ge> rw_size w then False else \<not> testBit (bitmap w) (unat diff)))"

section \<open>The abstract filter\<close>

text \<open>
  The specification keeps every accepted number.  A number is fresh if it was not accepted before
  and is less than \<open>n\<close> behind every accepted one.
\<close>

definition fresh :: "nat \<Rightarrow> u64 set \<Rightarrow> u64 \<Rightarrow> bool" where
  "fresh n S sq \<longleftrightarrow> sq \<notin> S \<and> (\<forall>t\<in>S. unat t < unat sq + n)"

text \<open>The numbers accepted in a run of checks: by an implementation, and by the specification.\<close>

primrec accepted_by :: "('w \<Rightarrow> u64 \<Rightarrow> bool \<times> 'w) \<Rightarrow> 'w \<Rightarrow> u64 list \<Rightarrow> u64 list" where
  "accepted_by check w [] = []"
| "accepted_by check w (sq # sqs) =
     (case check w sq of (b, w') \<Rightarrow> if b then sq # accepted_by check w' sqs else accepted_by check w' sqs)"

primrec accepted_spec :: "nat \<Rightarrow> u64 set \<Rightarrow> u64 list \<Rightarrow> u64 list" where
  "accepted_spec n S [] = []"
| "accepted_spec n S (sq # sqs) =
     (if fresh n S sq then sq # accepted_spec n (insert sq S) sqs else accepted_spec n S sqs)"

lemma accepted_spec_distinct:
  "distinct (accepted_spec n S sqs) \<and> set (accepted_spec n S sqs) \<inter> S = {}"
  by (induction sqs arbitrary: S) (force simp: fresh_def)+

lemma accepted_spec_increasing:
  assumes "sorted_wrt (<) sqs" "\<forall>t\<in>S. \<forall>sq\<in>set sqs. t < sq"
  shows "accepted_spec n S sqs = sqs"
  using assms
proof (induction sqs arbitrary: S)
  case (Cons sq sqs)
  then have "fresh n S sq"
    by (auto simp: fresh_def word_less_nat_alt intro: trans_less_add1)
  then show ?case
    using Cons by auto
qed simp

locale replay_filter =
  fixes check :: "'w \<Rightarrow> u64 \<Rightarrow> bool \<times> 'w" and admissible :: "'w \<Rightarrow> u64 \<Rightarrow> bool"
    and rel :: "'w \<Rightarrow> u64 set \<Rightarrow> bool" and n :: nat
  assumes check_decides: "rel w S \<Longrightarrow> fst (check w sq) \<longleftrightarrow> fresh n S sq"
    and check_rel: "rel w S \<Longrightarrow> rel (snd (check w sq)) (if fresh n S sq then insert sq S else S)"
    and admissible_check: "admissible w sq \<longleftrightarrow> fst (check w sq)"
begin

lemma refines_spec: "rel w S \<Longrightarrow> accepted_by check w sqs = accepted_spec n S sqs"
proof (induction sqs arbitrary: w S)
  case (Cons sq sqs)
  then show ?case
    using check_decides [OF Cons.prems, of sq] check_rel [OF Cons.prems, of sq]
      Cons.IH [of "snd (check w sq)"]
    by (auto split: prod.splits)
qed simp

lemma no_replay: "rel w S \<Longrightarrow> distinct (accepted_by check w sqs) \<and> set (accepted_by check w sqs) \<inter> S = {}"
  by (simp add: refines_spec accepted_spec_distinct)

lemma in_order: "rel w {} \<Longrightarrow> sorted_wrt (<) sqs \<Longrightarrow> accepted_by check w sqs = sqs"
  by (simp add: refines_spec accepted_spec_increasing)

lemma admissible_decides: "rel w S \<Longrightarrow> admissible w sq \<longleftrightarrow> fresh n S sq"
  by (simp add: admissible_check check_decides)

end

section \<open>The bitmap implements the filter\<close>

definition window_ok :: "replay_window \<Rightarrow> bool" where
  "window_ok w \<longleftrightarrow> unat (rw_size w) = 64 * length (bitmap w) \<and> 0 < length (bitmap w)"

text \<open>Bit \<open>p\<close> of a window stands for the number \<open>highSeq - p\<close>.\<close>

definition window_rel :: "nat \<Rightarrow> replay_window \<Rightarrow> u64 set \<Rightarrow> bool" where
  "window_rel n w S \<longleftrightarrow> window_ok w \<and> unat (rw_size w) = n \<and> (seen w \<longleftrightarrow> S \<noteq> {}) \<and>
     (\<forall>p<n. testBit (bitmap w) p \<longleftrightarrow> seen w \<and> p \<le> unat (highSeq w) \<and> highSeq w - word_of_nat p \<in> S) \<and>
     (seen w \<longrightarrow> highSeq w \<in> S \<and> (\<forall>t\<in>S. t \<le> highSeq w))"

lemma length_shift_loop [simp]: "length (shift_loop k a b bm) = length bm"
  by (induction k arbitrary: bm) auto

text \<open>The in-place loop writes every word from the words of the old bitmap.\<close>

lemma shifted_word_update:
  "i < j \<Longrightarrow> shifted_word a b (bm[j := v]) i = shifted_word a b bm i"
  by (auto simp: shifted_word_def Let_def)

lemma shift_loop_nth:
  "k \<le> length bm \<Longrightarrow> i < length bm \<Longrightarrow>
     shift_loop k a b bm ! i = (if i < k then shifted_word a b bm i else bm ! i)"
proof (induction k arbitrary: bm)
  case (Suc k)
  then show ?case
    using shifted_word_update [of i k a b bm "shifted_word a b bm k"]
    by (auto simp: less_Suc_eq)
qed simp

lemma shift_loop_testBit:
  assumes "p < 64 * length bm"
  shows "testBit (shift_loop (length bm) (delta div 64) (delta mod 64) bm) p \<longleftrightarrow>
     delta \<le> p \<and> testBit bm (p - delta)"
proof -
  define i b a c where "i = p div 64" and "b = p mod 64" and "a = delta div 64" and "c = delta mod 64"
  have p: "p = 64 * i + b" "b < 64" and d: "delta = 64 * a + c" "c < 64"
    by (simp_all add: i_def b_def a_def c_def)
  have i: "i < length bm"
    using assms by (simp add: i_def less_mult_imp_div_less mult.commute)
  have "testBit (shift_loop (length bm) a c bm) p \<longleftrightarrow> bit (shifted_word a c bm i) b"
    using i by (simp add: testBit_iff shift_loop_nth flip: i_def b_def)
  also have "\<dots> \<longleftrightarrow> delta \<le> p \<and> testBit bm (p - delta)"
  proof (cases "delta \<le> p")
    case True
    have "a \<le> i" "b < c \<Longrightarrow> a < i"
      using True p d by linarith+
    then consider "c \<le> b" "a \<le> i" | "b < c" "a < i"
      by linarith
    then show ?thesis
    proof cases
      case 1
      then have "p - delta = 64 * (i - a) + (b - c)"
        using p d by (simp add: algebra_simps)
      then have "(p - delta) div 64 = i - a" "(p - delta) mod 64 = b - c"
        using p(2) by simp_all
      then show ?thesis
        using 1 True p(2) d(2)
        by (auto simp: testBit_iff shifted_word_def Let_def bit_simps dest: bit_imp_le_length)
    next
      case 2
      obtain e where e: "e = 64 + b - c" "e < 64"
        using 2 d(2) by simp
      then have "p - delta = 64 * (i - a - 1) + e"
        using 2 p d by (simp add: algebra_simps)
      then have "(p - delta) div 64 = i - a - 1" "(p - delta) mod 64 = 64 + b - c"
        using e by simp_all
      then show ?thesis
        using 2 True p(2) d(2)
        by (auto simp: testBit_iff shifted_word_def Let_def bit_simps)
    qed
  next
    case False
    have "i \<le> a" "i = a \<Longrightarrow> b < c"
      using False p d by linarith+
    then consider "i < a" | "i = a" "b < c"
      by linarith
    then show ?thesis
      using False by cases (auto simp: shifted_word_def Let_def bit_simps)
  qed
  finally show ?thesis
    by (simp add: a_def c_def)
qed

text \<open>Effect of the operations on the bits.\<close>

lemma advance_fields [simp]:
  "rw_size (advance w d) = rw_size w" "seen (advance w d) = seen w" "highSeq (advance w d) = highSeq w"
  "length (bitmap (advance w d)) = length (bitmap w)"
  by (simp_all add: advance_def)

lemma advance_testBit:
  assumes "window_ok w" "p < unat (rw_size w)"
  shows "testBit (bitmap (advance w d)) p \<longleftrightarrow> unat d \<le> p \<and> testBit (bitmap w) (p - unat d)"
proof (cases "rw_size w \<le> d")
  case True
  then show ?thesis
    using assms by (auto simp: advance_def window_ok_def map_replicate_const word_le_nat_alt)
next
  case False
  then show ?thesis
    using assms shift_loop_testBit [of p "bitmap w" "unat d"]
    by (simp add: advance_def window_ok_def unat_div unat_mod)
qed

lemma window_setBit_testBit:
  "window_ok w \<Longrightarrow> pos < rw_size w \<Longrightarrow>
     testBit (bitmap (window_setBit w pos)) q \<longleftrightarrow> q = unat pos \<or> testBit (bitmap w) q"
  by (simp add: window_setBit_def window_ok_def testBit_setBit word_less_nat_alt)

lemma window_setBit_fields [simp]:
  "rw_size (window_setBit w pos) = rw_size w" "seen (window_setBit w pos) = seen w"
  "highSeq (window_setBit w pos) = highSeq w"
  "length (bitmap (window_setBit w pos)) = length (bitmap w)"
  by (simp_all add: window_setBit_def)

lemma window_rel_size: "window_rel n w S \<Longrightarrow> 0 < rw_size w"
  by (auto simp: window_rel_def window_ok_def word_less_nat_alt)

lemma unat_sub_le: "(b :: u64) \<le> a \<Longrightarrow> unat (a - b) = unat a - unat b"
  by (simp add: unat_sub)

lemma sub_of_nat: "p \<le> unat (h :: u64) \<Longrightarrow> unat (h - word_of_nat p) = unat h - p"
  using unat_less_pow [of h] by (simp add: unat_sub word_le_nat_alt unat_of_nat)

lemma sub_eq_iff: "p \<le> unat (h :: u64) \<Longrightarrow> h - word_of_nat p = t \<longleftrightarrow> t \<le> h \<and> p = unat h - unat t"
  using sub_of_nat [of p h] by (auto simp: word_unat_eq_iff word_le_nat_alt)

lemma of_nat_neq_0: "0 < p \<Longrightarrow> p \<le> unat (h :: u64) \<Longrightarrow> (word_of_nat p :: u64) \<noteq> 0"
  using sub_of_nat [of p h] by fastforce

lemma check_decides_window:
  assumes "window_rel n w S"
  shows "fst (Check w sq) \<longleftrightarrow> fresh n S sq"
proof -
  note r = assms [unfolded window_rel_def]
  consider "\<not> seen w" | "seen w" "sq > highSeq w" | "seen w" "sq = highSeq w"
    | "seen w" "sq < highSeq w"
    by fastforce
  then show ?thesis
  proof cases
    case 2
    then have "t < sq" if "t \<in> S" for t
      using r that by (metis order_le_less_trans)
    then have "sq \<notin> S" "\<forall>t\<in>S. unat t < unat sq + n"
      by (auto simp: word_less_nat_alt intro: trans_less_add1)
    then show ?thesis
      using 2 by (simp add: Check_def fresh_def)
  next
    case 4
    let ?diff = "highSeq w - sq"
    have d: "unat ?diff = unat (highSeq w) - unat sq" "unat sq < unat (highSeq w)"
      using 4(2) by (simp add: unat_sub_le less_imp_le, simp add: word_less_nat_alt)
    have "unat ?diff < n \<Longrightarrow> testBit (bitmap w) (unat ?diff) \<longleftrightarrow> sq \<in> S"
      using r 4(1) d by simp
    moreover have "(\<forall>t\<in>S. unat t < unat sq + n) \<longleftrightarrow> unat ?diff < n"
      using r 4(1) d by (fastforce simp: word_le_nat_alt)
    moreover have "rw_size w \<le> ?diff \<longleftrightarrow> \<not> unat ?diff < n"
      using r by (simp add: word_le_nat_alt not_less)
    ultimately show ?thesis
      using 4 by (auto simp: Check_def fresh_def Let_def)
  qed (use r in \<open>auto simp: Check_def fresh_def\<close>)
qed

lemma window_rel_new:
  assumes "window_rel n w S" "sq \<notin> S" "\<forall>t\<in>S. t < sq" "0 < n"
    and "rw_size w' = rw_size w" "seen w'" "highSeq w' = sq" "length (bitmap w') = length (bitmap w)"
    and "\<forall>p<n. testBit (bitmap w') p \<longleftrightarrow>
      p = 0 \<or> seen w \<and> unat (sq - highSeq w) \<le> p \<and> testBit (bitmap w) (p - unat (sq - highSeq w))"
  shows "window_rel n w' (insert sq S)"
proof -
  note r = assms(1) [unfolded window_rel_def]
  have "testBit (bitmap w') p \<longleftrightarrow> p \<le> unat sq \<and> sq - word_of_nat p \<in> insert sq S" if p: "p < n" for p
  proof (cases "p = 0")
    case False
    let ?h = "highSeq w" and ?d = "unat (sq - highSeq w)"
    show ?thesis
    proof (cases "seen w")
      case True
      then have h: "?h \<in> S" "unat ?h < unat sq" "\<And>t. t \<in> S \<Longrightarrow> unat t \<le> unat ?h"
        using r assms(3) by (auto simp: word_less_nat_alt word_le_nat_alt)
      then have d: "?d = unat sq - unat ?h"
        by (simp add: unat_sub_le word_le_nat_alt)
      have "testBit (bitmap w') p \<longleftrightarrow> ?d \<le> p \<and> p - ?d \<le> unat ?h \<and> ?h - word_of_nat (p - ?d) \<in> S"
        using assms(9) p False True r by auto
      also have "\<dots> \<longleftrightarrow> p \<le> unat sq \<and> sq - word_of_nat p \<in> S"
      proof -
        have "?h - word_of_nat (p - ?d) = sq - word_of_nat p" if "?d \<le> p" "p \<le> unat sq"
          using that d h by (simp add: word_unat_eq_iff sub_of_nat)
        moreover have "?d \<le> p" if "p \<le> unat sq" "sq - word_of_nat p \<in> S"
          using h(3) [OF that(2)] that(1) d by (simp add: sub_of_nat)
        moreover have "?d \<le> p \<Longrightarrow> p - ?d \<le> unat ?h \<longleftrightarrow> p \<le> unat sq"
          using d h(2) by linarith
        ultimately show ?thesis
          by metis
      qed
      finally show ?thesis
        using False by (auto simp: of_nat_neq_0)
    next
      case False
      then show ?thesis
        using assms(9) p \<open>p \<noteq> 0\<close> r by (auto simp: of_nat_neq_0)
    qed
  qed (use assms in simp)
  then show ?thesis
    using assms r by (auto simp: window_rel_def window_ok_def less_imp_le)
qed

lemma check_rel_window:
  assumes "window_rel n w S"
  shows "window_rel n (snd (Check w sq)) (if fresh n S sq then insert sq S else S)"
proof -
  note r = assms [unfolded window_rel_def]
  have n: "0 < n"
    using r by (auto simp: window_ok_def)
  note dec = check_decides_window [OF assms, of sq]
  have "seen w \<Longrightarrow> \<not> fst (Check w (highSeq w))"
    by (simp add: Check_def)
  then consider "\<not> seen w" | "seen w" "sq > highSeq w" | "fst (Check w sq) = False"
    | "seen w" "sq < highSeq w" "fst (Check w sq)"
    by (metis linorder_less_linear)
  then show ?thesis
  proof cases
    case 1
    then have "window_rel n (snd (Check w sq)) (insert sq S)"
      using assms r n window_rel_size [OF assms]
      by (intro window_rel_new [OF assms]) (auto simp: Check_def window_ok_def window_setBit_def testBit_setBit)
    then show ?thesis
      using 1 dec by (simp add: Check_def)
  next
    case 2
    then have S: "\<forall>t\<in>S. t < sq"
      using r by (metis order_le_less_trans)
    let ?w = "(advance w (sq - highSeq w))\<lparr>highSeq := sq\<rparr>"
    have ok: "window_ok ?w" "0 < rw_size ?w"
      using r window_rel_size [OF assms] by (simp_all add: window_ok_def)
    have "window_rel n (snd (Check w sq)) (insert sq S)"
      using 2 S r n window_setBit_testBit [OF ok] advance_testBit [of w]
      by (intro window_rel_new [OF assms]) (auto simp: Check_def)
    then show ?thesis
      using 2 dec by (simp add: Check_def)
  next
    case 3
    then show ?thesis
      using assms dec by (auto simp: Check_def Let_def split: if_splits)
  next
    case 4
    let ?diff = "highSeq w - sq"
    have d: "unat ?diff = unat (highSeq w) - unat sq"
      using 4(2) by (simp add: unat_sub_le less_imp_le)
    have c: "?diff < rw_size w" "snd (Check w sq) = window_setBit w ?diff"
      using 4 by (auto simp: Check_def Let_def not_le split: if_splits)
    have "testBit (bitmap (window_setBit w ?diff)) p \<longleftrightarrow>
        p \<le> unat (highSeq w) \<and> highSeq w - word_of_nat p \<in> insert sq S" if "p < n" for p
    proof -
      have "p \<le> unat (highSeq w) \<and> highSeq w - word_of_nat p = sq \<longleftrightarrow> p = unat ?diff"
        using sub_eq_iff [of p "highSeq w" sq] d 4(2) by (auto simp: less_imp_le)
      then show ?thesis
        using r 4(1) that window_setBit_testBit [OF _ c(1), of p] by blast
    qed
    then show ?thesis
      using r 4 c dec by (auto simp: window_rel_def window_ok_def)
  qed
qed

interpretation window: replay_filter Check Admissible "window_rel n" n for n
proof
  show "Admissible w sq \<longleftrightarrow> fst (Check w sq)" for w sq
    by (simp add: Admissible_def Check_def Let_def)
qed (fact check_decides_window check_rel_window)+

lemma new_window_rel:
  assumes "0 < sz" "unat sz + 63 < 2 ^ 64"
  shows "window_rel (64 * ((unat sz + 63) div 64)) (NewDatagramReplayWindowSize sz) {}"
proof -
  have "unat (63 + sz) = unat sz + 63"
    using unat_add_lem [of 63 sz] assms(2) by simp
  then have w: "unat ((63 + sz) div 64) = (unat sz + 63) div 64"
    by (simp add: unat_div)
  have "(unat sz + 63) div 64 < 288230376151711744"
    by (rule less_mult_imp_div_less) (use assms(2) in simp)
  then have "unat ((63 + sz) div 64 * 64) = 64 * ((unat sz + 63) div 64)"
    using unat_mult_lem [of "(63 + sz) div 64" 64] w by (simp add: mult.commute)
  moreover have "0 < (unat sz + 63) div 64"
    using assms(1) by (simp add: div_greater_zero_iff word_less_nat_alt)
  ultimately show ?thesis
    using assms(1) w by (auto simp: window_rel_def window_ok_def NewDatagramReplayWindowSize_def Let_def)
qed

lemma default_window_rel:
  "window_rel 1024 NewDatagramReplayWindow {}" "window_rel 1024 NewReplayWindow {}"
  using new_window_rel [of 1024]
  by (simp_all add: NewDatagramReplayWindow_def NewReplayWindow_def DatagramReplayWindowSize_def
      StreamReplayWindowSize_def)

section \<open>Properties\<close>

text \<open>
  C8: Started empty, the datagram and the stream replay windows decide every sequence of checks
  exactly as the filter that remembers every accepted number and rejects a number that was
  accepted before or lies 1024 or more behind the highest one.
\<close>

theorem replay_window_refines_set:
  "accepted_by Check NewDatagramReplayWindow sqs = accepted_spec 1024 {} sqs \<and>
   accepted_by Check NewReplayWindow sqs = accepted_spec 1024 {} sqs"
  using window.refines_spec default_window_rel by blast

text \<open>
  C12: No replay: whatever numbers arrive in whatever order, a window of any usable size accepts
  each of them at most once, and \<open>Admissible\<close> answers as \<open>Check\<close> would.
\<close>

theorem replay_accepts_once:
  assumes "0 < sz" "unat sz + 63 < 2 ^ 64"
  shows "distinct (accepted_by Check (NewDatagramReplayWindowSize sz) sqs) \<and>
    (Admissible w sq \<longleftrightarrow> fst (Check w sq))"
  using window.no_replay [OF new_window_rel [OF assms]] window.admissible_check by blast

theorem replay_accepts_once_witness:
  "0 < (100 :: u64) \<and> unat (100 :: u64) + 63 < 2 ^ 64 \<and>
   distinct (accepted_by Check (NewDatagramReplayWindowSize 100) [5, 7, 5, 200, 7]) \<and>
   (Admissible NewReplayWindow 3 \<longleftrightarrow> fst (Check NewReplayWindow 3))"
  using replay_accepts_once [of 100 "[5, 7, 5, 200, 7]" NewReplayWindow 3] by simp

end
