(* ===== verification/Constants.thy ===== *)
theory Constants
  imports Prelude
begin

text \<open>
  The protocol constants of internal/constants.  They carry the source's names; their defining
  equations are collected in \<open>constant_defs\<close>.
\<close>

named_theorems constant_defs

section \<open>Constants\<close>

definition MLKEMPublicKeySize :: nat where [constant_defs]: "MLKEMPublicKeySize = 1568"
definition MLKEMPrivateKeySize :: nat where [constant_defs]: "MLKEMPrivateKeySize = 3168"
definition MLKEMCiphertextSize :: nat where [constant_defs]: "MLKEMCiphertextSize = 1568"
definition MLKEMSharedSecretSize :: nat where [constant_defs]: "MLKEMSharedSecretSize = 32"
definition X25519PublicKeySize :: nat where [constant_defs]: "X25519PublicKeySize = 32"
definition X25519PrivateKeySize :: nat where [constant_defs]: "X25519PrivateKeySize = 32"
definition X25519SharedSecretSize :: nat where [constant_defs]: "X25519SharedSecretSize = 32"
definition AESKeySize :: nat where [constant_defs]: "AESKeySize = 32"
definition AESNonceSize :: nat where [constant_defs]: "AESNonceSize = 12"
definition AESTagSize :: nat where [constant_defs]: "AESTagSize = 16"
definition ChaCha20KeySize :: nat where [constant_defs]: "ChaCha20KeySize = 32"
definition ChaCha20NonceSize :: nat where [constant_defs]: "ChaCha20NonceSize = 12"
definition KDFOutputSize :: nat where [constant_defs]: "KDFOutputSize = 32"
definition TranscriptHashSize :: nat where [constant_defs]: "TranscriptHashSize = 32"
definition CHKEMSharedSecretSize :: nat where [constant_defs]: "CHKEMSharedSecretSize = 32"
definition PSKSize :: nat where [constant_defs]: "PSKSize = CHKEMSharedSecretSize"
definition MaxPSKIdentitySize :: nat where [constant_defs]: "MaxPSKIdentitySize = 255"
definition MaxSessionDurationSeconds :: nat where [constant_defs]: "MaxSessionDurationSeconds = 3600"
definition MaxBytesBeforeRekey :: nat where [constant_defs]: "MaxBytesBeforeRekey = 2 ^ 36"
definition MaxPacketsBeforeRekey :: nat where [constant_defs]: "MaxPacketsBeforeRekey = 2 ^ 28"
definition SessionIDSize :: nat where [constant_defs]: "SessionIDSize = 16"
definition MaxMessageSize :: nat where [constant_defs]: "MaxMessageSize = 65536"
definition MaxPayloadSize :: nat where [constant_defs]: "MaxPayloadSize = 65507"
definition MinPacketSize :: nat where [constant_defs]: "MinPacketSize = AESNonceSize + AESTagSize + 1"
definition CHKEMPublicKeySize :: nat where [constant_defs]: "CHKEMPublicKeySize = X25519PublicKeySize + MLKEMPublicKeySize"
definition CHKEMCiphertextSize :: nat where [constant_defs]: "CHKEMCiphertextSize = X25519PublicKeySize + MLKEMCiphertextSize"
definition XWingPublicKeySize :: nat where [constant_defs]: "XWingPublicKeySize = 1216"
definition XWingCiphertextSize :: nat where [constant_defs]: "XWingCiphertextSize = 1120"
definition XWingSeedSize :: nat where [constant_defs]: "XWingSeedSize = 32"
definition XWingSharedSecretSize :: nat where [constant_defs]: "XWingSharedSecretSize = 32"
definition DatagramMTU :: nat where [constant_defs]: "DatagramMTU = 1200"
definition DatagramHeaderOverhead :: nat where [constant_defs]: "DatagramHeaderOverhead = 14"
definition DatagramDataOverhead :: nat where [constant_defs]: "DatagramDataOverhead = DatagramHeaderOverhead + AESTagSize"
definition DatagramMaxDataPayload :: nat where [constant_defs]: "DatagramMaxDataPayload = DatagramMTU - DatagramDataOverhead"
definition DatagramBatchSize :: nat where [constant_defs]: "DatagramBatchSize = 32"
definition DatagramMaxReceiveSockets :: nat where [constant_defs]: "DatagramMaxReceiveSockets = 8"
definition DatagramNoncePrefixSize :: nat where [constant_defs]: "DatagramNoncePrefixSize = AESNonceSize - 8"
definition DatagramMaxHandshakeMessageSize :: nat where [constant_defs]: "DatagramMaxHandshakeMessageSize = 4096"
definition DatagramMaxConcurrentReassembly :: nat where [constant_defs]: "DatagramMaxConcurrentReassembly = 4"
definition DatagramReassemblyTimeoutSeconds :: nat where [constant_defs]: "DatagramReassemblyTimeoutSeconds = 10"
definition DatagramHandshakeInitialTimeoutMillis :: nat where [constant_defs]: "DatagramHandshakeInitialTimeoutMillis = 500"
definition DatagramHandshakeMaxTimeoutMillis :: nat where [constant_defs]: "DatagramHandshakeMaxTimeoutMillis = 8000"
definition DatagramHandshakeMaxRetries :: nat where [constant_defs]: "DatagramHandshakeMaxRetries = 8"
definition DatagramHandshakeLingerReplays :: nat where [constant_defs]: "DatagramHandshakeLingerReplays = 16"
definition DatagramIdleTimeoutSeconds :: nat where [constant_defs]: "DatagramIdleTimeoutSeconds = 120"
definition DatagramMaxHalfOpenFloor :: nat where [constant_defs]: "DatagramMaxHalfOpenFloor = 1024"
definition DatagramMaxHalfOpenPerCore :: nat where [constant_defs]: "DatagramMaxHalfOpenPerCore = 256"
definition DatagramMaxHalfOpenCeiling :: nat where [constant_defs]: "DatagramMaxHalfOpenCeiling = 8192"
definition DatagramReplayWindowBits :: nat where [constant_defs]: "DatagramReplayWindowBits = 1024"
definition DatagramPrevEpochRetainSeconds :: nat where [constant_defs]: "DatagramPrevEpochRetainSeconds = 30"

text \<open>Domain separation labels of the key derivation.\<close>

definition DomainSeparatorCHKEM :: string where [constant_defs]: "DomainSeparatorCHKEM = ''CH-KEM-v1-SharedSecret''"
definition DomainSeparatorHandshake :: string where [constant_defs]: "DomainSeparatorHandshake = ''CH-KEM-Tunnel-Handshake''"
definition DomainSeparatorTraffic :: string where [constant_defs]: "DomainSeparatorTraffic = ''CH-KEM-Tunnel-Traffic''"
definition DomainSeparatorRekey :: string where [constant_defs]: "DomainSeparatorRekey = ''CH-KEM-Tunnel-Rekey''"
definition DomainSeparatorResumption :: string where [constant_defs]: "DomainSeparatorResumption = ''CH-KEM-Tunnel-Resumption''"
definition DomainSeparatorDatagramNonce :: string where [constant_defs]: "DomainSeparatorDatagramNonce = ''CH-KEM-Tunnel-Datagram-Nonce''"
definition DomainSeparatorAuthentication :: string where [constant_defs]: "DomainSeparatorAuthentication = ''CH-KEM-Tunnel-Authentication''"
definition DomainSeparatorPSK :: string where [constant_defs]: "DomainSeparatorPSK = ''CH-KEM-Tunnel-PSK''"
definition DomainSeparatorStreamNonce :: string where [constant_defs]: "DomainSeparatorStreamNonce = ''CH-KEM-Tunnel-Stream-Nonce''"

text \<open>Cipher suites.\<close>

type_synonym cipher_suite = u16

definition CipherSuiteAES256GCM :: cipher_suite where [constant_defs]: "CipherSuiteAES256GCM = 1"
definition CipherSuiteChaCha20Poly1305 :: cipher_suite where
  [constant_defs]: "CipherSuiteChaCha20Poly1305 = 2"

definition cipher_suite_string :: "cipher_suite \<Rightarrow> string" where
  "cipher_suite_string cs =
     (if cs = CipherSuiteAES256GCM then ''AES-256-GCM''
      else if cs = CipherSuiteChaCha20Poly1305 then ''ChaCha20-Poly1305'' else ''Unknown'')"

definition IsSupported :: "cipher_suite \<Rightarrow> bool" where
  "IsSupported cs \<longleftrightarrow> cs = CipherSuiteAES256GCM \<or> cs = CipherSuiteChaCha20Poly1305"

definition IsFIPSApproved :: "cipher_suite \<Rightarrow> bool" where
  "IsFIPSApproved cs \<longleftrightarrow> cs = CipherSuiteAES256GCM"

end
