(* ===== verification/Wire.thy ===== *)
theory Wire
  imports Constants
begin

text \<open>
  The stream wire format: pkg/protocol/version.go, messages.go and codec.go.  Message structs are
  records, message types and alert codes are bytes, every \<open>Encode*\<close>, \<open>Decode*\<close> and
  \<open>Validate\<close> is one definition with the same guards in the same order.  The encoders lay
  the fields down in the order the Go code advances its offset; the decoders read at explicit
  offsets with the panicking reads of the prelude.  Shown: round trips for every message,
  exactly when the hello decoders panic, panic freedom of the others, and framing of a stream of
  messages by \<open>ReadMessage\<close>.
\<close>

section \<open>version.go\<close>

record version =
  Major :: byte
  Minor :: byte

definition Current :: version where
  "Current = \<lparr>Major = 6, Minor = 0\<rparr>"

definition version_Bytes :: "version \<Rightarrow> bytes" where
  "version_Bytes v = [Major v, Minor v]"

definition version_Uint16 :: "version \<Rightarrow> u16" where
  "version_Uint16 v = or (push_bit 8 (ucast (Major v))) (ucast (Minor v))"

definition ParseVersion :: "bytes \<Rightarrow> version" where
  "ParseVersion d = (if length d < 2 then \<lparr>Major = 0, Minor = 0\<rparr>
     else \<lparr>Major = d ! 0, Minor = d ! 1\<rparr>)"

definition IsCompatible :: "version \<Rightarrow> version \<Rightarrow> bool" where
  "IsCompatible v other \<longleftrightarrow> Major v = Major other"

section \<open>messages.go\<close>

definition maxSessionIDLen :: nat where [constant_defs]: "maxSessionIDLen = 255"

definition HeaderSize :: nat where [constant_defs]: "HeaderSize = 5"

definition MessageTypeClientHello :: byte where [constant_defs]: "MessageTypeClientHello = 0x01"
definition MessageTypeServerHello :: byte where [constant_defs]: "MessageTypeServerHello = 0x02"
definition MessageTypeClientFinished :: byte where [constant_defs]: "MessageTypeClientFinished = 0x03"
definition MessageTypeServerFinished :: byte where [constant_defs]: "MessageTypeServerFinished = 0x04"
definition MessageTypeHelloRetryRequest :: byte where [constant_defs]: "MessageTypeHelloRetryRequest = 0x05"
definition MessageTypeData :: byte where [constant_defs]: "MessageTypeData = 0x10"
definition MessageTypeRekey :: byte where [constant_defs]: "MessageTypeRekey = 0x11"
definition MessageTypePing :: byte where [constant_defs]: "MessageTypePing = 0x12"
definition MessageTypePong :: byte where [constant_defs]: "MessageTypePong = 0x13"
definition MessageTypeClose :: byte where [constant_defs]: "MessageTypeClose = 0x14"
definition MessageTypeDatagramRekeyInit :: byte where [constant_defs]: "MessageTypeDatagramRekeyInit = 0x15"
definition MessageTypeDatagramRekeyResponse :: byte where [constant_defs]: "MessageTypeDatagramRekeyResponse = 0x16"
definition MessageTypeAlert :: byte where [constant_defs]: "MessageTypeAlert = 0xF0"

definition message_type_string :: "byte \<Rightarrow> string" where
  "message_type_string mt =
    (if mt = MessageTypeClientHello then ''ClientHello''
     else if mt = MessageTypeServerHello then ''ServerHello''
     else if mt = MessageTypeClientFinished then ''ClientFinished''
     else if mt = MessageTypeServerFinished then ''ServerFinished''
     else if mt = MessageTypeData then ''Data''
     else if mt = MessageTypeRekey then ''Rekey''
     else if mt = MessageTypePing then ''Ping''
     else if mt = MessageTypePong then ''Pong''
     else if mt = MessageTypeClose then ''Close''
     else if mt = MessageTypeDatagramRekeyInit then ''DatagramRekeyInit''
     else if mt = MessageTypeDatagramRekeyResponse then ''DatagramRekeyResponse''
     else if mt = MessageTypeAlert then ''Alert''
     else ''Unknown'')"

definition AlertLevelWarning :: byte where [constant_defs]: "AlertLevelWarning = 0x01"
definition AlertLevelFatal :: byte where [constant_defs]: "AlertLevelFatal = 0x02"

definition AlertCodeUnexpectedMessage :: byte where [constant_defs]: "AlertCodeUnexpectedMessage = 0x01"
definition AlertCodeBadCiphertext :: byte where [constant_defs]: "AlertCodeBadCiphertext = 0x02"
definition AlertCodeHandshakeFailure :: byte where [constant_defs]: "AlertCodeHandshakeFailure = 0x03"
definition AlertCodeUnsupportedVersion :: byte where [constant_defs]: "AlertCodeUnsupportedVersion = 0x04"
definition AlertCodeUnsupportedCipher :: byte where [constant_defs]: "AlertCodeUnsupportedCipher = 0x05"
definition AlertCodeDecryptionFailed :: byte where [constant_defs]: "AlertCodeDecryptionFailed = 0x06"
definition AlertCodeInternalError :: byte where [constant_defs]: "AlertCodeInternalError = 0x07"
definition AlertCodeCloseNotify :: byte where [constant_defs]: "AlertCodeCloseNotify = 0x08"

record client_hello =
  ch_Version :: version
  ch_Random :: bytes
  ch_SessionID :: bytes
  ch_KEMSuite :: u16
  ch_KEMSuites :: "u16 list"
  ch_CHKEMPublicKey :: bytes
  ch_CipherSuites :: "cipher_suite list"
  ch_CHKEMStaticCiphertext :: bytes
  ch_PSKIdentity :: bytes

record server_hello =
  sh_Version :: version
  sh_Random :: bytes
  sh_SessionID :: bytes
  sh_KEMSuite :: u16
  sh_CHKEMCiphertext :: bytes
  sh_CipherSuite :: cipher_suite

record hello_retry_request =
  hrr_Version :: version
  hrr_KEMSuite :: u16

record alert_message =
  al_Level :: byte
  al_Code :: byte
  al_Description :: bytes

definition alert_Validate :: "alert_message \<Rightarrow> qerror option" where
  "alert_Validate m =
    (if al_Level m \<noteq> AlertLevelWarning \<and> al_Level m \<noteq> AlertLevelFatal then Some ErrInvalidMessage
     else if length (al_Description m) > 256 then Some ErrInvalidMessage
     else None)"

definition client_hello_Validate :: "client_hello \<Rightarrow> qerror option" where
  "client_hello_Validate m =
    (if \<not> IsCompatible (ch_Version m) Current then Some ErrUnsupportedVersion
     else if length (ch_Random m) \<noteq> 32 then Some ErrInvalidMessage
     else if length (ch_CHKEMPublicKey m) = 0 then Some ErrInvalidPublicKey
     else if length (ch_SessionID m) > maxSessionIDLen then Some ErrInvalidMessage
     else if length (ch_CipherSuites m) = 0 then Some ErrInvalidMessage
     else if list_ex (\<lambda>cs. \<not> IsSupported cs) (ch_CipherSuites m) then Some ErrUnsupportedCipherSuite
     else if length (ch_PSKIdentity m) > MaxPSKIdentitySize then Some ErrInvalidMessage
     else None)"

definition server_hello_Validate :: "server_hello \<Rightarrow> qerror option" where
  "server_hello_Validate m =
    (if \<not> IsCompatible (sh_Version m) Current then Some ErrUnsupportedVersion
     else if length (sh_Random m) \<noteq> 32 then Some ErrInvalidMessage
     else if length (sh_SessionID m) > maxSessionIDLen then Some ErrInvalidMessage
     else if length (sh_CHKEMCiphertext m) = 0 then Some ErrInvalidCiphertext
     else if \<not> IsSupported (sh_CipherSuite m) then Some ErrUnsupportedCipherSuite
     else None)"

definition finished_Validate :: "bytes \<Rightarrow> qerror option" where
  "finished_Validate verifyData = (if length verifyData \<noteq> 32 then Some ErrInvalidMessage else None)"

definition validated :: "qerror option \<Rightarrow> 'a res \<Rightarrow> 'a res" where
  "validated e k = (case e of Some err \<Rightarrow> failR err | None \<Rightarrow> k)"

section \<open>codec.go: encoders\<close>

text \<open>The message header: type, then the payload length as a big-endian \<open>uint32\<close>.\<close>

definition header :: "byte \<Rightarrow> nat \<Rightarrow> bytes" where
  "header ty n = ty # be_bytes 4 n"

definition pskIdentityFieldLen :: "bytes \<Rightarrow> nat" where
  "pskIdentityFieldLen identity = (if length identity = 0 then 0 else 1 + length identity)"

definition optionalLenPrefixedSize :: "bytes \<Rightarrow> nat" where
  "optionalLenPrefixedSize b = (if length b = 0 then 0 else 2 + length b)"

definition client_hello_payloadSize :: "client_hello \<Rightarrow> nat" where
  "client_hello_payloadSize m =
     2 + 32 + 1 + length (ch_SessionID m)
     + 2 + 1 + 2 * length (ch_KEMSuites m)
     + 2 + length (ch_CHKEMPublicKey m)
     + 2 + 2 * length (ch_CipherSuites m)
     + 1 + optionalLenPrefixedSize (ch_CHKEMStaticCiphertext m)
     + 1 + pskIdentityFieldLen (ch_PSKIdentity m)"

definition put_u16s :: "u16 list \<Rightarrow> bytes" where
  "put_u16s xs = concat (map put_u16 xs)"

definition put_static :: "bytes \<Rightarrow> bytes" where
  "put_static ct = (if length ct > 0 then 1 # be_bytes 2 (length ct) @ ct else [0])"

definition put_psk :: "bytes \<Rightarrow> bytes" where
  "put_psk idn = (if length idn > 0 then 1 # word_of_nat (length idn) # idn else [0])"

definition EncodeClientHello :: "client_hello \<Rightarrow> bytes res" where
  "EncodeClientHello m = validated (client_hello_Validate m) (Inr (
     header MessageTypeClientHello (client_hello_payloadSize m)
     @ [Major (ch_Version m), Minor (ch_Version m)]
     @ ch_Random m
     @ [word_of_nat (length (ch_SessionID m))] @ ch_SessionID m
     @ put_u16 (ch_KEMSuite m)
     @ [word_of_nat (length (ch_KEMSuites m))] @ put_u16s (ch_KEMSuites m)
     @ be_bytes 2 (length (ch_CHKEMPublicKey m)) @ ch_CHKEMPublicKey m
     @ be_bytes 2 (length (ch_CipherSuites m)) @ put_u16s (ch_CipherSuites m)
     @ put_static (ch_CHKEMStaticCiphertext m)
     @ put_psk (ch_PSKIdentity m)))"

definition EncodeServerHello :: "server_hello \<Rightarrow> bytes res" where
  "EncodeServerHello m = validated (server_hello_Validate m) (Inr (
     header MessageTypeServerHello
       (2 + 32 + 1 + length (sh_SessionID m) + 2 + 2 + length (sh_CHKEMCiphertext m) + 2)
     @ [Major (sh_Version m), Minor (sh_Version m)]
     @ sh_Random m
     @ [word_of_nat (length (sh_SessionID m))] @ sh_SessionID m
     @ put_u16 (sh_KEMSuite m)
     @ be_bytes 2 (length (sh_CHKEMCiphertext m)) @ sh_CHKEMCiphertext m
     @ put_u16 (sh_CipherSuite m)))"

definition EncodeHelloRetryRequest :: "hello_retry_request \<Rightarrow> bytes res" where
  "EncodeHelloRetryRequest m = Inr (header MessageTypeHelloRetryRequest (2 + 2)
     @ [Major (hrr_Version m), Minor (hrr_Version m)] @ put_u16 (hrr_KEMSuite m))"

definition EncodeFinished :: "byte \<Rightarrow> bytes \<Rightarrow> bytes res" where
  "EncodeFinished msgType verifyData = guardR (length verifyData \<noteq> 32) ErrInvalidMessage
     (Inr (header msgType 32 @ verifyData))"

definition EncodeData :: "u64 \<Rightarrow> bytes \<Rightarrow> bytes res" where
  "EncodeData s payload = guardR (length payload > MaxPayloadSize) ErrMessageTooLarge
     (Inr (header MessageTypeData (8 + length payload) @ put_u64 s @ payload))"

definition EncodeAlert :: "byte \<Rightarrow> byte \<Rightarrow> bytes \<Rightarrow> bytes" where
  "EncodeAlert level code description =
     (let description = take 255 description
      in header MessageTypeAlert (1 + 1 + 1 + length description)
         @ [level, code, word_of_nat (length description)] @ description)"

definition EncodeRekeyPayload :: "bytes \<Rightarrow> u64 \<Rightarrow> bytes res" where
  "EncodeRekeyPayload newPublicKey activationSeq =
     guardR (length newPublicKey = 0 \<or> length newPublicKey > MaxMessageSize) ErrInvalidPublicKey
     (Inr (be_bytes 2 (length newPublicKey) @ newPublicKey @ put_u64 activationSeq))"

definition EncodeRekey :: "u64 \<Rightarrow> bytes \<Rightarrow> bytes res" where
  "EncodeRekey s ciphertext =
     Inr (header MessageTypeRekey (8 + length ciphertext) @ put_u64 s @ ciphertext)"

section \<open>codec.go: decoders\<close>

definition readLenPrefixed :: "bytes \<Rightarrow> nat \<Rightarrow> nat \<Rightarrow> (bytes \<times> nat) res" where
  "readLenPrefixed d off payloadEnd =
     guardR (off + 2 > payloadEnd) ErrInvalidMessage (
     bindR (be_at 2 d off) (\<lambda>n.
     guardR (off + 2 + n > payloadEnd) ErrInvalidMessage (
     bindR (slice_at d (off + 2) n) (\<lambda>out. Inr (out, off + 2 + n)))))"

primrec read_u16s :: "nat \<Rightarrow> bytes \<Rightarrow> nat \<Rightarrow> u16 list res" where
  "read_u16s 0 d off = Inr []"
| "read_u16s (Suc n) d off =
     bindR (u16_at d off) (\<lambda>x. bindR (read_u16s n d (off + 2)) (\<lambda>xs. Inr (x # xs)))"

text \<open>The checks both hello decoders share: header, type, declared length, minimum length.\<close>

definition hello_payloadEnd :: "byte \<Rightarrow> nat \<Rightarrow> bytes \<Rightarrow> nat res" where
  "hello_payloadEnd ty minPayloadLen d =
     guardR (length d < HeaderSize) ErrInvalidMessage (
     bindR (u8_at d 0) (\<lambda>t.
     guardR (t \<noteq> ty) ErrInvalidMessage (
     bindR (be_at 4 d 1) (\<lambda>payloadLen.
     guardR (length d < HeaderSize + payloadLen) ErrInvalidMessage (
     guardR (payloadLen < minPayloadLen) ErrInvalidMessage (
     Inr (HeaderSize + payloadLen)))))))"

text \<open>The optional session id: its length byte is not compared with the payload end.\<close>

definition read_session_id :: "bytes \<Rightarrow> nat \<Rightarrow> (bytes \<times> nat) res" where
  "read_session_id d off =
     bindR (u8_at d off) (\<lambda>n.
     let sessionIDLen = unat n in
     if sessionIDLen > 0
     then bindR (slice_at d (off + 1) sessionIDLen) (\<lambda>s. Inr (s, off + 1 + sessionIDLen))
     else Inr ([], off + 1))"

definition read_static :: "bytes \<Rightarrow> nat \<Rightarrow> nat \<Rightarrow> (bytes \<times> nat) res" where
  "read_static d off payloadEnd =
     (if off < payloadEnd
      then bindR (u8_at d off) (\<lambda>present.
           if present = 1 then readLenPrefixed d (off + 1) payloadEnd else Inr ([], off + 1))
      else Inr ([], off))"

definition read_psk :: "bytes \<Rightarrow> nat \<Rightarrow> nat \<Rightarrow> bytes res" where
  "read_psk d off payloadEnd =
     (if off < payloadEnd
      then bindR (u8_at d off) (\<lambda>present.
           if present = 1
           then guardR (off + 1 + 1 > payloadEnd) ErrInvalidMessage (
                bindR (u8_at d (off + 1)) (\<lambda>n.
                let idLen = unat n in
                guardR (idLen = 0 \<or> off + 2 + idLen > payloadEnd) ErrInvalidMessage (
                slice_at d (off + 2) idLen)))
           else Inr [])
      else Inr [])"

text \<open>The fields after the session id, from the KEM suite on.\<close>

definition DecodeClientHello_rest ::
  "bytes \<Rightarrow> nat \<Rightarrow> version \<Rightarrow> bytes \<Rightarrow> bytes \<Rightarrow> nat \<Rightarrow> client_hello res" where
  "DecodeClientHello_rest d payloadEnd ver rnd sid off =
     guardR (off + 3 > payloadEnd) ErrInvalidMessage (
     bindR (u16_at d off) (\<lambda>suite.
     bindR (u8_at d (off + 2)) (\<lambda>cnt.
     let kemSuiteCount = unat cnt; off = off + 3 in
     guardR (off + 2 * kemSuiteCount > payloadEnd) ErrInvalidMessage (
     bindR (read_u16s kemSuiteCount d off) (\<lambda>suites.
     bindR (readLenPrefixed d (off + 2 * kemSuiteCount) payloadEnd) (\<lambda>(pk, off).
     guardR (off + 2 > payloadEnd) ErrInvalidMessage (
     bindR (be_at 2 d off) (\<lambda>cipherSuiteCount.
     let off = off + 2 in
     guardR (off + 2 * cipherSuiteCount > payloadEnd) ErrInvalidMessage (
     bindR (read_u16s cipherSuiteCount d off) (\<lambda>css.
     bindR (read_static d (off + 2 * cipherSuiteCount) payloadEnd) (\<lambda>(ct, off).
     bindR (read_psk d off payloadEnd) (\<lambda>psk.
     let m = \<lparr>ch_Version = ver, ch_Random = rnd, ch_SessionID = sid, ch_KEMSuite = suite,
              ch_KEMSuites = suites, ch_CHKEMPublicKey = pk, ch_CipherSuites = css,
              ch_CHKEMStaticCiphertext = ct, ch_PSKIdentity = psk\<rparr>
     in validated (client_hello_Validate m) (Inr m)))))))))))))"

definition DecodeClientHello :: "bytes \<Rightarrow> client_hello res" where
  "DecodeClientHello d =
     bindR (hello_payloadEnd MessageTypeClientHello (2 + 32 + 1 + 2 + 1 + 2 + 2 + 2) d) (\<lambda>payloadEnd.
     bindR (u8_at d HeaderSize) (\<lambda>maj.
     bindR (u8_at d (HeaderSize + 1)) (\<lambda>mnr.
     bindR (slice_at d (HeaderSize + 2) 32) (\<lambda>rnd.
     bindR (read_session_id d (HeaderSize + 34)) (\<lambda>(sid, off).
     DecodeClientHello_rest d payloadEnd \<lparr>Major = maj, Minor = mnr\<rparr> rnd sid off)))))"

definition DecodeServerHello_rest ::
  "bytes \<Rightarrow> nat \<Rightarrow> version \<Rightarrow> bytes \<Rightarrow> bytes \<Rightarrow> nat \<Rightarrow> server_hello res" where
  "DecodeServerHello_rest d payloadEnd ver rnd sid off =
     guardR (off + 2 > payloadEnd) ErrInvalidMessage (
     bindR (u16_at d off) (\<lambda>suite.
     bindR (readLenPrefixed d (off + 2) payloadEnd) (\<lambda>(ct, off).
     guardR (off + 2 > payloadEnd) ErrInvalidMessage (
     bindR (u16_at d off) (\<lambda>cs.
     let m = \<lparr>sh_Version = ver, sh_Random = rnd, sh_SessionID = sid, sh_KEMSuite = suite,
              sh_CHKEMCiphertext = ct, sh_CipherSuite = cs\<rparr>
     in validated (server_hello_Validate m) (Inr m))))))"

definition DecodeServerHello :: "bytes \<Rightarrow> server_hello res" where
  "DecodeServerHello d =
     bindR (hello_payloadEnd MessageTypeServerHello (2 + 32 + 1 + 2 + 2 + 2) d) (\<lambda>payloadEnd.
     bindR (u8_at d HeaderSize) (\<lambda>maj.
     bindR (u8_at d (HeaderSize + 1)) (\<lambda>mnr.
     bindR (slice_at d (HeaderSize + 2) 32) (\<lambda>rnd.
     bindR (read_session_id d (HeaderSize + 34)) (\<lambda>(sid, off).
     DecodeServerHello_rest d payloadEnd \<lparr>Major = maj, Minor = mnr\<rparr> rnd sid off)))))"

definition DecodeHelloRetryRequest :: "bytes \<Rightarrow> hello_retry_request res" where
  "DecodeHelloRetryRequest d =
     guardR (length d < HeaderSize + 4) ErrInvalidMessage (
     bindR (u8_at d 0) (\<lambda>t.
     guardR (t \<noteq> MessageTypeHelloRetryRequest) ErrInvalidMessage (
     bindR (u8_at d HeaderSize) (\<lambda>maj.
     bindR (u8_at d (HeaderSize + 1)) (\<lambda>mnr.
     bindR (u16_at d (HeaderSize + 2)) (\<lambda>suite.
     Inr \<lparr>hrr_Version = \<lparr>Major = maj, Minor = mnr\<rparr>, hrr_KEMSuite = suite\<rparr>))))))"

definition DecodeFinished :: "bytes \<Rightarrow> bytes res" where
  "DecodeFinished d =
     guardR (length d < HeaderSize + 32) ErrInvalidMessage (
     bindR (u8_at d 0) (\<lambda>t.
     guardR (t \<noteq> MessageTypeClientFinished \<and> t \<noteq> MessageTypeServerFinished) ErrInvalidMessage (
     slice_at d HeaderSize 32)))"

text \<open>A sequence number and the rest of the message: the common body of data and rekey records.\<close>

definition decode_record :: "byte \<Rightarrow> bytes \<Rightarrow> (u64 \<times> bytes) res" where
  "decode_record ty d =
     guardR (length d < HeaderSize + 8) ErrInvalidMessage (
     bindR (u8_at d 0) (\<lambda>t.
     guardR (t \<noteq> ty) ErrInvalidMessage (
     bindR (u64_at d HeaderSize) (\<lambda>s.
     bindR (slice_at d (HeaderSize + 8) (length d - (HeaderSize + 8))) (\<lambda>payload.
     Inr (s, payload))))))"

definition DecodeData :: "bytes \<Rightarrow> (u64 \<times> bytes) res" where
  "DecodeData d = decode_record MessageTypeData d"

definition DecodeRekey :: "bytes \<Rightarrow> (u64 \<times> bytes) res" where
  "DecodeRekey d = decode_record MessageTypeRekey d"

definition DecodeAlert :: "bytes \<Rightarrow> alert_message res" where
  "DecodeAlert d =
     guardR (length d < HeaderSize + 3) ErrInvalidMessage (
     bindR (u8_at d 0) (\<lambda>t.
     guardR (t \<noteq> MessageTypeAlert) ErrInvalidMessage (
     bindR (u8_at d HeaderSize) (\<lambda>level.
     bindR (u8_at d (HeaderSize + 1)) (\<lambda>code.
     bindR (u8_at d (HeaderSize + 2)) (\<lambda>n.
     let descLen = unat n in
     guardR (length d < HeaderSize + 3 + descLen) ErrInvalidMessage (
     bindR (slice_at d (HeaderSize + 3) descLen) (\<lambda>description.
     Inr \<lparr>al_Level = level, al_Code = code, al_Description = description\<rparr>))))))))"

definition DecodeRekeyPayload :: "bytes \<Rightarrow> (bytes \<times> u64) res" where
  "DecodeRekeyPayload d =
     guardR (length d < 2) ErrInvalidMessage (
     bindR (be_at 2 d 0) (\<lambda>n.
     guardR (length d < 2 + n + 8) ErrInvalidMessage (
     bindR (slice_at d 2 n) (\<lambda>newPublicKey.
     bindR (u64_at d (2 + n)) (\<lambda>activationSeq.
     Inr (newPublicKey, activationSeq))))))"

text \<open>
  Reading from an \<open>io.Reader\<close>: the reader is the list of bytes it still has to deliver before the
  end of the stream.  \<open>ReadFull\<close> returns \<open>io.EOF\<close> when nothing was read and
  \<open>io.ErrUnexpectedEOF\<close> after a partial read.
\<close>

definition ReadFull :: "bytes \<Rightarrow> nat \<Rightarrow> bytes res \<times> bytes" where
  "ReadFull r n =
     (if n \<le> length r then (Inr (take n r), drop n r)
      else (failR (if r = [] then ErrEOF else ErrUnexpectedEOF), []))"

definition ReadMessage :: "bytes \<Rightarrow> bytes res \<times> bytes" where
  "ReadMessage r =
     (case ReadFull r HeaderSize of
        (Inl e, r) \<Rightarrow> (Inl e, r)
      | (Inr hdr, r) \<Rightarrow>
        (let payloadLen = be_nat (take 4 (drop 1 hdr)) in
         if payloadLen > MaxMessageSize then (failR ErrMessageTooLarge, r)
         else if payloadLen > 0 then
           (case ReadFull r payloadLen of
              (Inl e, r) \<Rightarrow> (Inl e, r)
            | (Inr body, r) \<Rightarrow> (Inr (hdr @ body), r))
         else (Inr hdr, r)))"

text \<open>\<open>ReadMessageInto\<close> also returns the buffer: the caller's, or a fresh one if it is too small.\<close>

definition ReadMessageInto :: "bytes \<Rightarrow> bytes \<Rightarrow> bytes res \<times> bytes \<times> bytes" where
  "ReadMessageInto r buf =
     (case ReadFull r HeaderSize of
        (Inl e, r) \<Rightarrow> (Inl e, r, buf)
      | (Inr hdr, r) \<Rightarrow>
        (let payloadLen = be_nat (take 4 (drop 1 hdr)) in
         if payloadLen > MaxMessageSize then (failR ErrMessageTooLarge, r, buf)
         else
           (let total = HeaderSize + payloadLen;
                buf = (if length buf < total then replicate total 0 else buf);
                buf = hdr @ drop HeaderSize buf in
            if payloadLen > 0 then
              (case ReadFull r payloadLen of
                 (Inl e, r') \<Rightarrow> (Inl e, r', hdr @ r @ drop (HeaderSize + length r) buf)
               | (Inr body, r) \<Rightarrow>
                   (let buf = take HeaderSize buf @ body @ drop total buf in (Inr (take total buf), r, buf)))
            else (Inr (take total buf), r, buf))))"

definition GetMessageType :: "bytes \<Rightarrow> byte res" where
  "GetMessageType d = guardR (length d < 1) ErrInvalidMessage (u8_at d 0)"

section \<open>Field lemmas\<close>

lemma version_eta [simp]: "\<lparr>Major = Major v, Minor = Minor v\<rparr> = (v :: version)"
  by (cases v) simp

lemma validated_simps [simp]:
  "validated None k = k" "validated (Some e) k = Inl (Err e)"
  by (simp_all add: validated_def failR_def)

lemma validated_iff [result_simps]:
  "validated e k = Inr y \<longleftrightarrow> e = None \<and> k = Inr y"
  "validated e k = Inl Panic \<longleftrightarrow> e = None \<and> k = Inl Panic"
  by (cases e; simp)+

lemma be_at_iff [result_simps]:
  "be_at n d i = Inr v \<longleftrightarrow> i + n \<le> length d \<and> v = be_nat (take n (drop i d))"
  "be_at n d i = Inl Panic \<longleftrightarrow> length d < i + n"
  by (auto simp: be_at_def)

lemma read_be:
  assumes "drop i d = be_bytes n v @ r" "v < 256 ^ n" "i \<le> length d"
  shows "be_at n d i = Inr v"
  using read_slice [of i d "be_bytes n v" r n] assms
  by (auto simp: slice_at_iff be_at_iff be_nat_be_bytes)

lemma length_header [simp]: "length (header ty n) = 5"
  by (simp add: header_def)

lemma length_put_u16s [simp]: "length (put_u16s xs) = 2 * length xs"
  by (induction xs) (auto simp: put_u16s_def)

lemma length_put_static [simp]: "length (put_static ct) = 1 + optionalLenPrefixedSize ct"
  by (simp add: put_static_def optionalLenPrefixedSize_def)

lemma length_put_psk [simp]: "length (put_psk idn) = 1 + pskIdentityFieldLen idn"
  by (simp add: put_psk_def pskIdentityFieldLen_def)

lemma unat_byte_len: "n \<le> 255 \<Longrightarrow> unat (word_of_nat n :: byte) = n"
  by (simp add: unat_byte_of_nat)

lemma read_u16s_put: "drop off d = put_u16s xs @ r \<Longrightarrow> read_u16s (length xs) d off = Inr xs"
proof (induction xs arbitrary: off)
  case (Cons x xs)
  then have d: "drop off d = put_u16 x @ put_u16s xs @ r"
    by (simp add: put_u16s_def)
  show ?case
    using Cons.IH [OF drop_step [OF d]] read_at(1) [OF d] by simp
qed simp

lemma readLenPrefixed_put:
  assumes "drop off d = be_bytes 2 (length s) @ s @ r" "length s < 65536"
    "off + 2 + length s \<le> payloadEnd" "payloadEnd \<le> length d"
  shows "readLenPrefixed d off payloadEnd = Inr (s, off + 2 + length s)"
proof -
  have d: "drop (off + 2) d = s @ r"
    using assms(1) by (rule drop_step) simp
  show ?thesis
    using read_be [OF assms(1)] read_slice [OF d refl] assms(2-) by (simp add: readLenPrefixed_def)
qed

lemma read_static_put:
  assumes "drop off d = put_static ct @ r" "length ct < 65536"
    "off + length (put_static ct) \<le> payloadEnd" "payloadEnd \<le> length d"
  shows "read_static d off payloadEnd = Inr (ct, off + length (put_static ct))"
proof (cases "ct = []")
  case True
  then show ?thesis
    using assms read_byte [of off d 0 r]
    by (simp add: read_static_def put_static_def optionalLenPrefixedSize_def)
next
  case False
  then have d: "drop off d = 1 # be_bytes 2 (length ct) @ ct @ r"
    using assms(1) by (simp add: put_static_def)
  have l: "off + 1 + 2 + length ct \<le> payloadEnd"
    using assms(3) False by (simp add: optionalLenPrefixedSize_def)
  have "drop (off + 1) d = be_bytes 2 (length ct) @ ct @ r"
    using drop_step1 [OF d] by simp
  then have "readLenPrefixed d (off + 1) payloadEnd = Inr (ct, off + 1 + 2 + length ct)"
    using assms(2) l assms(4) by (rule readLenPrefixed_put)
  then show ?thesis
    using l False read_byte [OF d] by (simp add: read_static_def optionalLenPrefixedSize_def)
qed

lemma read_psk_put:
  assumes "drop off d = put_psk idn" "length idn \<le> 255"
    "payloadEnd = off + length (put_psk idn)" "payloadEnd \<le> length d"
  shows "read_psk d off payloadEnd = Inr idn"
proof (cases "idn = []")
  case True
  then show ?thesis
    using assms read_byte [of off d 0 "[]"] by (simp add: read_psk_def put_psk_def pskIdentityFieldLen_def)
next
  case False
  then have d: "drop off d = 1 # word_of_nat (length idn) # idn"
    using assms(1) by (simp add: put_psk_def)
  have d1: "drop (Suc off) d = word_of_nat (length idn) # idn"
    using d by (rule drop_step1)
  have d2: "drop (off + 2) d = idn @ []"
    using drop_step1 [OF d1] by simp
  have l: "payloadEnd = off + 2 + length idn"
    using assms(3) False by (simp add: pskIdentityFieldLen_def)
  have "slice_at d (off + 2) (length idn) = (Inr idn :: bytes res)"
    using d2 refl by (rule read_slice) (use l assms(4) in linarith)
  moreover have "u8_at d (off + 1) = Inr (word_of_nat (length idn))"
    using read_byte [OF d1] by simp
  ultimately show ?thesis
    unfolding read_psk_def read_byte [OF d] bindR_simps Let_def l
    using assms(2) False by (simp add: unat_byte_len)
qed

lemma readLenPrefixed_bounds:
  "readLenPrefixed d off pe = Inr (s, off') \<Longrightarrow> off \<le> off' \<and> off' \<le> pe"
  by (auto simp: readLenPrefixed_def result_simps)

text \<open>No guarded read of a decoder panics when the payload end lies in the buffer.\<close>

lemma readLenPrefixed_no_panic: "pe \<le> length d \<Longrightarrow> readLenPrefixed d off pe \<noteq> Inl Panic"
  by (auto simp: readLenPrefixed_def result_simps)

lemma read_u16s_no_panic: "off + 2 * n \<le> length d \<Longrightarrow> read_u16s n d off \<noteq> Inl Panic"
  by (induction n arbitrary: off) (auto simp: result_simps)

lemma read_static_no_panic: "pe \<le> length d \<Longrightarrow> read_static d off pe \<noteq> Inl Panic"
  by (auto simp: read_static_def result_simps readLenPrefixed_no_panic)

lemma read_psk_no_panic: "pe \<le> length d \<Longrightarrow> read_psk d off pe \<noteq> Inl Panic"
  by (auto simp: read_psk_def result_simps Let_def)

lemmas no_panic = readLenPrefixed_no_panic read_u16s_no_panic read_static_no_panic read_psk_no_panic

lemma hello_payloadEnd_iff [result_simps]:
  "hello_payloadEnd ty k d = Inl Panic \<longleftrightarrow> False"
  "hello_payloadEnd ty k d = Inr pe \<longleftrightarrow>
     HeaderSize \<le> length d \<and> d ! 0 = ty \<and> pe = HeaderSize + be_nat (take 4 (drop 1 d)) \<and>
     pe \<le> length d \<and> HeaderSize + k \<le> pe"
  by (auto simp: hello_payloadEnd_def result_simps HeaderSize_def)

lemma read_session_id_iff [result_simps]:
  "read_session_id d off = Inl Panic \<longleftrightarrow>
     length d \<le> off \<or> 0 < unat (d ! off) \<and> length d < off + 1 + unat (d ! off)"
  by (auto simp: read_session_id_def result_simps Let_def)

lemma DecodeClientHello_rest_no_panic:
  "pe \<le> length d \<Longrightarrow> DecodeClientHello_rest d pe ver rnd sid off \<noteq> Inl Panic"
  by (auto simp: DecodeClientHello_rest_def result_simps Let_def no_panic split: prod.splits)

lemma DecodeServerHello_rest_no_panic:
  "pe \<le> length d \<Longrightarrow> DecodeServerHello_rest d pe ver rnd sid off \<noteq> Inl Panic"
  by (auto simp: DecodeServerHello_rest_def result_simps Let_def no_panic split: prod.splits)

section \<open>Hello messages\<close>

lemma be_nat_header:
  "n < 2 ^ 32 \<Longrightarrow> be_nat (take 4 (drop 1 (header ty n @ r))) = n"
  by (simp add: header_def be_nat_be_bytes)

lemma hello_payloadEnd_header:
  "\<lbrakk>n < 2 ^ 32; length r = n; k \<le> n\<rbrakk> \<Longrightarrow> hello_payloadEnd ty k (header ty n @ r) = Inr (5 + n)"
  unfolding hello_payloadEnd_iff
  by (subst be_nat_header) (simp_all add: HeaderSize_def header_def)

lemma read_session_id_put:
  assumes "drop off d = [word_of_nat (length s)] @ s @ r" "length s \<le> 255" "off < length d"
  shows "read_session_id d off = Inr (s, off + 1 + length s)"
proof -
  have d1: "drop (off + 1) d = s @ r"
    using assms(1) by (rule drop_step) simp
  have "slice_at d (off + 1) (length s) = Inr s"
    using d1 refl by (rule read_slice) (use assms(3) in simp)
  moreover have "u8_at d off = Inr (word_of_nat (length s))"
    using assms(1) by (intro read_byte) simp
  ultimately show ?thesis
    using assms(2) by (simp add: read_session_id_def unat_byte_len Let_def)
qed

text \<open>
  The fixed part of a hello and its session id, read back: what both decoders do before they
  reach the fields that differ.
\<close>

lemma hello_prefix:
  assumes "d = header ty n @ [a, b] @ rnd @ [word_of_nat (length sid)] @ sid @ tl0"
    and "length rnd = 32" "length sid \<le> 255" "n = 35 + length sid + length tl0" "n < 2 ^ 32" "k \<le> n"
  shows "hello_payloadEnd ty k d = Inr (length d)" "u8_at d HeaderSize = Inr a"
    "u8_at d (HeaderSize + 1) = Inr b" "slice_at d (HeaderSize + 2) 32 = Inr rnd"
    "read_session_id d (HeaderSize + 34) = Inr (sid, 40 + length sid)"
    "drop (40 + length sid) d = tl0" "length d = 40 + length sid + length tl0"
proof -
  show len: "length d = 40 + length sid + length tl0"
    using assms by simp
  show "hello_payloadEnd ty k d = Inr (length d)"
    using hello_payloadEnd_header [of n "[a, b] @ rnd @ [word_of_nat (length sid)] @ sid @ tl0" k ty]
      assms len by simp
  have d5: "drop 5 d = [a] @ [b] @ rnd @ [word_of_nat (length sid)] @ sid @ tl0"
    using assms(1) by simp
  have d6: "drop 6 d = [b] @ rnd @ [word_of_nat (length sid)] @ sid @ tl0"
    using d5 by (rule drop_step) simp
  have d7: "drop 7 d = rnd @ [word_of_nat (length sid)] @ sid @ tl0"
    using d6 by (rule drop_step) simp
  have d39: "drop 39 d = [word_of_nat (length sid)] @ sid @ tl0"
    using d7 by (rule drop_step) (simp add: assms(2))
  show "u8_at d HeaderSize = Inr a" "u8_at d (HeaderSize + 1) = Inr b"
    using read_byte [of 5 d a] read_byte [of 6 d b] d5 d6 by (simp_all add: HeaderSize_def)
  show "slice_at d (HeaderSize + 2) 32 = Inr rnd"
    using read_slice [OF d7, of 32] assms(2) len by (simp add: HeaderSize_def)
  show "read_session_id d (HeaderSize + 34) = Inr (sid, 40 + length sid)"
    using read_session_id_put [OF d39 assms(3)] len by (simp add: HeaderSize_def)
  have d40: "drop 40 d = sid @ tl0"
    using d39 by (rule drop_step) simp
  then show "drop (40 + length sid) d = tl0"
    by (rule drop_step) simp
qed

lemma server_hello_rest:
  assumes "drop off d = put_u16 (sh_KEMSuite m) @ be_bytes 2 (length (sh_CHKEMCiphertext m))
      @ sh_CHKEMCiphertext m @ put_u16 (sh_CipherSuite m)"
    and "length (sh_CHKEMCiphertext m) < 65536" "server_hello_Validate m = None"
    and "length d = off + 6 + length (sh_CHKEMCiphertext m)"
  shows "DecodeServerHello_rest d (length d) (sh_Version m) (sh_Random m) (sh_SessionID m) off = Inr m"
proof -
  have d2: "drop (off + 2) d = be_bytes 2 (length (sh_CHKEMCiphertext m))
      @ sh_CHKEMCiphertext m @ put_u16 (sh_CipherSuite m)"
    using assms(1) by (rule drop_step) simp
  have r: "readLenPrefixed d (off + 2) (length d)
      = Inr (sh_CHKEMCiphertext m, off + 2 + 2 + length (sh_CHKEMCiphertext m))"
    using d2 assms(2) by (rule readLenPrefixed_put) (use assms(4) in auto)
  have "drop (off + 2 + 2) d = sh_CHKEMCiphertext m @ put_u16 (sh_CipherSuite m)"
    using d2 by (rule drop_step) simp
  then have "drop (off + 2 + 2 + length (sh_CHKEMCiphertext m)) d = put_u16 (sh_CipherSuite m) @ []"
    using drop_step by fastforce
  note s = read_at(1) [OF this]
  show ?thesis
    unfolding DecodeServerHello_rest_def read_at(1) [OF assms(1)] r bindR_simps prod.case s
    using assms(3,4) by (cases m) (simp add: Let_def)
qed

lemma client_hello_rest:
  assumes "drop off d = put_u16 (ch_KEMSuite m) @ [word_of_nat (length (ch_KEMSuites m))]
      @ put_u16s (ch_KEMSuites m) @ be_bytes 2 (length (ch_CHKEMPublicKey m)) @ ch_CHKEMPublicKey m
      @ be_bytes 2 (length (ch_CipherSuites m)) @ put_u16s (ch_CipherSuites m)
      @ put_static (ch_CHKEMStaticCiphertext m) @ put_psk (ch_PSKIdentity m)" (is "_ = ?tl")
    and "length (ch_KEMSuites m) \<le> 255" "length (ch_CHKEMPublicKey m) < 65536"
      "length (ch_CipherSuites m) < 65536" "length (ch_CHKEMStaticCiphertext m) < 65536"
    and v: "client_hello_Validate m = None" and off: "off \<le> length d"
  shows "DecodeClientHello_rest d (length d) (ch_Version m) (ch_Random m) (ch_SessionID m) off = Inr m"
proof -
  let ?ks = "ch_KEMSuites m" and ?pk = "ch_CHKEMPublicKey m" and ?cs = "ch_CipherSuites m"
    and ?st = "ch_CHKEMStaticCiphertext m" and ?id = "ch_PSKIdentity m"
  define o3 where "o3 = off + 3 + 2 * length ?ks"
  define o4 where "o4 = o3 + 2 + length ?pk"
  define o5 where "o5 = o4 + 2 + 2 * length ?cs"
  note od = o3_def o4_def o5_def
  have l: "length d = o5 + length (put_static ?st) + length (put_psk ?id)"
    using arg_cong [OF assms(1), of length] off by (simp add: od)
  have d1: "drop (off + 2) d = [word_of_nat (length ?ks)] @ drop 3 ?tl"
    using drop_step [OF assms(1)] by simp
  have d2: "drop (off + 3) d = put_u16s ?ks @ drop (3 + 2 * length ?ks) ?tl"
    using drop_step [OF d1, of "off + 3"] by simp
  have d3: "drop o3 d = be_bytes 2 (length ?pk) @ ?pk @ be_bytes 2 (length ?cs) @ put_u16s ?cs
      @ put_static ?st @ put_psk ?id"
    using drop_step [OF d2, of o3] by (simp add: od)
  have d3': "drop (o3 + 2) d = ?pk @ be_bytes 2 (length ?cs) @ put_u16s ?cs @ put_static ?st @ put_psk ?id"
    using drop_step [OF d3, of "o3 + 2"] by simp
  have d4: "drop o4 d = be_bytes 2 (length ?cs) @ put_u16s ?cs @ put_static ?st @ put_psk ?id"
    using drop_step [OF d3', of o4] by (simp add: od)
  have d4': "drop (o4 + 2) d = put_u16s ?cs @ put_static ?st @ put_psk ?id"
    using drop_step [OF d4, of "o4 + 2"] by simp
  have d5: "drop o5 d = put_static ?st @ put_psk ?id"
    using drop_step [OF d4', of o5] by (simp add: od)
  have d6: "drop (o5 + length (put_static ?st)) d = put_psk ?id"
    using drop_step [OF d5 refl] .
  have r1: "u8_at d (off + 2) = Inr (word_of_nat (length ?ks))"
    using d1 by (intro read_byte) simp
  have r3: "readLenPrefixed d o3 (length d) = Inr (?pk, o4)"
    unfolding o4_def using d3 assms(3) by (rule readLenPrefixed_put) (use l in \<open>simp_all add: od\<close>)
  have r4: "be_at 2 d o4 = Inr (length ?cs)"
    using d4 by (rule read_be) (use assms(4) l in \<open>simp_all add: od\<close>)
  have r5: "read_static d o5 (length d) = Inr (?st, o5 + length (put_static ?st))"
    using d5 assms(5) by (rule read_static_put) (use l in simp_all)
  have "length ?id \<le> 255"
    using v by (auto simp: client_hello_Validate_def MaxPSKIdentitySize_def split: if_splits)
  with d6 have r6: "read_psk d (o5 + length (put_static ?st)) (length d) = Inr ?id"
    by (rule read_psk_put) (use l in simp_all)
  show ?thesis
    unfolding DecodeClientHello_rest_def read_at(1) [OF assms(1)] r1 bindR_simps Let_def
      unat_byte_len [OF assms(2)] read_u16s_put [OF d2] prod.case r3 r4 r5 r6
      read_u16s_put [OF d4'] o3_def [symmetric] o5_def [symmetric]
    using v l by (cases m) (simp add: od)
qed

section \<open>Framing\<close>

text \<open>A frame is a header and exactly the payload it declares, within the message size limit.\<close>

definition wf_frame :: "bytes \<Rightarrow> bool" where
  "wf_frame f \<longleftrightarrow> HeaderSize \<le> length f \<and> length f \<le> HeaderSize + MaxMessageSize \<and>
     be_nat (take 4 (drop 1 f)) = length f - HeaderSize"

text \<open>Receiving a number of messages from a stream, each decoded by \<open>dec\<close>.\<close>

primrec receive_n :: "(bytes \<Rightarrow> 'm res) \<Rightarrow> nat \<Rightarrow> bytes \<Rightarrow> 'm list res \<times> bytes" where
  "receive_n dec 0 r = (Inr [], r)"
| "receive_n dec (Suc n) r =
    (case ReadMessage r of
       (Inl e, r) \<Rightarrow> (Inl e, r)
     | (Inr f, r) \<Rightarrow>
         (case dec f of
            Inl e \<Rightarrow> (Inl e, r)
          | Inr m \<Rightarrow>
              (case receive_n dec n r of
                 (Inl e, r) \<Rightarrow> (Inl e, r)
               | (Inr ms, r) \<Rightarrow> (Inr (m # ms), r))))"

lemma wf_frame_header:
  "n \<le> MaxMessageSize \<Longrightarrow> length body = n \<Longrightarrow> wf_frame (header ty n @ body)"
  using be_nat_header [of n ty body] by (simp add: wf_frame_def HeaderSize_def MaxMessageSize_def)

lemma ReadMessage_frame: "wf_frame f \<Longrightarrow> ReadMessage (f @ r) = (Inr f, r)"
  by (auto simp: ReadMessage_def ReadFull_def wf_frame_def HeaderSize_def Let_def drop_take
      min_def numeral_eq_Suc take_Cons' split: prod.splits sum.splits)

lemma ReadMessage_wf: "ReadMessage r = (Inr f, r') \<Longrightarrow> wf_frame f \<and> r = f @ r'"
  by (auto simp: ReadMessage_def ReadFull_def wf_frame_def HeaderSize_def Let_def split_at_two
      split: prod.splits sum.splits if_splits)

text \<open>
  The contract of a message codec: decoding gives back what was encoded, and an encoding is one
  frame.  A receiver of a stream of encodings then gets the messages in order.
\<close>

locale message_codec =
  fixes enc :: "'m \<Rightarrow> bytes res" and dec :: "bytes \<Rightarrow> 'm res" and ok :: "'m \<Rightarrow> bool"
  assumes dec_enc: "ok m \<Longrightarrow> enc m = Inr d \<Longrightarrow> dec d = Inr m"
    and enc_frame: "ok m \<Longrightarrow> enc m = Inr d \<Longrightarrow> wf_frame d"
begin

lemma stream:
  "list_all ok ms \<Longrightarrow> map enc ms = map Inr ds \<Longrightarrow>
     receive_n dec (length ms) (concat ds @ r) = (Inr ms, r)"
proof (induction ms arbitrary: ds)
  case (Cons m ms)
  then obtain d ds' where ds: "ds = d # ds'" "enc m = Inr d" "map enc ms = map Inr ds'"
    by (cases ds) auto
  then have "ReadMessage (d @ concat ds' @ r) = (Inr d, concat ds' @ r)" "dec d = Inr m"
    using Cons.prems by (auto intro: ReadMessage_frame enc_frame dec_enc)
  then show ?case
    using Cons.IH [of ds'] Cons.prems ds by simp
qed simp

lemma enc_inject: "ok m \<Longrightarrow> ok m' \<Longrightarrow> enc m = Inr d \<Longrightarrow> enc m' = Inr d \<Longrightarrow> m = m'"
  using dec_enc by (metis sum.inject(2))

end

text \<open>Records with a sequence number.\<close>

lemma decode_record_put:
  assumes "d = header ty n @ put_u64 sq @ p"
  shows "decode_record ty d = Inr (sq, p)"
proof -
  have d5: "drop 5 d = put_u64 sq @ p"
    using assms by simp
  have "drop 13 d = p @ []"
    using drop_step [OF d5, of 13] by simp
  then have "slice_at d 13 (length d - 13) = Inr p"
    by (rule read_slice) (simp_all add: assms)
  then show ?thesis
    using read_at(3) [OF d5] assms
    by (simp add: decode_record_def HeaderSize_def u8_at_def header_def)
qed

definition data_ok :: "u64 \<times> bytes \<Rightarrow> bool" where
  "data_ok m \<longleftrightarrow> length (snd m) \<le> MaxPayloadSize"

definition finished_ok :: "byte \<Rightarrow> bool" where
  "finished_ok ty \<longleftrightarrow> ty = MessageTypeClientFinished \<or> ty = MessageTypeServerFinished"

interpretation data: message_codec "\<lambda>(sq, p). EncodeData sq p" DecodeData "\<lambda>_. True"
proof
  fix m d assume "(case m of (sq, p) \<Rightarrow> EncodeData sq p) = Inr d"
  then have d: "d = header MessageTypeData (8 + length (snd m)) @ put_u64 (fst m) @ snd m"
    "length (snd m) \<le> MaxPayloadSize"
    by (auto simp: EncodeData_def result_simps split: prod.splits)
  show "DecodeData d = Inr m"
    unfolding DecodeData_def by (subst decode_record_put [OF d(1)]) simp
  show "wf_frame d"
    unfolding d(1) by (rule wf_frame_header) (use d(2) in \<open>simp_all add: constant_defs\<close>)
qed

interpretation rekey_record: message_codec "\<lambda>(sq, c). EncodeRekey sq c" DecodeRekey data_ok
proof
  fix m d assume ok: "data_ok m" and e: "(case m of (sq, c) \<Rightarrow> EncodeRekey sq c) = Inr d"
  then have d: "d = header MessageTypeRekey (8 + length (snd m)) @ put_u64 (fst m) @ snd m"
    by (auto simp: EncodeRekey_def split: prod.splits)
  show "DecodeRekey d = Inr m"
    unfolding DecodeRekey_def by (subst decode_record_put [OF d]) simp
  show "wf_frame d"
    unfolding d by (rule wf_frame_header) (use ok in \<open>simp_all add: data_ok_def constant_defs\<close>)
qed

text \<open>Hello messages that fit their length fields and the message size limit.\<close>

definition client_hello_fits :: "client_hello \<Rightarrow> bool" where
  "client_hello_fits m \<longleftrightarrow> length (ch_KEMSuites m) \<le> 255 \<and> length (ch_CHKEMPublicKey m) < 65536 \<and>
     length (ch_CipherSuites m) < 65536 \<and> length (ch_CHKEMStaticCiphertext m) < 65536 \<and>
     client_hello_payloadSize m \<le> MaxMessageSize"

definition server_hello_fits :: "server_hello \<Rightarrow> bool" where
  "server_hello_fits m \<longleftrightarrow>
     41 + length (sh_SessionID m) + length (sh_CHKEMCiphertext m) \<le> MaxMessageSize"

lemma client_hello_valid:
  "client_hello_Validate m = None \<Longrightarrow> length (ch_Random m) = 32 \<and> length (ch_SessionID m) \<le> 255"
  by (auto simp: client_hello_Validate_def constant_defs split: if_splits)

lemma server_hello_valid:
  "server_hello_Validate m = None \<Longrightarrow> length (sh_Random m) = 32 \<and> length (sh_SessionID m) \<le> 255"
  by (auto simp: server_hello_Validate_def constant_defs split: if_splits)

lemma EncodeClientHello_payload:
  assumes "EncodeClientHello m = Inr d"
  shows "client_hello_Validate m = None"
    "length d = HeaderSize + client_hello_payloadSize m"
  using assms client_hello_valid [of m]
  by (auto simp: EncodeClientHello_def client_hello_payloadSize_def result_simps HeaderSize_def)

lemma client_hello_decode:
  assumes "EncodeClientHello m = Inr d" and fits: "client_hello_fits m"
  shows "DecodeClientHello d = Inr m"
proof -
  have v: "client_hello_Validate m = None"
    using assms(1) by (rule EncodeClientHello_payload)
  note b = fits [unfolded client_hello_fits_def MaxMessageSize_def]
  have d: "d = header MessageTypeClientHello (client_hello_payloadSize m)
     @ [Major (ch_Version m), Minor (ch_Version m)] @ ch_Random m
     @ [word_of_nat (length (ch_SessionID m))] @ ch_SessionID m
     @ put_u16 (ch_KEMSuite m) @ [word_of_nat (length (ch_KEMSuites m))] @ put_u16s (ch_KEMSuites m)
     @ be_bytes 2 (length (ch_CHKEMPublicKey m)) @ ch_CHKEMPublicKey m
     @ be_bytes 2 (length (ch_CipherSuites m)) @ put_u16s (ch_CipherSuites m)
     @ put_static (ch_CHKEMStaticCiphertext m) @ put_psk (ch_PSKIdentity m)"
    using assms(1) v by (simp add: EncodeClientHello_def)
  have k: "(2 + 32 + 1 + 2 + 1 + 2 + 2 + 2 :: nat) \<le> client_hello_payloadSize m"
    using v by (auto simp: client_hello_payloadSize_def client_hello_Validate_def Suc_le_eq
        split: if_splits)
  have r: "length (ch_Random m) = 32" "length (ch_SessionID m) \<le> 255"
    using client_hello_valid [OF v] by auto
  have "client_hello_payloadSize m < 2 ^ 32"
    using b by simp
  note pre = hello_prefix [OF d r _ this k]
  have "DecodeClientHello_rest d (length d) (ch_Version m) (ch_Random m) (ch_SessionID m)
      (40 + length (ch_SessionID m)) = Inr m"
    by (rule client_hello_rest) (use b v pre(6,7) in \<open>simp_all add: client_hello_payloadSize_def\<close>)
  then show ?thesis
    using pre(1-5) by (simp add: DecodeClientHello_def client_hello_payloadSize_def)
qed

lemma EncodeServerHello_payload:
  assumes "EncodeServerHello m = Inr d"
  shows "server_hello_Validate m = None"
    "d = header MessageTypeServerHello (41 + length (sh_SessionID m) + length (sh_CHKEMCiphertext m))
     @ [Major (sh_Version m), Minor (sh_Version m)] @ sh_Random m
     @ [word_of_nat (length (sh_SessionID m))] @ sh_SessionID m
     @ put_u16 (sh_KEMSuite m) @ be_bytes 2 (length (sh_CHKEMCiphertext m)) @ sh_CHKEMCiphertext m
     @ put_u16 (sh_CipherSuite m)"
  using assms by (auto simp: EncodeServerHello_def result_simps algebra_simps)

lemma server_hello_decode:
  assumes "EncodeServerHello m = Inr d" and fits: "server_hello_fits m"
  shows "DecodeServerHello d = Inr m"
proof -
  note e = EncodeServerHello_payload [OF assms(1)]
  have r: "length (sh_Random m) = 32" "length (sh_SessionID m) \<le> 255"
    using server_hello_valid [OF e(1)] by auto
  have b: "41 + length (sh_SessionID m) + length (sh_CHKEMCiphertext m) \<le> 65536"
    using fits by (simp add: server_hello_fits_def MaxMessageSize_def)
  then have n: "41 + length (sh_SessionID m) + length (sh_CHKEMCiphertext m) < 2 ^ 32"
    "2 + 32 + 1 + 2 + 2 + 2 \<le> 41 + length (sh_SessionID m) + length (sh_CHKEMCiphertext m)"
    by simp_all
  note pre = hello_prefix [OF e(2) r _ n]
  have "DecodeServerHello_rest d (length d) (sh_Version m) (sh_Random m) (sh_SessionID m)
      (40 + length (sh_SessionID m)) = Inr m"
    by (rule server_hello_rest) (use b e(1) pre(6,7) in simp_all)
  then show ?thesis
    using pre(1-5) by (simp add: DecodeServerHello_def)
qed

interpretation client_hello: message_codec EncodeClientHello DecodeClientHello client_hello_fits
proof
  fix m d assume a: "client_hello_fits m" "EncodeClientHello m = Inr d"
  show "DecodeClientHello d = Inr m"
    using a(2,1) by (rule client_hello_decode)
  have n: "client_hello_payloadSize m \<le> MaxMessageSize" "client_hello_Validate m = None"
    using a EncodeClientHello_payload by (auto simp: client_hello_fits_def)
  then show "wf_frame d"
    using a(2) client_hello_valid [of m] unfolding EncodeClientHello_def
    by (auto intro!: wf_frame_header simp: client_hello_payloadSize_def)
qed

interpretation server_hello: message_codec EncodeServerHello DecodeServerHello server_hello_fits
proof
  fix m d assume a: "server_hello_fits m" "EncodeServerHello m = Inr d"
  note e = EncodeServerHello_payload [OF a(2)]
  show "DecodeServerHello d = Inr m"
    using a(2,1) by (rule server_hello_decode)
  show "wf_frame d"
    unfolding e(2) using a(1) server_hello_valid [OF e(1)]
    by (intro wf_frame_header) (auto simp: server_hello_fits_def)
qed

text \<open>The short control messages.\<close>

interpretation hrr: message_codec EncodeHelloRetryRequest DecodeHelloRetryRequest "\<lambda>_. True"
proof
  fix m d assume "EncodeHelloRetryRequest m = Inr d"
  then have d: "d = header MessageTypeHelloRetryRequest 4
      @ [Major (hrr_Version m), Minor (hrr_Version m)] @ put_u16 (hrr_KEMSuite m)"
    by (simp add: EncodeHelloRetryRequest_def)
  have d7: "drop 7 d = put_u16 (hrr_KEMSuite m) @ []"
    by (simp add: d)
  have "d ! 5 = Major (hrr_Version m)" "d ! 6 = Minor (hrr_Version m)" "d ! 0 = MessageTypeHelloRetryRequest"
    by (simp_all add: d nth_append header_def)
  then show "DecodeHelloRetryRequest d = Inr m"
    using read_at(1) [OF d7] d
    by (cases m) (simp add: DecodeHelloRetryRequest_def u8_at_def HeaderSize_def)
  show "wf_frame d"
    unfolding d by (rule wf_frame_header) (simp_all add: MaxMessageSize_def)
qed

lemma DecodeFinished_put:
  assumes "finished_ok ty" "EncodeFinished ty v = Inr d"
  shows "DecodeFinished d = Inr v" "wf_frame d"
proof -
  have d: "d = header ty 32 @ v" "length v = 32"
    using assms(2) by (auto simp: EncodeFinished_def result_simps)
  then have "slice_at d HeaderSize 32 = Inr v" "d ! 0 = ty"
    by (simp_all add: slice_at_def HeaderSize_def header_def)
  then show "DecodeFinished d = Inr v"
    using assms(1) d by (simp add: DecodeFinished_def finished_ok_def guardR_def u8_at_def HeaderSize_def)
  show "wf_frame d"
    unfolding d(1) by (rule wf_frame_header) (use d(2) in \<open>simp_all add: MaxMessageSize_def\<close>)
qed

interpretation client_finished: message_codec "EncodeFinished MessageTypeClientFinished" DecodeFinished "\<lambda>_. True"
  by standard (auto intro: DecodeFinished_put simp: finished_ok_def)

interpretation server_finished: message_codec "EncodeFinished MessageTypeServerFinished" DecodeFinished "\<lambda>_. True"
  by standard (auto intro: DecodeFinished_put simp: finished_ok_def)

interpretation alert: message_codec
  "\<lambda>m. Inr (EncodeAlert (al_Level m) (al_Code m) (al_Description m))" DecodeAlert
  "\<lambda>m. length (al_Description m) \<le> 255"
proof
  fix m :: alert_message and d assume ok: "length (al_Description m) \<le> 255"
    and "Inr (EncodeAlert (al_Level m) (al_Code m) (al_Description m)) = (Inr d :: bytes res)"
  then have d: "d = header MessageTypeAlert (3 + length (al_Description m))
      @ [al_Level m, al_Code m, word_of_nat (length (al_Description m))] @ al_Description m"
    by (simp add: EncodeAlert_def Let_def numeral_3_eq_3)
  have n: "d ! 0 = MessageTypeAlert" "d ! 5 = al_Level m" "d ! 6 = al_Code m"
    "d ! 7 = word_of_nat (length (al_Description m))" "drop 8 d = al_Description m"
    by (simp_all add: d nth_append header_def)
  then show "DecodeAlert d = Inr m"
    using ok d by (cases m) (simp add: DecodeAlert_def u8_at_def HeaderSize_def slice_at_def
        unat_byte_len Let_def)
  show "wf_frame d"
    unfolding d by (rule wf_frame_header) (use ok in \<open>simp_all add: MaxMessageSize_def\<close>)
qed

section \<open>Properties\<close>

text \<open>
  C9: A ClientHello that the encoder accepts and that fits its length fields decodes back to the
  same message: every field, the optional static ciphertext and PSK identity included, survives
  the wire.
\<close>

theorem client_hello_roundtrip:
  assumes "EncodeClientHello m = Inr d" "client_hello_fits m"
  shows "DecodeClientHello d = Inr m"
  using assms by (rule client_hello_decode)

definition sample_client_hello :: client_hello where
  "sample_client_hello = \<lparr>ch_Version = Current, ch_Random = replicate 32 7, ch_SessionID = [1, 2, 3],
     ch_KEMSuite = 1, ch_KEMSuites = [1, 2], ch_CHKEMPublicKey = [9, 8], ch_CipherSuites = [2, 1],
     ch_CHKEMStaticCiphertext = [5], ch_PSKIdentity = [65, 66]\<rparr>"

lemma sample_client_hello_ok:
  "client_hello_Validate sample_client_hello = None" "client_hello_fits sample_client_hello"
  by (simp_all add: sample_client_hello_def client_hello_Validate_def client_hello_fits_def
      IsCompatible_def Current_def IsSupported_def constant_defs client_hello_payloadSize_def
      optionalLenPrefixedSize_def pskIdentityFieldLen_def)

theorem client_hello_roundtrip_witness:
  "\<exists>d. EncodeClientHello sample_client_hello = Inr d \<and> client_hello_fits sample_client_hello \<and>
     DecodeClientHello d = Inr sample_client_hello"
proof -
  obtain d where d: "EncodeClientHello sample_client_hello = Inr d"
    by (simp add: EncodeClientHello_def sample_client_hello_ok)
  then show ?thesis
    using client_hello_roundtrip [OF d sample_client_hello_ok(2)] sample_client_hello_ok by blast
qed

text \<open>
  A ServerHello that the encoder accepts and that fits the message size decodes back to the
  same message.
\<close>

theorem server_hello_roundtrip:
  assumes "EncodeServerHello m = Inr d" "server_hello_fits m"
  shows "DecodeServerHello d = Inr m"
  using assms by (rule server_hello_decode)

definition sample_server_hello :: server_hello where
  "sample_server_hello = \<lparr>sh_Version = Current, sh_Random = replicate 32 3, sh_SessionID = [4, 4],
     sh_KEMSuite = 1, sh_CHKEMCiphertext = [1, 2, 3], sh_CipherSuite = 1\<rparr>"

lemma sample_server_hello_ok:
  "server_hello_Validate sample_server_hello = None" "server_hello_fits sample_server_hello"
  by (simp_all add: sample_server_hello_def server_hello_Validate_def server_hello_fits_def
      IsCompatible_def Current_def IsSupported_def constant_defs)

theorem server_hello_roundtrip_witness:
  "\<exists>d. EncodeServerHello sample_server_hello = Inr d \<and> server_hello_fits sample_server_hello \<and>
     DecodeServerHello d = Inr sample_server_hello"
proof -
  obtain d where d: "EncodeServerHello sample_server_hello = Inr d"
    by (simp add: EncodeServerHello_def sample_server_hello_ok)
  then show ?thesis
    using server_hello_roundtrip [OF d sample_server_hello_ok(2)] sample_server_hello_ok by blast
qed

text \<open>
  C10: The hello decoders panic exactly when the header is acceptable and the session-id length
  byte reaches past the end of the buffer: that length is the one field the decoders do not
  compare with the payload end.  On every other input they return a message or an error.
\<close>

theorem hello_decoders_panic_iff:
  "(DecodeClientHello d = Inl Panic \<longleftrightarrow>
     5 \<le> length d \<and> d ! 0 = MessageTypeClientHello \<and> 44 \<le> be_nat (take 4 (drop 1 d)) \<and>
     5 + be_nat (take 4 (drop 1 d)) \<le> length d \<and> length d < 40 + unat (d ! 39)) \<and>
   (DecodeServerHello d = Inl Panic \<longleftrightarrow>
     5 \<le> length d \<and> d ! 0 = MessageTypeServerHello \<and> 41 \<le> be_nat (take 4 (drop 1 d)) \<and>
     5 + be_nat (take 4 (drop 1 d)) \<le> length d \<and> length d < 40 + unat (d ! 39))"
  unfolding DecodeClientHello_def DecodeServerHello_def bindR_Panic_iff
  by (auto simp: result_simps HeaderSize_def split_beta
      DecodeClientHello_rest_no_panic DecodeServerHello_rest_no_panic)

text \<open>
  No other decoder of the stream protocol panics, whatever bytes it is given.
\<close>

lemma other_decoders_never_panic:
  "DecodeHelloRetryRequest d \<noteq> Inl Panic \<and> DecodeFinished d \<noteq> Inl Panic \<and> DecodeData d \<noteq> Inl Panic \<and>
   DecodeRekey d \<noteq> Inl Panic \<and> DecodeAlert d \<noteq> Inl Panic \<and> DecodeRekeyPayload d \<noteq> Inl Panic \<and>
   GetMessageType d \<noteq> Inl Panic"
  by (auto simp: DecodeHelloRetryRequest_def DecodeFinished_def DecodeData_def DecodeRekey_def
      decode_record_def DecodeAlert_def DecodeRekeyPayload_def GetMessageType_def result_simps
      HeaderSize_def Let_def)

text \<open>
  Data records written to a stream one after the other are received in order, each with its
  sequence number and payload, and whatever follows them is left unread.
\<close>

theorem data_stream_roundtrip:
  "map (\<lambda>(sq, p). EncodeData sq p) ms = map Inr ds \<Longrightarrow>
     receive_n DecodeData (length ms) (concat ds @ r) = (Inr ms, r)"
  by (rule data.stream) (auto simp: list_all_iff)

theorem data_stream_roundtrip_witness:
  "\<exists>ds. map (\<lambda>(sq, p). EncodeData sq p) [(0, [1, 2]), (1, [])] = map Inr ds \<and>
     receive_n DecodeData 2 (concat ds @ [7]) = (Inr [(0, [1, 2]), (1, [])], [7])"
proof -
  obtain d1 d2 where d: "EncodeData 0 [1, 2] = Inr d1" "EncodeData 1 [] = Inr d2"
    by (simp add: EncodeData_def MaxPayloadSize_def)
  then have "map (\<lambda>(sq, p). EncodeData sq p) [(0, [1, 2]), (1, [])] = map Inr [d1, d2]"
    by simp
  from data_stream_roundtrip [OF this, of "[7]"] this show ?thesis
    by (auto intro!: exI [of _ "[d1, d2]"] simp: numeral_2_eq_2)
qed

lemma ReadMessageInto_eq:
  "fst (ReadMessageInto r buf) = fst (ReadMessage r)"
  "fst (snd (ReadMessageInto r buf)) = snd (ReadMessage r)"
  by (auto simp: ReadMessageInto_def ReadMessage_def ReadFull_def HeaderSize_def Let_def
      split: prod.splits sum.splits)

text \<open>
  \<open>ReadMessage\<close> returns a message exactly when the stream starts with a whole frame of at most
  65536 payload bytes, and then consumes that frame and nothing else.  \<open>ReadMessageInto\<close>, which
  reuses the caller's buffer, gives the same result and consumes the same bytes.
\<close>

theorem ReadMessage_exact:
  "(ReadMessage r = (Inr f, r') \<longleftrightarrow> wf_frame f \<and> r = f @ r') \<and>
   fst (ReadMessageInto r buf) = fst (ReadMessage r) \<and>
   fst (snd (ReadMessageInto r buf)) = snd (ReadMessage r)"
  using ReadMessage_wf ReadMessage_frame ReadMessageInto_eq by blast

text \<open>
  C27: The rekey payload round-trips for every public key the encoder accepts except one length:
  a key of exactly 65536 bytes passes the encoder's check but its 16-bit length field wraps to 0,
  so the decoder returns an empty key and a sequence number taken from the key's first bytes.
\<close>

theorem rekey_payload_roundtrip:
  assumes "EncodeRekeyPayload pk sq = Inr d"
  shows "DecodeRekeyPayload d =
    Inr (if length pk = 65536 then ([], get_u64 pk) else (pk, sq))"
proof -
  have d: "d = be_bytes 2 (length pk) @ pk @ put_u64 sq" and b: "length pk \<le> 65536" "pk \<noteq> []"
    using assms by (auto simp: EncodeRekeyPayload_def result_simps MaxMessageSize_def)
  let ?n = "length pk mod 65536"
  have n: "be_at 2 d 0 = Inr ?n"
    by (simp add: be_at_def d be_nat_be_bytes)
  show ?thesis
  proof (cases "length pk = 65536")
    case True
    then have "u64_at d 2 = Inr (get_u64 pk)"
      unfolding u64_at_iff by (simp add: d get_u64_def)
    then show ?thesis
      using n True d by (simp add: DecodeRekeyPayload_def slice_at_def del: add_2_eq_Suc add_2_eq_Suc')
  next
    case False
    have "drop (2 + length pk) d = put_u64 sq @ []"
      by (simp add: d)
    from read_at(3) [OF this] False show ?thesis
      using n b d by (simp add: DecodeRekeyPayload_def slice_at_def)
  qed
qed

theorem rekey_payload_roundtrip_witness:
  "\<exists>pk d. length pk = 65536 \<and> EncodeRekeyPayload pk 5 = Inr d \<and>
     DecodeRekeyPayload d = Inr ([], get_u64 pk)"
proof -
  obtain pk :: bytes where pk: "length pk = 65536"
    using Ex_list_of_length by blast
  then obtain d where d: "EncodeRekeyPayload pk 5 = Inr d"
    by (auto simp: EncodeRekeyPayload_def MaxMessageSize_def guardR_def)
  show ?thesis
    using rekey_payload_roundtrip [OF d] pk d by auto
qed

end
