(* ===== verification/Datagram_Codec.thy ===== *)
theory Datagram_Codec
  imports Wire
begin

text \<open>
  The datagram wire format: pkg/protocol/datagram_codec.go and datagram_inplace.go.  The handshake
  header embeds the common header, so its record extends the common record.  Shown: frames parse
  back to the header and fragment they were built from, whatever padding follows; the parsers
  never panic and only return headers whose fragment lies inside the declared message.
\<close>

definition DatagramFrameHandshake :: byte where [constant_defs]: "DatagramFrameHandshake = 0x01"
definition DatagramFrameData :: byte where [constant_defs]: "DatagramFrameData = 0x02"
definition DatagramFrameClose :: byte where [constant_defs]: "DatagramFrameClose = 0x03"
definition DatagramFrameRetry :: byte where [constant_defs]: "DatagramFrameRetry = 0x04"

definition DatagramHeaderSize :: nat where
  [constant_defs]: "DatagramHeaderSize = 1 + 1 + 4 + 8"
definition DatagramHandshakeExtSize :: nat where
  [constant_defs]: "DatagramHandshakeExtSize = 4 + 1 + 2 + 2 + 2 + 1"

record datagram_header =
  dh_Type :: byte
  dh_Epoch :: byte
  dh_RecvIndex :: u32
  dh_Seq :: u64

record datagram_handshake_header = datagram_header +
  hh_SenderIndex :: u32
  hh_MsgType :: byte
  hh_FragOffset :: u16
  hh_FragLength :: u16
  hh_TotalLength :: u16
  hh_Cookie :: bytes

definition PeekDatagramType :: "bytes \<Rightarrow> byte res" where
  "PeekDatagramType d = guardR (length d < DatagramHeaderSize) ErrInvalidMessage (u8_at d 0)"

definition putDatagramHeader :: "'a datagram_header_scheme \<Rightarrow> bytes" where
  "putDatagramHeader h = [dh_Type h, dh_Epoch h] @ put_u32 (dh_RecvIndex h) @ put_u64 (dh_Seq h)"

definition parseDatagramHeader :: "bytes \<Rightarrow> datagram_header res" where
  "parseDatagramHeader d =
     guardR (length d < DatagramHeaderSize) ErrInvalidMessage (
     bindR (u8_at d 0) (\<lambda>ty.
     bindR (u8_at d 1) (\<lambda>ep.
     bindR (u32_at d 2) (\<lambda>ri.
     bindR (u64_at d 6) (\<lambda>sq.
     Inr \<lparr>dh_Type = ty, dh_Epoch = ep, dh_RecvIndex = ri, dh_Seq = sq\<rparr>)))))"

definition ParseDatagramHeader :: "bytes \<Rightarrow> (datagram_header \<times> bytes) res" where
  "ParseDatagramHeader d =
     bindR (parseDatagramHeader d) (\<lambda>h.
     bindR (slice_at d DatagramHeaderSize (length d - DatagramHeaderSize)) (\<lambda>body.
     Inr (h, body)))"

definition EncodeDatagramHeader :: "datagram_header \<Rightarrow> bytes" where
  "EncodeDatagramHeader h = putDatagramHeader h"

definition EncodeDatagramData :: "datagram_header \<Rightarrow> bytes \<Rightarrow> bytes" where
  "EncodeDatagramData h ciphertext = putDatagramHeader (h\<lparr>dh_Type := DatagramFrameData\<rparr>) @ ciphertext"

definition AppendDatagramDataHeader :: "bytes \<Rightarrow> datagram_header \<Rightarrow> bytes" where
  "AppendDatagramDataHeader dst h = dst @ putDatagramHeader (h\<lparr>dh_Type := DatagramFrameData\<rparr>)"

definition DatagramAAD :: "bytes \<Rightarrow> bytes res" where
  "DatagramAAD d = slice_at d 0 DatagramHeaderSize"

definition EncodeDatagramHandshake :: "datagram_handshake_header \<Rightarrow> bytes \<Rightarrow> bytes res" where
  "EncodeDatagramHandshake h fragment =
     guardR (length (hh_Cookie h) > 255) ErrInvalidMessage (
     let h = h\<lparr>dh_Type := DatagramFrameHandshake\<rparr> in
     Inr (putDatagramHeader h
       @ put_u32 (hh_SenderIndex h) @ [hh_MsgType h] @ put_u16 (hh_FragOffset h)
       @ put_u16 (hh_FragLength h) @ put_u16 (hh_TotalLength h)
       @ [word_of_nat (length (hh_Cookie h))] @ hh_Cookie h @ fragment))"

definition ParseDatagramHandshake :: "bytes \<Rightarrow> (datagram_handshake_header \<times> bytes) res" where
  "ParseDatagramHandshake d =
     bindR (parseDatagramHeader d) (\<lambda>b.
     guardR (dh_Type b \<noteq> DatagramFrameHandshake) ErrInvalidMessage (
     let off = DatagramHeaderSize in
     guardR (length d < off + DatagramHandshakeExtSize) ErrInvalidMessage (
     bindR (u32_at d off) (\<lambda>sender.
     bindR (u8_at d (off + 4)) (\<lambda>mt.
     bindR (u16_at d (off + 5)) (\<lambda>fo.
     bindR (u16_at d (off + 7)) (\<lambda>fl.
     bindR (u16_at d (off + 9)) (\<lambda>tl.
     bindR (u8_at d (off + 11)) (\<lambda>cl.
     let cookieLen = unat cl; off = off + 12 in
     guardR (length d < off + cookieLen) ErrInvalidMessage (
     bindR (if cookieLen > 0 then slice_at d off cookieLen else Inr []) (\<lambda>cookie.
     let off = (if cookieLen > 0 then off + cookieLen else off) in
     bindR (slice_at d off (length d - off)) (\<lambda>fragment.
     guardR (length fragment < unat fl) ErrInvalidMessage (
     bindR (slice_at fragment 0 (unat fl)) (\<lambda>fragment.
     guardR (unat fo + unat fl > unat tl) ErrInvalidMessage (
     Inr (\<lparr>dh_Type = dh_Type b, dh_Epoch = dh_Epoch b, dh_RecvIndex = dh_RecvIndex b, dh_Seq = dh_Seq b,
            hh_SenderIndex = sender, hh_MsgType = mt, hh_FragOffset = fo, hh_FragLength = fl,
            hh_TotalLength = tl, hh_Cookie = cookie\<rparr>, fragment))))))))))))))))"

definition EncodeDatagramRetry :: "u32 \<Rightarrow> bytes \<Rightarrow> bytes" where
  "EncodeDatagramRetry recvIndex cookie =
     putDatagramHeader \<lparr>dh_Type = DatagramFrameRetry, dh_Epoch = 0, dh_RecvIndex = recvIndex, dh_Seq = 0\<rparr>
     @ cookie"

definition ParseDatagramRetry :: "bytes \<Rightarrow> (u32 \<times> bytes) res" where
  "ParseDatagramRetry d =
     bindR (ParseDatagramHeader d) (\<lambda>(h, body).
     guardR (dh_Type h \<noteq> DatagramFrameRetry) ErrInvalidMessage (Inr (dh_RecvIndex h, body)))"

section \<open>Header lemmas\<close>

lemma length_putDatagramHeader [simp]: "length (putDatagramHeader h) = 14"
  by (simp add: putDatagramHeader_def)

lemma parseDatagramHeader_put:
  "parseDatagramHeader (putDatagramHeader h @ r) = Inr (datagram_header.truncate h)"
proof -
  let ?d = "putDatagramHeader h @ r"
  have d2: "drop 2 ?d = put_u32 (dh_RecvIndex h) @ put_u64 (dh_Seq h) @ r"
    by (simp add: putDatagramHeader_def)
  then have "drop 6 ?d = put_u64 (dh_Seq h) @ r"
    by (rule drop_step) simp
  note r = read_at(2) [OF d2] read_at(3) [OF this]
  have "u8_at ?d 0 = Inr (dh_Type h)" "u8_at ?d 1 = Inr (dh_Epoch h)"
    by (simp_all add: u8_at_def putDatagramHeader_def)
  then show ?thesis
    using r by (simp add: parseDatagramHeader_def DatagramHeaderSize_def datagram_header.truncate_def)
qed

lemma parseDatagramHeader_no_panic [simp]: "parseDatagramHeader d \<noteq> Inl Panic"
  by (auto simp: parseDatagramHeader_def result_simps DatagramHeaderSize_def)

lemma parseDatagramHeader_len: "parseDatagramHeader d = Inr h \<Longrightarrow> 14 \<le> length d"
  by (auto simp: parseDatagramHeader_def result_simps DatagramHeaderSize_def)

lemma ParseDatagramHeader_put:
  "ParseDatagramHeader (putDatagramHeader h @ r) = Inr (datagram_header.truncate h, r)"
  by (simp add: ParseDatagramHeader_def parseDatagramHeader_put slice_at_def DatagramHeaderSize_def)

lemma parseDatagramHeader_inv:
  "parseDatagramHeader d = Inr h \<Longrightarrow> take 14 d = putDatagramHeader h"
proof -
  assume a: "parseDatagramHeader d = Inr h"
  then have l: "14 \<le> length d"
    by (rule parseDatagramHeader_len)
  have "dh_Type h = d ! 0" "dh_Epoch h = d ! 1" "dh_RecvIndex h = get_u32 (drop 2 d)"
    "dh_Seq h = get_u64 (drop 6 d)"
    using a by (auto simp: parseDatagramHeader_def result_simps)
  moreover have "put_u32 (get_u32 (drop 2 d)) = take 4 (drop 2 d)"
    using put_get(2) [of "take 4 (drop 2 d)"] l by (simp add: get_u32_def)
  moreover have "put_u64 (get_u64 (drop 6 d)) = take 8 (drop 6 d)"
    using put_get(3) [of "take 8 (drop 6 d)"] l by (simp add: get_u64_def)
  moreover have "take 14 d = [d ! 0, d ! 1] @ take 4 (drop 2 d) @ take 8 (drop 6 d)"
  proof -
    have "take (2 + (4 + 8)) d = take 2 d @ take 4 (drop 2 d) @ take 8 (drop 6 d)"
      by (simp only: take_add drop_drop) simp
    moreover have "take 2 d = [d ! 0, d ! 1]"
      using l by (cases d; cases "tl d") auto
    ultimately show ?thesis
      by simp
  qed
  ultimately show ?thesis
    by (simp add: putDatagramHeader_def)
qed

text \<open>Parsing a handshake frame, with any trailing padding.\<close>

lemma ParseDatagramHandshake_put:
  assumes "EncodeDatagramHandshake h frag = Inr d" "unat (hh_FragLength h) = length frag"
    "unat (hh_FragOffset h) + length frag \<le> unat (hh_TotalLength h)"
  shows "ParseDatagramHandshake (d @ pad) = Inr (h\<lparr>dh_Type := DatagramFrameHandshake\<rparr>, frag)"
proof -
  let ?h = "h\<lparr>dh_Type := DatagramFrameHandshake\<rparr>" and ?c = "hh_Cookie h" and ?d = "d @ pad"
  have d: "d = putDatagramHeader ?h @ put_u32 (hh_SenderIndex h) @ [hh_MsgType h]
      @ put_u16 (hh_FragOffset h) @ put_u16 (hh_FragLength h) @ put_u16 (hh_TotalLength h)
      @ [word_of_nat (length ?c)] @ ?c @ frag" and c: "length ?c \<le> 255"
    using assms(1) by (auto simp: EncodeDatagramHandshake_def result_simps Let_def)
  have p: "parseDatagramHeader ?d = Inr (datagram_header.truncate ?h)"
    unfolding d append_assoc by (rule parseDatagramHeader_put)
  have d14: "drop 14 ?d = put_u32 (hh_SenderIndex h) @ [hh_MsgType h]
      @ put_u16 (hh_FragOffset h) @ put_u16 (hh_FragLength h) @ put_u16 (hh_TotalLength h)
      @ [word_of_nat (length ?c)] @ ?c @ frag @ pad"
    by (simp add: d)
  let ?t = "[word_of_nat (length ?c)] @ ?c @ frag @ pad"
  have d18: "drop 18 ?d = [hh_MsgType h] @ put_u16 (hh_FragOffset h) @ put_u16 (hh_FragLength h)
      @ put_u16 (hh_TotalLength h) @ ?t"
    using d14 by (rule drop_step) simp
  have d19: "drop 19 ?d = put_u16 (hh_FragOffset h) @ put_u16 (hh_FragLength h)
      @ put_u16 (hh_TotalLength h) @ ?t"
    using d18 by (rule drop_step) simp
  have d21: "drop 21 ?d = put_u16 (hh_FragLength h) @ put_u16 (hh_TotalLength h) @ ?t"
    using d19 by (rule drop_step) simp
  have d23: "drop 23 ?d = put_u16 (hh_TotalLength h) @ ?t"
    using d21 by (rule drop_step) simp
  have d25: "drop 25 ?d = [word_of_nat (length ?c)] @ ?c @ frag @ pad"
    using d23 by (rule drop_step) simp
  have d26: "drop 26 ?d = ?c @ frag @ pad"
    using d25 by (rule drop_step) simp
  have dc: "drop (26 + length ?c) ?d = frag @ pad"
    using drop_step [OF d26] by simp
  have len: "length ?d = 26 + length ?c + length frag + length pad"
    by (simp add: d)
  note r = read_at(2) [OF d14] read_byte [OF d18 [simplified append_Cons append_Nil]] read_at(1) [OF d19]
    read_at(1) [OF d21] read_at(1) [OF d23] read_byte [OF d25 [simplified append_Cons append_Nil]]
  have rc: "slice_at ?d 26 (length ?c) = Inr ?c"
    using read_slice [OF d26 refl] len by simp
  have rf: "slice_at ?d (26 + length ?c) (length ?d - (26 + length ?c)) = Inr (frag @ pad)"
    using dc len by (simp add: slice_at_def)
  have "slice_at (frag @ pad) 0 (length frag) = Inr frag"
    by (simp add: slice_at_def)
  with r rc rf show ?thesis
    unfolding ParseDatagramHandshake_def p bindR_simps Let_def DatagramHeaderSize_def
      DatagramHandshakeExtSize_def
    using assms(2,3) len c
    by (cases "?c = []") (simp_all add: datagram_header.truncate_def unat_byte_len)
qed

lemma ParseDatagramHandshake_no_panic: "ParseDatagramHandshake d \<noteq> Inl Panic"
  by (auto simp: ParseDatagramHandshake_def result_simps Let_def DatagramHeaderSize_def
      DatagramHandshakeExtSize_def)

lemma ParseDatagramHandshake_sound:
  assumes "ParseDatagramHandshake d = Inr (h, frag)"
  shows "length frag = unat (hh_FragLength h)"
    "unat (hh_FragOffset h) + unat (hh_FragLength h) \<le> unat (hh_TotalLength h)"
    "dh_Type h = DatagramFrameHandshake"
  using assms by (auto simp: ParseDatagramHandshake_def result_simps Let_def)

lemma ParseDatagramRetry_put: "ParseDatagramRetry (EncodeDatagramRetry i c) = Inr (i, c)"
  by (simp add: ParseDatagramRetry_def EncodeDatagramRetry_def ParseDatagramHeader_put
      datagram_header.truncate_def)

lemma ParseDatagramHeader_data:
  "ParseDatagramHeader (EncodeDatagramData h ct) = Inr (h\<lparr>dh_Type := DatagramFrameData\<rparr>, ct)"
  by (simp add: EncodeDatagramData_def ParseDatagramHeader_put datagram_header.truncate_def)

lemma AppendDatagramDataHeader_eq:
  "AppendDatagramDataHeader [] h @ ct = EncodeDatagramData h ct"
  by (simp add: AppendDatagramDataHeader_def EncodeDatagramData_def)

section \<open>Properties\<close>

text \<open>
  A handshake frame whose declared fragment length is the fragment's length and whose
  fragment lies inside the declared message parses back to the same header (cookie included) and
  fragment, whatever padding follows it in the datagram.
\<close>

theorem datagram_handshake_roundtrip:
  assumes "EncodeDatagramHandshake h frag = Inr d" "unat (hh_FragLength h) = length frag"
    "unat (hh_FragOffset h) + length frag \<le> unat (hh_TotalLength h)"
  shows "ParseDatagramHandshake (d @ pad) = Inr (h\<lparr>dh_Type := DatagramFrameHandshake\<rparr>, frag)"
  using assms by (rule ParseDatagramHandshake_put)

theorem datagram_handshake_roundtrip_witness:
  "\<exists>h d. EncodeDatagramHandshake h [8, 9] = Inr d \<and> unat (hh_FragLength h) = 2 \<and>
     unat (hh_FragOffset h) + 2 \<le> unat (hh_TotalLength h) \<and> hh_Cookie h = [1] \<and>
     ParseDatagramHandshake (d @ [0, 0]) = Inr (h\<lparr>dh_Type := DatagramFrameHandshake\<rparr>, [8, 9])"
proof -
  let ?h = "\<lparr>dh_Type = 1, dh_Epoch = 0, dh_RecvIndex = 0, dh_Seq = 3, hh_SenderIndex = 4,
    hh_MsgType = 1, hh_FragOffset = 5, hh_FragLength = 2, hh_TotalLength = 9, hh_Cookie = [1]\<rparr>"
  obtain d where d: "EncodeDatagramHandshake ?h [8, 9] = Inr d"
    by (simp add: EncodeDatagramHandshake_def)
  then show ?thesis
    using datagram_handshake_roundtrip [OF d, of "[0, 0]"]
    by (intro exI [of _ ?h] exI [of _ d]) simp
qed

text \<open>
  The datagram parsers never panic on any input, and a handshake frame that parses carries
  exactly the declared number of fragment bytes, inside the declared message.
\<close>

theorem datagram_parsers_safe:
  "PeekDatagramType d \<noteq> Inl Panic \<and> ParseDatagramHeader d \<noteq> Inl Panic \<and>
   ParseDatagramHandshake d \<noteq> Inl Panic \<and> ParseDatagramRetry d \<noteq> Inl Panic \<and>
   (case ParseDatagramHandshake d of
      Inr (h, frag) \<Rightarrow> length frag = unat (hh_FragLength h) \<and>
        unat (hh_FragOffset h) + unat (hh_FragLength h) \<le> unat (hh_TotalLength h)
    | Inl e \<Rightarrow> True)"
proof -
  have "ParseDatagramHeader d \<noteq> Inl Panic"
    by (auto simp: ParseDatagramHeader_def result_simps DatagramHeaderSize_def
        dest: parseDatagramHeader_len)
  then show ?thesis
    using ParseDatagramHandshake_no_panic [of d] ParseDatagramHandshake_sound [of d]
    by (auto simp: PeekDatagramType_def ParseDatagramRetry_def result_simps DatagramHeaderSize_def
        split: sum.splits)
qed

end
