(* ===== verification/Reassembly.thy ===== *)
theory Reassembly
  imports Datagram_Codec Bitset
begin

text \<open>
  Handshake fragmentation: pkg/tunnel/reassembly.go (the receiving side) and dgram_handshake.go
  (the sending side).  Go maps are association lists with distinct keys (their order stands for
  the unspecified iteration order), time is an integer number of nanoseconds passed in where the
  code calls its clock; \<open>Add\<close> takes one reading for the eviction and the new buffer, where the code reads its
  clock twice within the call.  Shown: the fragmenter's frames fit the MTU; delivered in any order and
  with any duplicates they reassemble to the message; and no sequence of fragments, however
  malformed, makes the reassembler panic or exceed its memory bounds.
\<close>

section \<open>reassembly.go\<close>

record reasm_key =
  rk_sender :: u32
  rk_msg :: byte

record fragment_buffer =
  fb_total :: nat
  fb_buf :: bytes
  fb_covered :: "u64 list"
  fb_coveredN :: nat
  fb_createdAt :: int

type_synonym source_buffers = "(reasm_key \<times> fragment_buffer) list"

record reassembler =
  bySource :: "(string \<times> source_buffers) list"
  maxSources :: nat
  maxConcurrentPerSource :: nat
  maxMessageSize :: nat
  reasm_timeout :: int

definition errReassemblerFull :: qerror where
  "errReassemblerFull = ErrText ''tunnel: reassembler at global source capacity''"

definition NewReassembler :: "int \<Rightarrow> int \<Rightarrow> int \<Rightarrow> reassembler" where
  "NewReassembler maxConcurrent maxMessage tmo =
     \<lparr>bySource = [],
      maxSources = DatagramMaxHalfOpenFloor,
      maxConcurrentPerSource =
        (if maxConcurrent \<le> 0 then DatagramMaxConcurrentReassembly else nat maxConcurrent),
      maxMessageSize = (if maxMessage \<le> 0 then DatagramMaxHandshakeMessageSize else nat maxMessage),
      reasm_timeout = (if tmo \<le> 0 then int DatagramReassemblyTimeoutSeconds * 1000000000 else tmo)\<rparr>"

definition evictExpiredLocked :: "int \<Rightarrow> reassembler \<Rightarrow> reassembler" where
  "evictExpiredLocked now r =
     (let deadline = now - reasm_timeout r
      in r\<lparr>bySource := filter (\<lambda>(src, bufs). bufs \<noteq> [])
           (map (\<lambda>(src, bufs). (src, filter (\<lambda>(k, fb). \<not> fb_createdAt fb < deadline) bufs)) (bySource r))\<rparr>)"

fun oldest_buffer :: "(reasm_key \<times> fragment_buffer) option \<Rightarrow> source_buffers \<Rightarrow>
    (reasm_key \<times> fragment_buffer) option" where
  "oldest_buffer oldest [] = oldest"
| "oldest_buffer None ((k, fb) # bufs) = oldest_buffer (Some (k, fb)) bufs"
| "oldest_buffer (Some (ok, ofb)) ((k, fb) # bufs) =
     oldest_buffer (if fb_createdAt fb < fb_createdAt ofb then Some (k, fb) else Some (ok, ofb)) bufs"

definition evictOldestLocked :: "source_buffers \<Rightarrow> source_buffers" where
  "evictOldestLocked bufs =
     (case oldest_buffer None bufs of None \<Rightarrow> bufs | Some (k, _) \<Rightarrow> AList.delete k bufs)"

text \<open>The coverage loop over \<open>n\<close> positions from \<open>i\<close>.\<close>

primrec cover_loop :: "nat \<Rightarrow> nat \<Rightarrow> u64 list \<times> nat \<Rightarrow> u64 list \<times> nat" where
  "cover_loop 0 i st = st"
| "cover_loop (Suc n) i st =
     cover_loop n (Suc i)
       (if testBit (fst st) i then st else (setBit (fst st) i, Suc (snd st)))"

definition store_fragment :: "fragment_buffer \<Rightarrow> nat \<Rightarrow> bytes \<Rightarrow> fragment_buffer res" where
  "store_fragment fb off fragment =
     (if off + length fragment \<le> length (fb_buf fb) \<and>
         off + length fragment \<le> 64 * length (fb_covered fb)
      then (let (cov, n) = cover_loop (length fragment) off (fb_covered fb, fb_coveredN fb)
            in Inr (fb\<lparr>fb_buf := take off (fb_buf fb) @ fragment @ drop (off + length fragment) (fb_buf fb),
                       fb_covered := cov, fb_coveredN := n\<rparr>))
      else Inl Panic)"

definition new_fragment_buffer :: "nat \<Rightarrow> int \<Rightarrow> fragment_buffer" where
  "new_fragment_buffer tot now =
     \<lparr>fb_total = tot, fb_buf = replicate tot 0, fb_covered = replicate ((tot + 63) div 64) 0,
      fb_coveredN = 0, fb_createdAt = now\<rparr>"

text \<open>\<open>Add\<close> returns \<open>Inr (Some msg)\<close> for a completed message, \<open>Inr None\<close> for an incomplete one.\<close>

definition Add :: "int \<Rightarrow> reassembler \<Rightarrow> string \<Rightarrow> datagram_handshake_header \<Rightarrow> bytes \<Rightarrow>
    bytes option res \<times> reassembler" where
  "Add now r source h fragment =
     (let tot = unat (hh_TotalLength h) in
      if tot \<le> 0 \<or> tot > maxMessageSize r then (failR ErrMessageTooLarge, r)
      else if unat (hh_FragOffset h) + unat (hh_FragLength h) > tot \<or> unat (hh_FragLength h) \<noteq> length fragment
      then (failR ErrInvalidMessage, r)
      else
        (let r = evictExpiredLocked now r;
             old = map_of (bySource r) source
         in if old = None \<and> length (bySource r) \<ge> maxSources r then (failR errReassemblerFull, r)
         else
           (let bufs = (case old of None \<Rightarrow> [] | Some b \<Rightarrow> b);
                key = \<lparr>rk_sender = hh_SenderIndex h, rk_msg = hh_MsgType h\<rparr>;
                fb0 = map_of bufs key;
                bufs = (if fb0 = None \<and> length bufs \<ge> maxConcurrentPerSource r
                        then evictOldestLocked bufs else bufs);
                fb = (case fb0 of None \<Rightarrow> new_fragment_buffer tot now | Some fb \<Rightarrow> fb)
            in if fb_total fb \<noteq> tot then (failR ErrInvalidMessage, r)
            else
              (case store_fragment fb (unat (hh_FragOffset h)) fragment of
                 Inl e \<Rightarrow> (Inl e, r)
               | Inr fb \<Rightarrow>
                   if fb_coveredN fb < fb_total fb
                   then (Inr None, r\<lparr>bySource := AList.update source (AList.update key fb bufs) (bySource r)\<rparr>)
                   else
                     (let bufs = AList.delete key bufs
                      in (Inr (Some (fb_buf fb)),
                          r\<lparr>bySource := (if bufs = [] then AList.delete source (bySource r)
                                         else AList.update source bufs (bySource r))\<rparr>))))))"

definition Drop :: "reassembler \<Rightarrow> string \<Rightarrow> reassembler" where
  "Drop r source = r\<lparr>bySource := AList.delete source (bySource r)\<rparr>"

definition sourceCount :: "reassembler \<Rightarrow> nat" where
  "sourceCount r = length (bySource r)"

section \<open>dgram_handshake.go\<close>

definition maxHandshakeFragmentPayload :: "nat \<Rightarrow> int" where
  "maxHandshakeFragmentPayload cookieLen =
     int DatagramMTU - int DatagramHeaderSize - int DatagramHandshakeExtSize - int cookieLen"

definition pad_frame :: "bool \<Rightarrow> bytes \<Rightarrow> bytes" where
  "pad_frame pad frame =
     (if pad \<and> length frame < DatagramMTU then frame @ replicate (DatagramMTU - length frame) 0 else frame)"

function fragment_loop :: "datagram_handshake_header \<Rightarrow> bytes \<Rightarrow> bool \<Rightarrow> nat \<Rightarrow> nat \<Rightarrow> u64 \<Rightarrow> bytes list res" where
  "fragment_loop b msg pad maxFrag off sq =
     (if off < length msg \<and> 0 < maxFrag then
        (let end = min (off + maxFrag) (length msg);
             h = b\<lparr>dh_Seq := sq, hh_FragOffset := word_of_nat off,
                      hh_FragLength := word_of_nat (end - off), hh_TotalLength := word_of_nat (length msg)\<rparr>
         in bindR (EncodeDatagramHandshake h (take (end - off) (drop off msg))) (\<lambda>frame.
            bindR (fragment_loop b msg pad maxFrag (off + maxFrag) (sq + 1)) (\<lambda>frames.
            Inr (pad_frame pad frame # frames))))
      else Inr [])"
  by pat_completeness auto

termination
  by (relation "measure (\<lambda>(b, msg, pad, maxFrag, off, sq). length msg - off)") auto

definition fragmentHandshake :: "datagram_handshake_header \<Rightarrow> bytes \<Rightarrow> bool \<Rightarrow> bytes list res" where
  "fragmentHandshake b msg pad =
     guardR (length msg = 0 \<or> length msg > DatagramMaxHandshakeMessageSize) ErrMessageTooLarge (
     let maxFrag = maxHandshakeFragmentPayload (length (hh_Cookie b)) in
     guardR (maxFrag \<le> 0) ErrInvalidMessage (
     fragment_loop b msg pad (nat maxFrag) 0 (dh_Seq b)))"

declare fragment_loop.simps [simp del]

section \<open>One buffer\<close>

definition coverage :: "fragment_buffer \<Rightarrow> nat set" where
  "coverage fb = {p. p < fb_total fb \<and> testBit (fb_covered fb) p}"

definition buffer_ok :: "fragment_buffer \<Rightarrow> bool" where
  "buffer_ok fb \<longleftrightarrow> 0 < fb_total fb \<and> length (fb_buf fb) = fb_total fb \<and>
     fb_total fb \<le> 64 * length (fb_covered fb) \<and> fb_coveredN fb = card (coverage fb)"

lemma coverage_finite [simp]: "finite (coverage fb)"
  by (simp add: coverage_def)

lemma coverage_subset: "coverage fb \<subseteq> {..<fb_total fb}"
  by (auto simp: coverage_def)

lemma coverage_full: "buffer_ok fb \<Longrightarrow> \<not> fb_coveredN fb < fb_total fb \<longleftrightarrow> coverage fb = {..<fb_total fb}"
proof
  assume ok: "buffer_ok fb" and "\<not> fb_coveredN fb < fb_total fb"
  moreover have "card (coverage fb) \<le> card {..<fb_total fb}"
    by (rule card_mono) (simp_all add: coverage_subset)
  ultimately have "card (coverage fb) = card {..<fb_total fb}"
    by (simp add: buffer_ok_def)
  then show "coverage fb = {..<fb_total fb}"
    by (intro card_subset_eq) (simp_all add: coverage_subset)
qed (simp add: buffer_ok_def)

lemma cover_loop_spec:
  assumes "i + n \<le> t" "t \<le> 64 * length (fst st)" "snd st = card {p. p < t \<and> testBit (fst st) p}"
  shows "length (fst (cover_loop n i st)) = length (fst st) \<and>
    {p. p < t \<and> testBit (fst (cover_loop n i st)) p} = {p. p < t \<and> testBit (fst st) p} \<union> {i..<i + n} \<and>
    snd (cover_loop n i st) = card ({p. p < t \<and> testBit (fst st) p} \<union> {i..<i + n})"
  using assms
proof (induction n arbitrary: i st)
  case (Suc n)
  define st' where "st' = (if testBit (fst st) i then st else (setBit (fst st) i, Suc (snd st)))"
  let ?c = "\<lambda>st. {p. p < t \<and> testBit (fst st) p}"
  have len: "length (fst st') = length (fst st)"
    by (simp add: st'_def)
  have c: "?c st' = insert i (?c st)"
    using Suc.prems by (auto simp: st'_def testBit_setBit)
  have "snd st' = card (insert i (?c st))"
    using Suc.prems by (auto simp: st'_def insert_absorb)
  then have "length (fst (cover_loop n (Suc i) st')) = length (fst st') \<and>
    ?c (cover_loop n (Suc i) st') = ?c st' \<union> {Suc i..<Suc i + n} \<and>
    snd (cover_loop n (Suc i) st') = card (?c st' \<union> {Suc i..<Suc i + n})"
    using Suc.prems c len by (intro Suc.IH) auto
  moreover have "?c st' \<union> {Suc i..<Suc i + n} = ?c st \<union> {i..<i + Suc n}"
    unfolding c by auto
  ultimately show ?case
    using len by (simp flip: st'_def)
qed simp

lemma store_fragment_ok:
  assumes "buffer_ok fb" "off + length frag \<le> fb_total fb"
  obtains fb' where "store_fragment fb off frag = Inr fb'" "buffer_ok fb'"
    "fb_total fb' = fb_total fb" "fb_createdAt fb' = fb_createdAt fb"
    "coverage fb' = coverage fb \<union> {off..<off + length frag}"
    "fb_buf fb' = take off (fb_buf fb) @ frag @ drop (off + length frag) (fb_buf fb)"
proof -
  obtain cov n where c: "cover_loop (length frag) off (fb_covered fb, fb_coveredN fb) = (cov, n)"
    by fastforce
  let ?fb = "fb\<lparr>fb_buf := take off (fb_buf fb) @ frag @ drop (off + length frag) (fb_buf fb),
    fb_covered := cov, fb_coveredN := n\<rparr>"
  have s: "store_fragment fb off frag = Inr ?fb"
    using assms c by (simp add: store_fragment_def buffer_ok_def)
  have "length cov = length (fb_covered fb) \<and> coverage ?fb = coverage fb \<union> {off..<off + length frag} \<and>
      n = card (coverage fb \<union> {off..<off + length frag})"
    using cover_loop_spec [of off "length frag" "fb_total fb" "(fb_covered fb, fb_coveredN fb)"] assms c
    by (simp add: buffer_ok_def coverage_def)
  then show ?thesis
    using assms by (intro that [OF s]) (auto simp: buffer_ok_def)
qed

lemma new_buffer_ok:
  "0 < tot \<Longrightarrow> buffer_ok (new_fragment_buffer tot now) \<and> coverage (new_fragment_buffer tot now) = {}"
proof -
  assume t: "0 < tot"
  have l: "tot \<le> 64 * ((tot + 63) div 64)"
    by linarith
  then have "coverage (new_fragment_buffer tot now) = {}"
    by (auto simp: coverage_def new_fragment_buffer_def)
  then show ?thesis
    using t l by (simp add: buffer_ok_def new_fragment_buffer_def)
qed

section \<open>The reassembler's bounds\<close>

definition source_ok :: "reassembler \<Rightarrow> source_buffers \<Rightarrow> bool" where
  "source_ok r bufs \<longleftrightarrow> bufs \<noteq> [] \<and> distinct (map fst bufs) \<and> length bufs \<le> maxConcurrentPerSource r \<and>
     (\<forall>x\<in>set bufs. buffer_ok (snd x) \<and> fb_total (snd x) \<le> maxMessageSize r)"

definition reasm_ok :: "reassembler \<Rightarrow> bool" where
  "reasm_ok r \<longleftrightarrow> 0 < maxConcurrentPerSource r \<and> distinct (map fst (bySource r)) \<and>
     length (bySource r) \<le> maxSources r \<and> (\<forall>x\<in>set (bySource r). source_ok r (snd x))"

lemma source_ok_bySource [simp]: "source_ok (r\<lparr>bySource := x\<rparr>) bufs = source_ok r bufs"
  by (simp add: source_ok_def)

lemma NewReassembler_ok: "reasm_ok (NewReassembler c m t)"
  by (auto simp: reasm_ok_def NewReassembler_def constant_defs)

lemma Drop_ok: "reasm_ok r \<Longrightarrow> reasm_ok (Drop r source)"
  by (auto simp: reasm_ok_def Drop_def alist_delete_set AList.distinct_delete
      intro: order_trans [OF AList.length_delete_le])

lemma evictExpired_limits [simp]:
  "maxSources (evictExpiredLocked now r) = maxSources r"
  "maxConcurrentPerSource (evictExpiredLocked now r) = maxConcurrentPerSource r"
  "maxMessageSize (evictExpiredLocked now r) = maxMessageSize r"
  "reasm_timeout (evictExpiredLocked now r) = reasm_timeout r"
  by (simp_all add: evictExpiredLocked_def Let_def)

lemma distinct_filter_map_fst:
  "distinct (map fst al) \<Longrightarrow> distinct (map fst (filter P (map (\<lambda>(k, v). (k, f v)) al)))"
  by (induction al) (force split: prod.splits)+

lemma source_ok_filter: "source_ok r bufs \<Longrightarrow> filter P bufs \<noteq> [] \<Longrightarrow> source_ok r (filter P bufs)"
  by (auto simp: source_ok_def distinct_map_filter intro: order_trans [OF length_filter_le])

lemma evictExpired_ok: "reasm_ok r \<Longrightarrow> reasm_ok (evictExpiredLocked now r)"
proof -
  assume ok: "reasm_ok r"
  let ?f = "filter (\<lambda>(k, fb). \<not> fb_createdAt fb < now - reasm_timeout r)"
  define l where "l = filter (\<lambda>(src, bufs). bufs \<noteq> []) (map (\<lambda>(src, bufs). (src, ?f bufs)) (bySource r))"
  have e: "evictExpiredLocked now r = r\<lparr>bySource := l\<rparr>"
    by (simp add: evictExpiredLocked_def l_def)
  have "length l \<le> length (bySource r)"
    unfolding l_def by (rule order_trans [OF length_filter_le]) simp
  moreover have "distinct (map fst l)"
    using ok unfolding l_def by (intro distinct_filter_map_fst) (simp add: reasm_ok_def)
  moreover have "source_ok r (snd x)" if "x \<in> set l" for x
    using that ok source_ok_filter unfolding l_def by (fastforce simp: reasm_ok_def)
  ultimately show ?thesis
    using ok unfolding e reasm_ok_def by auto
qed

lemma oldest_buffer_in:
  "oldest_buffer acc bufs = Some x \<Longrightarrow> acc = Some x \<or> x \<in> set bufs"
  by (induction acc bufs rule: oldest_buffer.induct) (auto split: if_splits)

lemma oldest_buffer_Some: "oldest_buffer (Some x) bufs \<noteq> None"
  by (induction "Some x" bufs arbitrary: x rule: oldest_buffer.induct) auto

lemma evictOldest_shrinks: "bufs \<noteq> [] \<Longrightarrow> length (evictOldestLocked bufs) < length bufs"
proof -
  assume "bufs \<noteq> []"
  then have "oldest_buffer None bufs \<noteq> None"
    by (metis list.exhaust oldest_buffer.simps(2) oldest_buffer_Some surj_pair)
  then obtain k fb where o: "oldest_buffer None bufs = Some (k, fb)"
    by auto
  then have "(k, fb) \<in> set bufs"
    using oldest_buffer_in by blast
  then show ?thesis
    using o by (auto simp: evictOldestLocked_def intro!: alist_delete_length image_eqI)
qed

lemma evictOldest_set: "set (evictOldestLocked bufs) \<subseteq> set bufs"
  by (auto simp: evictOldestLocked_def alist_delete_set split: option.splits prod.splits)

lemma evictOldest_distinct: "distinct (map fst bufs) \<Longrightarrow> distinct (map fst (evictOldestLocked bufs))"
  by (auto simp: evictOldestLocked_def AList.distinct_delete split: option.splits prod.splits)

text \<open>What one \<open>Add\<close> does once its guards have passed.\<close>

lemma map_of_source_ok: "reasm_ok r \<Longrightarrow> map_of (bySource r) source = Some bufs \<Longrightarrow> source_ok r bufs"
  using map_of_SomeD by (fastforce simp: reasm_ok_def)

lemma source_ok_update:
  assumes "source_ok r bufs \<or> bufs = []" "buffer_ok fb" "fb_total fb \<le> maxMessageSize r"
    "0 < maxConcurrentPerSource r"
  shows "source_ok r (AList.update key fb (if map_of bufs key = None \<and> maxConcurrentPerSource r \<le> length bufs
      then evictOldestLocked bufs else bufs))"
proof -
  let ?b = "if map_of bufs key = None \<and> maxConcurrentPerSource r \<le> length bufs
      then evictOldestLocked bufs else bufs"
  have "length (AList.update key fb ?b) \<le> maxConcurrentPerSource r"
    using assms(1,4) evictOldest_shrinks [of bufs]
    by (auto simp: alist_update_length source_ok_def)
  moreover have "\<forall>x\<in>set (AList.update key fb ?b). buffer_ok (snd x) \<and> fb_total (snd x) \<le> maxMessageSize r"
    using assms(1-3) evictOldest_set [of bufs]
    by (auto simp: source_ok_def dest!: alist_update_set split: if_splits)
  moreover have "distinct (map fst (AList.update key fb ?b))"
    using assms(1) evictOldest_distinct [of bufs] by (auto simp: source_ok_def AList.distinct_update)
  ultimately show ?thesis
    by (simp add: source_ok_def)
qed

lemma reasm_ok_update:
  assumes "reasm_ok r" "source_ok r bufs" "map_of (bySource r) source = None \<Longrightarrow> length (bySource r) < maxSources r"
  shows "reasm_ok (r\<lparr>bySource := AList.update source bufs (bySource r)\<rparr>)"
  using assms
  by (auto simp: reasm_ok_def alist_update_length AList.distinct_update dest!: alist_update_set)

lemma reasm_ok_delete: "reasm_ok r \<Longrightarrow> reasm_ok (r\<lparr>bySource := AList.delete source (bySource r)\<rparr>)"
  using Drop_ok by (simp add: Drop_def)

lemma source_ok_delete:
  "source_ok r bufs \<or> bufs = [] \<Longrightarrow> AList.delete key (if c then evictOldestLocked bufs else bufs) \<noteq> [] \<Longrightarrow>
     source_ok r (AList.delete key (if c then evictOldestLocked bufs else bufs))"
  using evictOldest_shrinks [of bufs] evictOldest_set [of bufs] evictOldest_distinct [of bufs]
    AList.length_delete_le [of key bufs] AList.length_delete_le [of key "evictOldestLocked bufs"]
  by (cases "bufs = []") (auto simp: source_ok_def alist_delete_set AList.distinct_delete)

lemma Add_ok:
  assumes "reasm_ok r"
  shows "reasm_ok (snd (Add now r source h frag)) \<and> fst (Add now r source h frag) \<noteq> Inl Panic"
proof -
  define r1 where "r1 = evictExpiredLocked now r"
  have ok: "reasm_ok r1"
    using assms by (simp add: r1_def evictExpired_ok)
  define tot where "tot = unat (hh_TotalLength h)"
  define bufs where "bufs = (case map_of (bySource r1) source of None \<Rightarrow> [] | Some b \<Rightarrow> b)"
  define key where "key = \<lparr>rk_sender = hh_SenderIndex h, rk_msg = hh_MsgType h\<rparr>"
  define fb where "fb = (case map_of bufs key of None \<Rightarrow> new_fragment_buffer tot now | Some fb \<Rightarrow> fb)"
  define off where "off = unat (hh_FragOffset h)"
  have bufs: "source_ok r1 bufs \<or> bufs = []"
    using ok map_of_source_ok by (auto simp: bufs_def split: option.splits)
  show ?thesis
  proof (cases "tot \<le> 0 \<or> tot > maxMessageSize r \<or> off + unat (hh_FragLength h) > tot \<or>
      unat (hh_FragLength h) \<noteq> length frag \<or>
      map_of (bySource r1) source = None \<and> length (bySource r1) \<ge> maxSources r1 \<or> fb_total fb \<noteq> tot")
    case True
    then show ?thesis
      using assms ok unfolding Add_def Let_def r1_def [symmetric] bufs_def [symmetric] key_def [symmetric]
        tot_def [symmetric] fb_def [symmetric] off_def [symmetric]
      by auto
  next
    case False
    then have fb: "buffer_ok fb" "off + length frag \<le> fb_total fb" "fb_total fb \<le> maxMessageSize r1"
      using bufs new_buffer_ok [of tot now] map_of_SomeD [of bufs key]
      by (auto simp: fb_def source_ok_def r1_def split: option.splits)
    obtain fb' where s: "store_fragment fb off frag = Inr fb'" "buffer_ok fb'" "fb_total fb' = fb_total fb"
      using store_fragment_ok [OF fb(1,2)] by metis
    define b2 where "b2 = (if map_of bufs key = None \<and> maxConcurrentPerSource r1 \<le> length bufs
      then evictOldestLocked bufs else bufs)"
    have "source_ok r1 (AList.update key fb' b2)"
      unfolding b2_def using bufs s fb ok by (intro source_ok_update) (auto simp: reasm_ok_def)
    moreover have "AList.delete key b2 \<noteq> [] \<Longrightarrow> source_ok r1 (AList.delete key b2)"
      unfolding b2_def using bufs by (rule source_ok_delete)
    ultimately show ?thesis
      using False ok s
      unfolding Add_def Let_def r1_def [symmetric] bufs_def [symmetric] key_def [symmetric]
        tot_def [symmetric] fb_def [symmetric] off_def [symmetric] b2_def [symmetric]
      by (auto intro!: reasm_ok_update reasm_ok_delete)
  qed
qed

lemma Add_limits [simp]:
  "maxSources (snd (Add now r source h frag)) = maxSources r"
  "maxConcurrentPerSource (snd (Add now r source h frag)) = maxConcurrentPerSource r"
  "maxMessageSize (snd (Add now r source h frag)) = maxMessageSize r"
  "reasm_timeout (snd (Add now r source h frag)) = reasm_timeout r"
  by (simp_all add: Add_def Let_def split: sum.splits)

definition buffered :: "reassembler \<Rightarrow> nat" where
  "buffered r = sum_list (map (\<lambda>x. sum_list (map (\<lambda>y. length (fb_buf (snd y))) (snd x))) (bySource r))"

lemma sum_list_le: "(\<And>x. x \<in> set xs \<Longrightarrow> f x \<le> (b :: nat)) \<Longrightarrow> sum_list (map f xs) \<le> length xs * b"
proof (induction xs)
  case (Cons x xs)
  then show ?case
    using Cons.prems [of x] by (simp add: add_mono)
qed simp

lemma buffered_le:
  assumes "reasm_ok r"
  shows "buffered r \<le> maxSources r * (maxConcurrentPerSource r * maxMessageSize r)"
proof -
  have "sum_list (map (\<lambda>y. length (fb_buf (snd y))) (snd x)) \<le> maxConcurrentPerSource r * maxMessageSize r"
    if "x \<in> set (bySource r)" for x
  proof -
    have x: "source_ok r (snd x)"
      using assms that by (simp add: reasm_ok_def)
    then have "sum_list (map (\<lambda>y. length (fb_buf (snd y))) (snd x)) \<le> length (snd x) * maxMessageSize r"
      by (intro sum_list_le) (auto simp: source_ok_def buffer_ok_def)
    also have "\<dots> \<le> maxConcurrentPerSource r * maxMessageSize r"
      using x by (simp add: source_ok_def)
    finally show ?thesis .
  qed
  then have "buffered r \<le> length (bySource r) * (maxConcurrentPerSource r * maxMessageSize r)"
    unfolding buffered_def by (rule sum_list_le)
  also have "\<dots> \<le> maxSources r * (maxConcurrentPerSource r * maxMessageSize r)"
    using assms by (simp add: reasm_ok_def)
  finally show ?thesis .
qed

text \<open>Any sequence of operations on a reassembler.\<close>

datatype reasm_op = AddOp int string datagram_handshake_header bytes | DropOp string

fun reasm_step :: "reasm_op \<Rightarrow> reassembler \<Rightarrow> reassembler" where
  "reasm_step (AddOp now source h frag) r = snd (Add now r source h frag)"
| "reasm_step (DropOp source) r = Drop r source"

lemma reasm_step_ok: "reasm_ok r \<Longrightarrow> reasm_ok (reasm_step op r)"
  by (cases op) (auto simp: Add_ok Drop_ok)

lemma reasm_run_ok: "reasm_ok r \<Longrightarrow> reasm_ok (fold reasm_step ops r)"
  by (induction ops arbitrary: r) (auto simp: reasm_step_ok)

lemma reasm_step_limits [simp]:
  "maxSources (reasm_step op r) = maxSources r"
  "maxConcurrentPerSource (reasm_step op r) = maxConcurrentPerSource r"
  "maxMessageSize (reasm_step op r) = maxMessageSize r"
  by (cases op; simp add: Drop_def)+

lemma reasm_run_limits [simp]:
  "maxSources (fold reasm_step ops r) = maxSources r"
  "maxConcurrentPerSource (fold reasm_step ops r) = maxConcurrentPerSource r"
  "maxMessageSize (fold reasm_step ops r) = maxMessageSize r"
  by (induction ops arbitrary: r; simp)+

section \<open>The fragmenter\<close>

definition frame_range :: "bytes \<Rightarrow> nat set" where
  "frame_range f = (case ParseDatagramHandshake f of
     Inr (h, _) \<Rightarrow> {unat (hh_FragOffset h)..<unat (hh_FragOffset h) + unat (hh_FragLength h)} | Inl _ \<Rightarrow> {})"

text \<open>A header and a fragment that carry a slice of a message under a reassembly key.\<close>

definition is_piece :: "reasm_key \<Rightarrow> bytes \<Rightarrow> datagram_handshake_header \<Rightarrow> bytes \<Rightarrow> bool" where
  "is_piece key msg h frag \<longleftrightarrow>
     key = \<lparr>rk_sender = hh_SenderIndex h, rk_msg = hh_MsgType h\<rparr> \<and>
     unat (hh_TotalLength h) = length msg \<and> unat (hh_FragLength h) = length frag \<and>
     unat (hh_FragOffset h) + length frag \<le> length msg \<and>
     frag = take (length frag) (drop (unat (hh_FragOffset h)) msg)"

definition frame_piece :: "reasm_key \<Rightarrow> bytes \<Rightarrow> bytes \<Rightarrow> bool" where
  "frame_piece key msg f \<longleftrightarrow>
     (case ParseDatagramHandshake f of Inr (h, frag) \<Rightarrow> is_piece key msg h frag | Inl _ \<Rightarrow> False)"

lemma pad_frame_append: "\<exists>z. pad_frame pad f = f @ z"
  by (auto simp: pad_frame_def)

lemma length_EncodeDatagramHandshake:
  "EncodeDatagramHandshake h frag = Inr d \<Longrightarrow> length d = 26 + length (hh_Cookie h) + length frag"
  by (auto simp: EncodeDatagramHandshake_def result_simps Let_def)

text \<open>One round of the loop: the frame carries the bytes from \<open>off\<close> to \<open>off + k\<close>.\<close>

lemma fragment_frame:
  assumes "EncodeDatagramHandshake (b\<lparr>dh_Seq := sq, hh_FragOffset := word_of_nat off,
      hh_FragLength := word_of_nat k, hh_TotalLength := word_of_nat (length msg)\<rparr>) (take k (drop off msg)) = Inr d"
    and "off + k \<le> length msg" "length msg \<le> 4096"
  shows "frame_range (pad_frame pad d) = {off..<off + k}"
    "frame_piece \<lparr>rk_sender = hh_SenderIndex b, rk_msg = hh_MsgType b\<rparr> msg (pad_frame pad d)"
    "length d = 26 + length (hh_Cookie b) + k"
proof -
  let ?h = "b\<lparr>dh_Seq := sq, hh_FragOffset := word_of_nat off, hh_FragLength := word_of_nat k,
    hh_TotalLength := word_of_nat (length msg)\<rparr>"
  obtain z where z: "pad_frame pad d = d @ z"
    using pad_frame_append by blast
  have u: "unat (word_of_nat off :: u16) = off" "unat (word_of_nat k :: u16) = k"
    "unat (word_of_nat (length msg) :: u16) = length msg"
    using assms(2,3) by (simp_all add: unat_of_nat)
  have l: "length (take k (drop off msg)) = k"
    using assms(2) by simp
  have "ParseDatagramHandshake (pad_frame pad d) = Inr (?h\<lparr>dh_Type := DatagramFrameHandshake\<rparr>, take k (drop off msg))"
    unfolding z using assms(1) by (rule ParseDatagramHandshake_put) (use u l assms(2) in simp_all)
  then show "frame_range (pad_frame pad d) = {off..<off + k}"
    "frame_piece \<lparr>rk_sender = hh_SenderIndex b, rk_msg = hh_MsgType b\<rparr> msg (pad_frame pad d)"
    using u l assms(2) by (simp_all add: frame_range_def frame_piece_def is_piece_def)
  show "length d = 26 + length (hh_Cookie b) + k"
    using length_EncodeDatagramHandshake [OF assms(1)] l by simp
qed

lemma fragment_loop_spec:
  assumes "fragment_loop b msg pad maxFrag off sq = Inr fs" "length msg \<le> 4096" "0 < maxFrag"
  shows "(\<Union>f\<in>set fs. frame_range f) = {off..<length msg} \<and>
    (\<forall>f\<in>set fs. frame_range f \<noteq> {} \<and>
       frame_piece \<lparr>rk_sender = hh_SenderIndex b, rk_msg = hh_MsgType b\<rparr> msg f \<and>
       (\<exists>d. f = pad_frame pad d \<and> length d \<le> 26 + length (hh_Cookie b) + maxFrag)) \<and>
    (\<forall>f\<in>set fs. \<forall>g\<in>set fs. f \<noteq> g \<longrightarrow> frame_range f \<inter> frame_range g = {})"
  using assms
proof (induction b msg pad maxFrag off sq arbitrary: fs rule: fragment_loop.induct)
  case (1 b msg pad maxFrag off sq)
  show ?case
  proof (cases "off < length msg")
    case True
    define e where "e = min (off + maxFrag) (length msg)"
    let ?h = "b\<lparr>dh_Seq := sq, hh_FragOffset := word_of_nat off,
      hh_FragLength := word_of_nat (e - off), hh_TotalLength := word_of_nat (length msg)\<rparr>"
    obtain d fs' where d: "EncodeDatagramHandshake ?h (take (e - off) (drop off msg)) = Inr d"
      and fs': "fragment_loop b msg pad maxFrag (off + maxFrag) (sq + 1) = Inr fs'"
      and fs: "fs = pad_frame pad d # fs'"
      using "1.prems" True by (subst (asm) fragment_loop.simps) (auto simp: result_simps Let_def e_def)
    have e: "off + (e - off) = e" "e \<le> length msg" "e - off \<le> maxFrag" "off < e"
      using True "1.prems"(3) by (auto simp: e_def)
    note ih = "1.IH" [OF conjI [OF True "1.prems"(3)] e_def refl d fs' "1.prems"(2,3)]
    note fr = fragment_frame [OF d _ "1.prems"(2), unfolded e(1), OF e(2)]
    have u: "{off..<e} \<union> {off + maxFrag..<length msg} = {off..<length msg}"
      "{off..<e} \<inter> {off + maxFrag..<length msg} = {}"
      using e by (auto simp: e_def)
    have "frame_range f \<subseteq> {off + maxFrag..<length msg}" if "f \<in> set fs'" for f
      using ih that by blast
    then have dj: "frame_range f \<inter> {off..<e} = {}" "{off..<e} \<inter> frame_range f = {}" if "f \<in> set fs'" for f
      using u(2) that by blast+
    show ?thesis
      using ih fr u(1) e dj unfolding fs by (auto intro!: exI [of _ d])
  next
    case False
    then show ?thesis
      using "1.prems" by (subst (asm) fragment_loop.simps) simp
  qed
qed

section \<open>Delivery\<close>

text \<open>The source's only buffer is the one under \<open>key\<close>, holding the positions \<open>C\<close> of the message.\<close>

definition holds_part :: "reassembler \<Rightarrow> string \<Rightarrow> reasm_key \<Rightarrow> bytes \<Rightarrow> nat set \<Rightarrow> int \<Rightarrow> bool" where
  "holds_part r src key msg C t0 \<longleftrightarrow>
     (\<exists>fb. map_of (bySource r) src = Some [(key, fb)] \<and> buffer_ok fb \<and> fb_total fb = length msg \<and>
        coverage fb = C \<and> fb_createdAt fb = t0 \<and> (\<forall>i\<in>C. fb_buf fb ! i = msg ! i))"

lemma evict_keeps:
  "map_of (bySource r) src = Some [(key, fb)] \<Longrightarrow> now \<le> fb_createdAt fb + reasm_timeout r \<Longrightarrow>
     map_of (bySource (evictExpiredLocked now r)) src = Some [(key, fb)]"
proof -
  assume "now \<le> fb_createdAt fb + reasm_timeout r"
  then have "map_of al src = Some [(key, fb)] \<Longrightarrow>
      map_of (filter (\<lambda>(src, bufs). bufs \<noteq> []) (map (\<lambda>(src, bufs).
        (src, filter (\<lambda>(k, fb). \<not> fb_createdAt fb < now - reasm_timeout r) bufs)) al)) src = Some [(key, fb)]" for al
    by (induction al) (auto split: if_splits)
  then show "map_of (bySource r) src = Some [(key, fb)] \<Longrightarrow> ?thesis"
    by (simp add: evictExpiredLocked_def)
qed

lemma evict_absent:
  "map_of (bySource r) src = None \<Longrightarrow> map_of (bySource (evictExpiredLocked now r)) src = None"
  by (force simp: evictExpiredLocked_def map_of_eq_None_iff)

lemma evict_length: "length (bySource (evictExpiredLocked now r)) \<le> length (bySource r)"
  using length_filter_le [of _ "map _ (bySource r)"]
  unfolding evictExpiredLocked_def Let_def by (simp del: filter_map)

lemma piece_copy:
  assumes "is_piece key msg h frag" "buffer_ok fb" "fb_total fb = length msg" "i < length msg"
    "i \<in> coverage fb \<Longrightarrow> fb_buf fb ! i = msg ! i"
    and off: "off = unat (hh_FragOffset h)"
    and i: "i \<in> coverage fb \<union> {off..<off + length frag}"
  shows "(take off (fb_buf fb) @ frag @ drop (off + length frag) (fb_buf fb)) ! i = msg ! i"
proof -
  have l: "length (fb_buf fb) = length msg" "off + length frag \<le> length msg"
    using assms by (auto simp: buffer_ok_def is_piece_def)
  have f: "frag ! j = msg ! (off + j)" if "j < length frag" for j
  proof -
    have "frag = take (length frag) (drop off msg)"
      using assms(1) off by (simp add: is_piece_def)
    then have "frag ! j = take (length frag) (drop off msg) ! j"
      by simp
    then show ?thesis
      using that l by simp
  qed
  show ?thesis
    using l f [of "i - off"] i assms(4,5)
    by (cases "i < off"; cases "i < off + length frag") (auto simp: nth_append)
qed

text \<open>One fragment of the message arrives, for a buffer that exists or is created now.\<close>

lemma Add_piece:
  assumes piece: "is_piece key msg h frag" and r1: "r1 = evictExpiredLocked now r"
    and lim: "0 < maxConcurrentPerSource r" "length msg \<le> maxMessageSize r" "0 < length msg"
    and st: "map_of (bySource r1) src = Some [(key, fb)] \<or>
      map_of (bySource r1) src = None \<and> length (bySource r1) < maxSources r1 \<and>
      fb = new_fragment_buffer (length msg) now"
    and fb: "buffer_ok fb" "fb_total fb = length msg" "\<forall>i\<in>coverage fb. fb_buf fb ! i = msg ! i"
  defines "C \<equiv> coverage fb \<union> {unat (hh_FragOffset h)..<unat (hh_FragOffset h) + unat (hh_FragLength h)}"
  shows "C \<noteq> {..<length msg} \<Longrightarrow> fst (Add now r src h frag) = Inr None \<and>
      holds_part (snd (Add now r src h frag)) src key msg C (fb_createdAt fb)"
    and "C = {..<length msg} \<Longrightarrow> fst (Add now r src h frag) = Inr (Some msg) \<and>
      map_of (bySource (snd (Add now r src h frag))) src = None"
proof -
  note p = piece [unfolded is_piece_def]
  let ?off = "unat (hh_FragOffset h)"
  have key: "\<lparr>rk_sender = hh_SenderIndex h, rk_msg = hh_MsgType h\<rparr> = key"
    using p by simp
  obtain fb' where s: "store_fragment fb ?off frag = Inr fb'" "buffer_ok fb'" "fb_total fb' = length msg"
      "fb_createdAt fb' = fb_createdAt fb" "coverage fb' = C"
      "fb_buf fb' = take ?off (fb_buf fb) @ frag @ drop (?off + length frag) (fb_buf fb)"
    using store_fragment_ok [OF fb(1), of ?off frag] p fb(2) unfolding C_def by metis
  have C: "C \<subseteq> {..<length msg}"
    using coverage_subset [of fb'] s(3,5) by simp
  then have buf: "\<forall>i\<in>C. fb_buf fb' ! i = msg ! i"
    unfolding s(6) using p fb by (intro ballI piece_copy [OF piece]) (auto simp: C_def)
  have full: "fb_coveredN fb' < fb_total fb' \<longleftrightarrow> C \<noteq> {..<length msg}"
    using coverage_full [OF s(2)] s(3,5) by auto
  have add: "Add now r src h frag = (if C \<noteq> {..<length msg}
      then (Inr None, r1\<lparr>bySource := AList.update src [(key, fb')] (bySource r1)\<rparr>)
      else (Inr (Some (fb_buf fb')), r1\<lparr>bySource := AList.delete src (bySource r1)\<rparr>))"
  proof (cases "map_of (bySource r1) src")
    case None
    then have "fb = new_fragment_buffer (length msg) now" "\<not> maxSources r1 \<le> length (bySource r1)"
      using st by auto
    then show ?thesis
      unfolding Add_def Let_def r1 [symmetric] key None using lim p s(1,3) fb(2) full r1
      by (simp add: r1)
  next
    case (Some b)
    then have "b = [(key, fb)]"
      using st by auto
    then show ?thesis
      unfolding Add_def Let_def r1 [symmetric] key Some using lim p s(1,3) fb(2) full
      by simp
  qed
  show "C \<noteq> {..<length msg} \<Longrightarrow> fst (Add now r src h frag) = Inr None \<and>
      holds_part (snd (Add now r src h frag)) src key msg C (fb_createdAt fb)"
    using add s buf by (auto simp: holds_part_def AList.update_conv')
  assume f: "C = {..<length msg}"
  then have "fb_buf fb' = msg"
    using buf s(2,3) by (intro nth_equalityI) (auto simp: buffer_ok_def)
  then show "fst (Add now r src h frag) = Inr (Some msg) \<and>
      map_of (bySource (snd (Add now r src h frag))) src = None"
    using add f by (simp add: AList.delete_conv')
qed

text \<open>Raw frames from one source, each with its arrival time: parsed, then added.\<close>

primrec deliver :: "reassembler \<Rightarrow> string \<Rightarrow> (int \<times> bytes) list \<Rightarrow> bytes option res list \<times> reassembler" where
  "deliver r src [] = ([], r)"
| "deliver r src (x # xs) =
     (case ParseDatagramHandshake (snd x) of
        Inl e \<Rightarrow> (let (rs, r') = deliver r src xs in (Inl e # rs, r'))
      | Inr (h, frag) \<Rightarrow>
          (let (res, r') = Add (fst x) r src h frag; (rs, r'') = deliver r' src xs in (res # rs, r'')))"

lemma deliver_append:
  "deliver r src (xs @ ys) =
     (let (rs, r') = deliver r src xs; (rs', r'') = deliver r' src ys in (rs @ rs', r''))"
  by (induction xs arbitrary: r) (auto simp: Let_def split: sum.splits prod.splits)

lemma holds_part_Add:
  assumes "holds_part r src key msg C t0" "frame_piece key msg f" "t \<le> t0 + reasm_timeout r"
    "0 < maxConcurrentPerSource r" "length msg \<le> maxMessageSize r"
  obtains r' where "reasm_timeout r' = reasm_timeout r" "maxConcurrentPerSource r' = maxConcurrentPerSource r"
    "maxMessageSize r' = maxMessageSize r"
    "C \<union> frame_range f \<noteq> {..<length msg} \<Longrightarrow>
       deliver r src [(t, f)] = ([Inr None], r') \<and> holds_part r' src key msg (C \<union> frame_range f) t0"
    "C \<union> frame_range f = {..<length msg} \<Longrightarrow>
       deliver r src [(t, f)] = ([Inr (Some msg)], r') \<and> map_of (bySource r') src = None"
proof -
  obtain fb where fb: "map_of (bySource r) src = Some [(key, fb)]" "buffer_ok fb" "fb_total fb = length msg"
      "coverage fb = C" "fb_createdAt fb = t0" "\<forall>i\<in>C. fb_buf fb ! i = msg ! i"
    using assms(1) by (auto simp: holds_part_def)
  obtain h frag where f: "ParseDatagramHandshake f = Inr (h, frag)" "is_piece key msg h frag"
    using assms(2) by (auto simp: frame_piece_def split: sum.splits)
  have "map_of (bySource (evictExpiredLocked t r)) src = Some [(key, fb)]"
    using fb(1,5) assms(3) by (intro evict_keeps) auto
  note a = Add_piece [OF f(2) refl assms(4,5) _ disjI1 [OF this] fb(2,3)]
  have "0 < length msg"
    using fb(2,3) by (simp add: buffer_ok_def)
  note a = a [OF this]
  show ?thesis
    using a fb f by (intro that [of "snd (Add t r src h frag)"]) (auto simp: frame_range_def split: prod.splits)
qed

lemma deliver_partial:
  assumes "holds_part r src key msg C t0" "0 < maxConcurrentPerSource r" "length msg \<le> maxMessageSize r"
    and "\<forall>x\<in>set xs. frame_piece key msg (snd x) \<and> fst x \<le> t0 + reasm_timeout r"
    and "i < length msg" "i \<notin> C" "\<forall>x\<in>set xs. i \<notin> frame_range (snd x)"
  shows "\<exists>r'. deliver r src xs = (replicate (length xs) (Inr None), r') \<and>
    holds_part r' src key msg (C \<union> (\<Union>x\<in>set xs. frame_range (snd x))) t0 \<and>
    reasm_timeout r' = reasm_timeout r \<and> maxConcurrentPerSource r' = maxConcurrentPerSource r \<and>
    maxMessageSize r' = maxMessageSize r"
  using assms
proof (induction xs arbitrary: r C)
  case (Cons x xs)
  have ne: "C \<union> frame_range (snd x) \<noteq> {..<length msg}"
    using Cons.prems(5,6,7) by auto
  obtain r1 where r1: "reasm_timeout r1 = reasm_timeout r" "maxConcurrentPerSource r1 = maxConcurrentPerSource r"
      "maxMessageSize r1 = maxMessageSize r" "deliver r src [x] = ([Inr None], r1)"
      "holds_part r1 src key msg (C \<union> frame_range (snd x)) t0"
    using holds_part_Add [OF Cons.prems(1), of "snd x" "fst x"] Cons.prems(2-4) ne
    by (metis list.set_intros(1) prod.collapse)
  obtain r2 where r2: "deliver r1 src xs = (replicate (length xs) (Inr None), r2)"
      "holds_part r2 src key msg (C \<union> frame_range (snd x) \<union> (\<Union>x\<in>set xs. frame_range (snd x))) t0"
      "reasm_timeout r2 = reasm_timeout r1" "maxConcurrentPerSource r2 = maxConcurrentPerSource r1"
      "maxMessageSize r2 = maxMessageSize r1"
    using Cons.IH [OF r1(5)] Cons.prems r1 by auto
  have "deliver r src (x # xs) = (replicate (length (x # xs)) (Inr None), r2)"
    using deliver_append [of r src "[x]" xs] r1(4) r2(1) by simp
  then show ?case
    using r2 r1 by (intro exI [of _ r2]) (simp add: Un_assoc)
qed auto

text \<open>The first fragment, arriving at a source that is not known yet.\<close>

definition room_for :: "reassembler \<Rightarrow> string \<Rightarrow> bytes \<Rightarrow> bool" where
  "room_for r src msg \<longleftrightarrow> map_of (bySource r) src = None \<and> length (bySource r) < maxSources r \<and>
     0 < maxConcurrentPerSource r \<and> 0 < length msg \<and> length msg \<le> maxMessageSize r"

lemma first_Add:
  assumes r: "room_for r src msg" and z: "frame_piece key msg f"
  obtains r' where "reasm_timeout r' = reasm_timeout r" "maxConcurrentPerSource r' = maxConcurrentPerSource r"
    "maxMessageSize r' = maxMessageSize r"
    "frame_range f \<noteq> {..<length msg} \<Longrightarrow>
       deliver r src [(t, f)] = ([Inr None], r') \<and> holds_part r' src key msg (frame_range f) t"
    "frame_range f = {..<length msg} \<Longrightarrow>
       deliver r src [(t, f)] = ([Inr (Some msg)], r') \<and> map_of (bySource r') src = None"
proof -
  note r = r [unfolded room_for_def]
  obtain h frag where f: "ParseDatagramHandshake f = Inr (h, frag)" "is_piece key msg h frag"
    using z by (auto simp: frame_piece_def split: sum.splits)
  let ?fb = "new_fragment_buffer (length msg) t"
  have fb: "buffer_ok ?fb" "coverage ?fb = {}" "fb_total ?fb = length msg" "fb_createdAt ?fb = t"
    using new_buffer_ok [of "length msg" t] r by (auto simp: new_fragment_buffer_def)
  have st: "map_of (bySource (evictExpiredLocked t r)) src = Some [(key, ?fb)] \<or>
      map_of (bySource (evictExpiredLocked t r)) src = None \<and>
      length (bySource (evictExpiredLocked t r)) < maxSources (evictExpiredLocked t r) \<and> ?fb = ?fb"
    using evict_absent [of r src t] evict_length [of t r] r by auto
  have rng: "frame_range f = coverage ?fb \<union> {unat (hh_FragOffset h)..<unat (hh_FragOffset h) + unat (hh_FragLength h)}"
    using f fb by (simp add: frame_range_def)
  have l: "0 < maxConcurrentPerSource r" "length msg \<le> maxMessageSize r" "0 < length msg"
    using r by auto
  note a = Add_piece [OF f(2) refl l st fb(1,3), folded rng, unfolded fb(4)]
  show ?thesis
    using a fb(2) f by (intro that [of "snd (Add t r src h frag)"]) (auto split: prod.splits)
qed

text \<open>The whole message.\<close>

lemma deliver_message:
  assumes r: "room_for r src msg"
    and xs: "\<forall>x\<in>set (xs @ [y]). frame_piece key msg (snd x) \<and> fst x \<le> t + reasm_timeout r"
    and t: "t = fst (hd (xs @ [y]))"
    and cov: "(\<Union>x\<in>set (xs @ [y]). frame_range (snd x)) = {..<length msg}"
    and last: "i < length msg" "\<forall>x\<in>set xs. i \<notin> frame_range (snd x)"
  shows "\<exists>r'. deliver r src (xs @ [y]) = (replicate (length xs) (Inr None) @ [Inr (Some msg)], r') \<and>
    map_of (bySource r') src = None"
proof (cases xs)
  case Nil
  then have y: "y = (t, snd y)" "frame_range (snd y) = {..<length msg}" "frame_piece key msg (snd y)"
    using cov t xs by simp_all
  obtain r' where "deliver r src [(t, snd y)] = ([Inr (Some msg)], r')" "map_of (bySource r') src = None"
    using first_Add [OF r y(3), of t] y(2) by metis
  then show ?thesis
    using Nil y(1) by (intro exI [of _ r']) simp
next
  case (Cons x xs')
  have x: "x = (t, snd x)" "frame_piece key msg (snd x)"
    using Cons t xs by simp_all
  have ix: "i \<notin> frame_range (snd x)" "\<forall>x\<in>set xs'. i \<notin> frame_range (snd x)"
    using last(2) Cons by simp_all
  then have ne: "frame_range (snd x) \<noteq> {..<length msg}"
    using last(1) by auto
  obtain r1 where r1: "reasm_timeout r1 = reasm_timeout r" "maxConcurrentPerSource r1 = maxConcurrentPerSource r"
      "maxMessageSize r1 = maxMessageSize r" "deliver r src [x] = ([Inr None], r1)"
      "holds_part r1 src key msg (frame_range (snd x)) t"
    using first_Add [OF r x(2), of t] ne x(1) by metis
  have l: "0 < maxConcurrentPerSource r1" "length msg \<le> maxMessageSize r1"
    using r r1 by (simp_all add: room_for_def)
  have "\<forall>x\<in>set xs'. frame_piece key msg (snd x) \<and> fst x \<le> t + reasm_timeout r1"
    using xs Cons r1(1) by simp
  from deliver_partial [OF r1(5) l this last(1) ix] obtain r2 where
      r2: "deliver r1 src xs' = (replicate (length xs') (Inr None), r2)"
        "holds_part r2 src key msg (frame_range (snd x) \<union> (\<Union>x\<in>set xs'. frame_range (snd x))) t"
        "reasm_timeout r2 = reasm_timeout r1" "maxConcurrentPerSource r2 = maxConcurrentPerSource r1"
        "maxMessageSize r2 = maxMessageSize r1"
    by blast
  have y: "frame_piece key msg (snd y)" "fst y \<le> t + reasm_timeout r2"
    "frame_range (snd x) \<union> (\<Union>x\<in>set xs'. frame_range (snd x)) \<union> frame_range (snd y) = {..<length msg}"
    using xs cov Cons r1(1) r2(3) by auto
  obtain r3 where r3: "deliver r2 src [(fst y, snd y)] = ([Inr (Some msg)], r3)" "map_of (bySource r3) src = None"
    using holds_part_Add [OF r2(2) y(1,2)] l r2(4,5) y(3) by metis
  have "deliver r src (xs @ [y]) = (replicate (length xs) (Inr None) @ [Inr (Some msg)], r3)"
    using deliver_append [of r src "[x]" "xs' @ [y]"] deliver_append [of r1 src xs' "[y]"]
      r1(4) r2(1) r3(1) Cons by simp
  then show ?thesis
    using r3(2) by blast
qed

section \<open>Properties\<close>

lemma fragment_loop_succeeds:
  assumes "length (hh_Cookie b) \<le> 255"
  shows "\<exists>fs. fragment_loop b msg pad maxFrag off sq = Inr fs"
  using assms
proof (induction b msg pad maxFrag off sq rule: fragment_loop.induct)
  case (1 b msg pad maxFrag off sq)
  show ?case
  proof (cases "off < length msg \<and> 0 < maxFrag")
    case True
    define e where "e = min (off + maxFrag) (length msg)"
    obtain d where d: "EncodeDatagramHandshake (b\<lparr>dh_Seq := sq, hh_FragOffset := word_of_nat off,
        hh_FragLength := word_of_nat (e - off), hh_TotalLength := word_of_nat (length msg)\<rparr>)
        (take (e - off) (drop off msg)) = Inr d"
      using "1.prems" by (simp add: EncodeDatagramHandshake_def Let_def)
    with "1.IH" [OF True e_def refl d "1.prems"] show ?thesis
      using True by (subst fragment_loop.simps) (auto simp: Let_def e_def)
  next
    case False
    then show ?thesis
      by (subst fragment_loop.simps) auto
  qed
qed

lemma fragment_loop_cookie:
  "fragment_loop b msg pad maxFrag off sq = Inr fs \<Longrightarrow> off < length msg \<Longrightarrow> 0 < maxFrag \<Longrightarrow>
     length (hh_Cookie b) \<le> 255"
  by (subst (asm) fragment_loop.simps) (auto simp: result_simps EncodeDatagramHandshake_def Let_def)

lemma fragmentHandshake_loop:
  assumes "fragmentHandshake b msg pad = Inr frames"
  obtains maxFrag where "fragment_loop b msg pad maxFrag 0 (dh_Seq b) = Inr frames" "0 < maxFrag"
    "26 + length (hh_Cookie b) + maxFrag = DatagramMTU" "0 < length msg" "length msg \<le> 4096"
  using assms
  by (intro that [of "nat (maxHandshakeFragmentPayload (length (hh_Cookie b)))"])
    (auto simp: fragmentHandshake_def result_simps maxHandshakeFragmentPayload_def constant_defs Let_def)

lemma pad_frame_length:
  "length d \<le> DatagramMTU \<Longrightarrow> length (pad_frame pad d) \<le> DatagramMTU \<and> (pad \<longrightarrow> length (pad_frame pad d) = DatagramMTU)"
  by (auto simp: pad_frame_def)

text \<open>
  The fragmenter accepts exactly the messages of 1 to 4096 bytes with a cookie of at most 255
  bytes, and every frame it makes fits one datagram of the MTU; with padding on, every frame is
  exactly the MTU.
\<close>

theorem fragment_frames_fit:
  "((\<exists>frames. fragmentHandshake b msg pad = Inr frames) \<longleftrightarrow>
      0 < length msg \<and> length msg \<le> 4096 \<and> length (hh_Cookie b) \<le> 255) \<and>
   (\<forall>frames. fragmentHandshake b msg pad = Inr frames \<longrightarrow>
      (\<forall>f\<in>set frames. length f \<le> DatagramMTU \<and> (pad \<longrightarrow> length f = DatagramMTU)))"
proof -
  have "0 < length msg \<and> length msg \<le> 4096 \<and> length (hh_Cookie b) \<le> 255"
    if "fragmentHandshake b msg pad = Inr frames" for frames
    using that by (rule fragmentHandshake_loop) (use fragment_loop_cookie in auto)
  moreover have "\<exists>frames. fragmentHandshake b msg pad = Inr frames"
    if "0 < length msg" "length msg \<le> 4096" "length (hh_Cookie b) \<le> 255"
    using that fragment_loop_succeeds
    by (auto simp: fragmentHandshake_def maxHandshakeFragmentPayload_def constant_defs Let_def)
  moreover have "length f \<le> DatagramMTU \<and> (pad \<longrightarrow> length f = DatagramMTU)"
    if fr: "fragmentHandshake b msg pad = Inr frames" and fin: "f \<in> set frames" for frames f
    using fr
  proof (rule fragmentHandshake_loop)
    fix k assume k: "fragment_loop b msg pad k 0 (dh_Seq b) = Inr frames" "0 < k"
      "26 + length (hh_Cookie b) + k = DatagramMTU" "length msg \<le> 4096"
    obtain d where "f = pad_frame pad d" "length d \<le> DatagramMTU"
      using fragment_loop_spec [OF k(1,4,2)] fin k(3) by metis
    then show ?thesis
      using pad_frame_length by blast
  qed
  ultimately show ?thesis
    by blast
qed

definition sample_handshake_header :: datagram_handshake_header where
  "sample_handshake_header = \<lparr>dh_Type = 1, dh_Epoch = 0, dh_RecvIndex = 0, dh_Seq = 0, hh_SenderIndex = 4,
    hh_MsgType = 1, hh_FragOffset = 0, hh_FragLength = 0, hh_TotalLength = 0, hh_Cookie = []\<rparr>"

theorem fragment_frames_fit_witness:
  "\<exists>frames. fragmentHandshake sample_handshake_header [1, 2, 3] True = Inr frames \<and>
     (\<forall>f\<in>set frames. length f = DatagramMTU)"
  using fragment_frames_fit [of sample_handshake_header "[1, 2, 3]" True]
  by (simp add: sample_handshake_header_def) blast

text \<open>
  C7: The frames of a message reassemble to the message: they may arrive in any order and any of
  them any number of times, as long as the source has no buffer yet, there is room for one more
  source, and no fragment comes later than the timeout after the first.  Every fragment but the
  last missing one reports an incomplete message; the last returns the message and leaves no
  state behind.
\<close>

theorem fragments_reassemble:
  assumes "fragmentHandshake b msg pad = Inr frames" "room_for r src msg"
    and "snd ` set (xs @ [y]) = set frames" "snd y \<notin> snd ` set xs"
    and "\<forall>x\<in>set (xs @ [y]). fst x \<le> fst (hd (xs @ [y])) + reasm_timeout r"
  shows "\<exists>r'. deliver r src (xs @ [y]) = (replicate (length xs) (Inr None) @ [Inr (Some msg)], r') \<and>
    map_of (bySource r') src = None"
  using assms(1)
proof (rule fragmentHandshake_loop)
  fix k assume k: "fragment_loop b msg pad k 0 (dh_Seq b) = Inr frames" "0 < k" "length msg \<le> 4096"
  note sp = fragment_loop_spec [OF k(1,3,2)]
  have y: "snd y \<in> set frames"
    using assms(3) by auto
  have ne: "snd x \<in> set frames" "snd x \<noteq> snd y" if "x \<in> set xs" for x
    using that assms(3) by auto (metis assms(4) imageI that)
  obtain i where i: "i \<in> frame_range (snd y)"
    using sp y by blast
  have i1: "i < length msg"
    using sp y i by fastforce
  have i2: "\<forall>x\<in>set xs. i \<notin> frame_range (snd x)"
    using sp y i ne by blast
  have u: "(\<Union>x\<in>set (xs @ [y]). frame_range (snd x)) = {..<length msg}"
  proof -
    have "(\<Union>x\<in>set (xs @ [y]). frame_range (snd x)) = (\<Union>f\<in>snd ` set (xs @ [y]). frame_range f)"
      by auto
    then show ?thesis
      unfolding assms(3) using sp by (simp add: atLeast0LessThan)
  qed
  have pc: "\<forall>x\<in>set (xs @ [y]).
      frame_piece \<lparr>rk_sender = hh_SenderIndex b, rk_msg = hh_MsgType b\<rparr> msg (snd x) \<and>
      fst x \<le> fst (hd (xs @ [y])) + reasm_timeout r"
    using sp assms(3,5) by blast
  show ?thesis
    using assms(2) pc refl u i1 i2 by (rule deliver_message)
qed

theorem fragments_reassemble_witness:
  "\<exists>msg frames xs y r'. length msg = 3000 \<and>
     fragmentHandshake sample_handshake_header msg False = Inr frames \<and>
     room_for (NewReassembler 0 0 0) ''peer'' msg \<and> snd ` set (xs @ [y]) = set frames \<and>
     snd y \<notin> snd ` set xs \<and>
     deliver (NewReassembler 0 0 0) ''peer'' (xs @ [y])
       = (replicate (length xs) (Inr None) @ [Inr (Some msg)], r')"
proof -
  obtain msg :: bytes where m: "length msg = 3000"
    using Ex_list_of_length by blast
  have r: "room_for (NewReassembler 0 0 0) ''peer'' msg"
    using m by (simp add: room_for_def NewReassembler_def constant_defs)
  obtain fs where f: "fragment_loop sample_handshake_header msg False 1174 0 0 = Inr fs"
    using fragment_loop_succeeds [of sample_handshake_header msg False 1174 0 0]
    by (auto simp: sample_handshake_header_def)
  then have f: "fragmentHandshake sample_handshake_header msg False = Inr fs"
    using m by (simp add: fragmentHandshake_def maxHandshakeFragmentPayload_def constant_defs
        sample_handshake_header_def)
  have "fs \<noteq> []"
    using fragment_loop_spec [of sample_handshake_header msg False _ 0 _ fs] f m
    by (auto elim!: fragmentHandshake_loop)
  then obtain y where y: "y \<in> set fs"
    by (cases fs) auto
  let ?xs = "map (Pair 0) (filter (\<lambda>x. x \<noteq> y) fs)"
  have a: "snd ` set (?xs @ [(0, y)]) = set fs" and b: "snd (0::int, y) \<notin> snd ` set ?xs"
    using y by force+
  have c: "\<forall>x\<in>set (?xs @ [(0, y)]). fst x \<le> fst (hd (?xs @ [(0, y)])) + reasm_timeout (NewReassembler 0 0 0)"
    by (cases "filter (\<lambda>x. x \<noteq> y) fs") (auto simp: NewReassembler_def constant_defs)
  show ?thesis
    using fragments_reassemble [OF f r a b c] a b m r f by (elim exE conjE, intro exI conjI)
qed

text \<open>
  C11: Whatever fragments arrive from whatever sources in whatever order, the reassembler created
  with default limits never panics, tracks at most 1024 sources and never buffers more than
  1024 * 4 * 4096 bytes.
\<close>

theorem reassembler_bounded:
  "sourceCount (fold reasm_step ops (NewReassembler 0 0 0)) \<le> 1024 \<and>
   buffered (fold reasm_step ops (NewReassembler 0 0 0)) \<le> 1024 * (4 * 4096) \<and>
   fst (Add now (fold reasm_step ops (NewReassembler 0 0 0)) src h frag) \<noteq> Inl Panic"
proof -
  have ok: "reasm_ok (fold reasm_step ops (NewReassembler 0 0 0))"
    by (intro reasm_run_ok NewReassembler_ok)
  have lim: "maxSources (NewReassembler 0 0 0) = 1024" "maxConcurrentPerSource (NewReassembler 0 0 0) = 4"
    "maxMessageSize (NewReassembler 0 0 0) = 4096"
    by (simp_all add: NewReassembler_def constant_defs)
  show ?thesis
    using ok buffered_le [OF ok] Add_ok [OF ok] by (simp add: lim sourceCount_def reasm_ok_def)
qed

end
