(* ===== verification/Float64.thy ===== *)
theory Float64
  imports Prelude Complex_Main "HOL-Library.Log_Nat" "HOL-Library.Signed_Division"
begin

text \<open>
  The \<open>float64\<close> arithmetic the limiter uses: IEEE 754 binary64 with rounding to nearest, ties to even.
  A value is a rational, an infinity or NaN; the sign of zero, which no operation here observes, is
  dropped.  Each operation computes exactly and rounds once.  Shown: the error of a rounding, that it
  respects integer lower bounds, and that integers up to 2^53 are exact.  Also \<open>time.Duration.Seconds\<close>.
\<close>

datatype float64 = Flt rat | PlusInf | MinusInf | NaN

section \<open>Rounding\<close>

text \<open>The exponent of a positive rational: the largest \<open>e\<close> with \<open>2^e \<le> x\<close>.\<close>

definition ilog2 :: "rat \<Rightarrow> int" where
  "ilog2 x = (case quotient_of x of (a, b) \<Rightarrow>
     let k = int (floorlog 2 (nat a)) - int (floorlog 2 (nat b)) in if 2 powi k \<le> x then k else k - 1)"

definition round_even :: "rat \<Rightarrow> int" where
  "round_even q =
     (let f = \<lfloor>q\<rfloor>; r = q - of_int f in
      if r < 1 / 2 then f else if r > 1 / 2 then f + 1 else if even f then f else f + 1)"

text \<open>53 significant bits, least exponent -1074; 2^1024 and beyond is infinite.\<close>

definition f64_minexp :: int where "f64_minexp = - 1074"
definition f64_limit :: rat where "f64_limit = 2 powi 1024"

definition f64_round :: "rat \<Rightarrow> float64" where
  "f64_round x =
     (if x = 0 then Flt 0
      else
        (let e = max (ilog2 \<bar>x\<bar> - 52) f64_minexp; y = of_int (round_even (x / 2 powi e)) * 2 powi e in
         if \<bar>y\<bar> \<ge> f64_limit then (if x > 0 then PlusInf else MinusInf) else Flt y))"

section \<open>Operations\<close>

definition f64_of_int :: "int \<Rightarrow> float64" where
  "f64_of_int n = f64_round (of_int n)"

fun f64_add :: "float64 \<Rightarrow> float64 \<Rightarrow> float64" where
  "f64_add NaN _ = NaN"
| "f64_add _ NaN = NaN"
| "f64_add (Flt a) (Flt b) = f64_round (a + b)"
| "f64_add PlusInf MinusInf = NaN"
| "f64_add MinusInf PlusInf = NaN"
| "f64_add PlusInf _ = PlusInf"
| "f64_add _ PlusInf = PlusInf"
| "f64_add MinusInf _ = MinusInf"
| "f64_add _ MinusInf = MinusInf"

text \<open>The sign of a value other than NaN, for products with an infinity.\<close>

fun f64_sgn :: "float64 \<Rightarrow> rat" where
  "f64_sgn (Flt a) = sgn a"
| "f64_sgn PlusInf = 1"
| "f64_sgn MinusInf = - 1"
| "f64_sgn NaN = 0"

definition f64_mul :: "float64 \<Rightarrow> float64 \<Rightarrow> float64" where
  "f64_mul x y =
     (case (x, y) of
        (Flt a, Flt b) \<Rightarrow> f64_round (a * b)
      | _ \<Rightarrow> let s = f64_sgn x * f64_sgn y in if s > 0 then PlusInf else if s < 0 then MinusInf else NaN)"

text \<open>Division by the positive constant 1e9.\<close>

fun f64_div :: "float64 \<Rightarrow> rat \<Rightarrow> float64" where
  "f64_div (Flt a) d = f64_round (a / d)"
| "f64_div x d = x"

fun f64_less :: "float64 \<Rightarrow> float64 \<Rightarrow> bool" where
  "f64_less NaN _ \<longleftrightarrow> False"
| "f64_less _ NaN \<longleftrightarrow> False"
| "f64_less (Flt a) (Flt b) \<longleftrightarrow> a < b"
| "f64_less MinusInf y \<longleftrightarrow> y \<noteq> MinusInf"
| "f64_less x PlusInf \<longleftrightarrow> x \<noteq> PlusInf"
| "f64_less _ _ \<longleftrightarrow> False"

definition f64_le :: "float64 \<Rightarrow> float64 \<Rightarrow> bool" where
  "f64_le x y \<longleftrightarrow> f64_less x y \<or> x = y \<and> x \<noteq> NaN"

text \<open>\<open>Duration.Seconds\<close>: whole seconds and nanoseconds are converted apart; division truncates.\<close>

definition duration_Seconds :: "int \<Rightarrow> float64" where
  "duration_Seconds d = f64_add (f64_of_int (d sdiv 1000000000)) (f64_div (f64_of_int (d smod 1000000000)) 1000000000)"

section \<open>Facts\<close>

lemma f64_le_Flt [simp]: "f64_le (Flt a) (Flt b) \<longleftrightarrow> a \<le> b"
  by (auto simp: f64_le_def)

lemma ilog2_le:
  assumes "0 < x"
  shows "2 powi ilog2 x \<le> x"
proof -
  obtain a b where ab: "quotient_of x = (a, b)"
    by fastforce
  have x: "x = of_int a / of_int b" "0 < b"
    using ab by (simp_all add: quotient_of_div quotient_of_denom_pos)
  then have a: "0 < a"
    using assms by (simp add: zero_less_divide_iff)
  define A B where "A = floorlog 2 (nat a)" "B = floorlog 2 (nat b)"
  have "A \<noteq> 0"
    using a by (simp add: A_B_def floorlog_eq_zero_iff)
  then have A: "1 \<le> A" "2 ^ (A - 1) \<le> nat a" and B: "nat b < 2 ^ B"
    using floorlog_bounds [of "nat a" 2] floorlog_bounds [of "nat b" 2] a x(2) by (simp_all add: A_B_def)
  have "of_nat (2 ^ (A - 1)) \<le> (of_nat (nat a) :: rat)" "of_nat (nat b) \<le> (of_nat (2 ^ B) :: rat)"
    using A(2) B by (simp_all only: of_nat_le_iff less_imp_le)
  moreover have "(2 :: rat) powi (int A - 1) = 2 ^ (A - 1)"
    using A(1) by (metis of_nat_1 of_nat_diff power_int_of_nat)
  ultimately have "(2 :: rat) powi (int A - 1) \<le> of_int a" "of_int b \<le> (2 :: rat) powi int B"
    using a x(2) by simp_all
  then have "(2 :: rat) powi (int A - 1) / 2 powi int B \<le> x"
    unfolding x(1) using x(2) a by (intro frac_le) simp_all
  moreover have "(2 :: rat) powi (int A - int B - 1) = 2 powi (int A - 1) / 2 powi int B"
    by (metis diff_right_commute power_int_diff zero_neq_numeral)
  ultimately show ?thesis
    by (simp add: ilog2_def ab A_B_def Let_def)
qed

lemma round_even_err: "\<bar>of_int (round_even q) - q\<bar> \<le> 1 / 2"
proof -
  define f where "f = \<lfloor>q\<rfloor>"
  have "of_int f \<le> q" "q < of_int f + 1"
    using floor_correct [of q] by (simp_all add: f_def)
  then show ?thesis
    unfolding round_even_def Let_def f_def [symmetric] abs_le_iff by (auto split: if_split)
qed

lemma round_even_ge: "of_int k \<le> q \<Longrightarrow> k \<le> round_even q"
  using le_floor_iff [of k q] by (auto simp: round_even_def Let_def)

lemma round_even_of_int [simp]: "round_even (of_int k) = k"
  by (simp add: round_even_def)

text \<open>Half a unit in the last place: \<open>f64_eps\<close> relative to the value, and \<open>f64_tiny\<close> where it is subnormal.\<close>

definition f64_eps :: rat where "f64_eps = 2 powi (- 53)"
definition f64_tiny :: rat where "f64_tiny = 2 powi (- 1075)"

lemma powi_mono: "m \<le> n \<Longrightarrow> (2 :: rat) powi m \<le> 2 powi n"
  by (simp add: power_int_increasing)

lemma int_le_powi: "k \<le> 9007199254740992 \<Longrightarrow> of_int k \<le> (2 :: rat) powi 53"
proof -
  assume "k \<le> 9007199254740992"
  then have "of_int k \<le> (of_int 9007199254740992 :: rat)"
    by (simp only: of_int_le_iff)
  then show ?thesis
    by simp
qed

lemma powi_succ: "(2 :: rat) powi (n + 1) = 2 * 2 powi n"
  by (simp add: power_int_add)

lemma f64_consts:
  "0 < f64_eps" "0 < f64_tiny" "f64_tiny \<le> f64_eps * f64_eps" "0 < f64_limit" "f64_eps * 9007199254740992 = 1"
proof -
  show "f64_tiny \<le> f64_eps * f64_eps"
    unfolding f64_tiny_def f64_eps_def power_int_add [symmetric, of "2 :: rat", OF disjI1, OF zero_neq_numeral [symmetric]]
    by (rule powi_mono) simp
qed (simp_all add: f64_eps_def f64_tiny_def f64_limit_def power_int_minus)

text \<open>The rounding of a positive number, with its unit in the last place.\<close>

lemma f64_round_cases:
  assumes "0 < x"
  obtains e and y :: rat where "y = of_int (round_even (x / 2 powi e)) * 2 powi e"
    "2 powi (e + 52) \<le> x \<or> e = f64_minexp" "2 powi e / 2 \<le> x * f64_eps + f64_tiny" "\<bar>y - x\<bar> \<le> 2 powi e / 2"
    "f64_round x = (if y \<ge> f64_limit then PlusInf else Flt y)" "0 \<le> y"
proof -
  define e where "e = max (ilog2 x - 52) f64_minexp"
  define y :: rat where "y = of_int (round_even (x / 2 powi e)) * 2 powi e"
  have p: "(0 :: rat) < 2 powi e"
    by simp
  have c: "2 powi (e + 52) \<le> x \<or> e = f64_minexp"
    using ilog2_le [OF assms] by (auto simp: e_def max_def)
  have ulp: "2 powi e / 2 \<le> x * f64_eps + f64_tiny"
    using c
  proof
    assume "2 powi (e + 52) \<le> x"
    then have "2 powi (e + 52) * f64_eps \<le> x * f64_eps"
      using f64_consts(1) by (intro mult_right_mono) simp_all
    moreover have "(2 :: rat) powi (e + 52) * f64_eps = 2 powi (e - 1)"
      unfolding f64_eps_def by (subst power_int_add [symmetric]) simp_all
    ultimately show ?thesis
      using f64_consts(2) powi_succ [of "e - 1"] by simp
  next
    assume "e = f64_minexp"
    moreover have "2 powi f64_minexp / 2 = f64_tiny"
      using powi_succ [of "- 1075"] by (simp add: f64_minexp_def f64_tiny_def)
    ultimately show ?thesis
      using assms f64_consts(1) by (simp add: add_increasing)
  qed
  have "\<bar>of_int (round_even (x / 2 powi e)) - x / 2 powi e\<bar> * 2 powi e \<le> 1 / 2 * 2 powi e"
    using round_even_err [of "x / 2 powi e"] p by (intro mult_right_mono) simp_all
  moreover have "\<bar>of_int (round_even (x / 2 powi e)) - x / 2 powi e\<bar> * 2 powi e = \<bar>y - x\<bar>"
    using p by (simp add: y_def abs_mult_pos left_diff_distrib)
  ultimately have err: "\<bar>y - x\<bar> \<le> 2 powi e / 2"
    by simp
  have n: "0 \<le> y"
    using round_even_ge [of 0 "x / 2 powi e"] assms p by (simp add: y_def)
  moreover have "f64_round x = (if y \<ge> f64_limit then PlusInf else Flt y)"
    using assms n unfolding f64_round_def Let_def abs_of_pos [OF assms] e_def [symmetric] y_def [symmetric] by simp
  ultimately show ?thesis
    using that [OF y_def c ulp err] by simp
qed

lemma f64_round_err:
  assumes "0 \<le> x" "f64_round x = Flt y"
  shows "0 \<le> y" "y \<le> x + x * f64_eps + f64_tiny"
proof -
  have "0 \<le> y \<and> y \<le> x + x * f64_eps + f64_tiny"
  proof (cases "x = 0")
    case True
    then show ?thesis
      using assms(2) f64_consts(2) by (simp add: f64_round_def)
  next
    case False
    then have "0 < x"
      using assms(1) by simp
    then show ?thesis
    proof (rule f64_round_cases)
      fix e and z :: rat
      assume z: "2 powi e / 2 \<le> x * f64_eps + f64_tiny" "\<bar>z - x\<bar> \<le> 2 powi e / 2"
        "f64_round x = (if z \<ge> f64_limit then PlusInf else Flt z)" "0 \<le> z"
      moreover have "z = y"
        using z(3) assms(2) by (simp split: if_splits)
      ultimately show ?thesis
        unfolding abs_le_iff by linarith
    qed
  qed
  then show "0 \<le> y" "y \<le> x + x * f64_eps + f64_tiny"
    by simp_all
qed

lemma f64_round_finite:
  assumes "0 \<le> x" "f64_round x \<noteq> PlusInf"
  shows "\<exists>y. f64_round x = Flt y"
proof (cases "x = 0")
  case False
  then have "0 < x"
    using assms(1) by simp
  then show ?thesis
    by (rule f64_round_cases) (use assms(2) in \<open>simp split: if_splits\<close>)
qed (simp add: f64_round_def)

text \<open>Only numbers from about 2^1023 on round to infinity.\<close>

lemma f64_round_PlusInf:
  assumes "0 \<le> x" "f64_round x = PlusInf"
  shows "f64_limit \<le> x + x * f64_eps + f64_tiny"
proof -
  have "0 < x"
    using assms by (cases "x = 0") (auto simp: f64_round_def)
  then show ?thesis
  proof (rule f64_round_cases)
    fix e and z :: rat
    assume z: "2 powi e / 2 \<le> x * f64_eps + f64_tiny" "\<bar>z - x\<bar> \<le> 2 powi e / 2"
      "f64_round x = (if z \<ge> f64_limit then PlusInf else Flt z)"
    moreover have "f64_limit \<le> z"
      using z(3) assms(2) by (simp split: if_splits)
    ultimately show ?thesis
      unfolding abs_le_iff by linarith
  qed
qed

text \<open>Rounding does not cross an integer up to 2^53 from above, and leaves these integers as they are.\<close>

lemma scaled_int:
  fixes x :: rat
  assumes "e \<le> 0 \<or> 2 powi (e + 52) \<le> x" "of_int k \<le> x" "k \<le> 9007199254740992" "0 < x"
  obtains m where "of_int k \<le> of_int m * (2 :: rat) powi e" "of_int m \<le> x / 2 powi e"
    "e \<le> 0 \<Longrightarrow> of_int k = of_int m * (2 :: rat) powi e"
proof (cases "e \<le> 0")
  case True
  let ?m = "k * 2 ^ nat (- e)"
  have "2 ^ nat (- e) * (2 :: rat) powi e = 1"
    using True by (simp add: power_int_def power_one_over inverse_eq_divide)
  then have m: "of_int ?m * (2 :: rat) powi e = of_int k"
    by (simp add: mult.assoc)
  then have "of_int ?m = of_int k / (2 :: rat) powi e"
    by (simp add: nonzero_eq_divide_eq)
  also have "\<dots> \<le> x / 2 powi e"
    using assms(2) by (rule divide_right_mono) simp
  finally have "of_int ?m \<le> x / 2 powi e" .
  then show ?thesis
    using that [of ?m] unfolding m by blast
next
  case False
  have "of_int k \<le> (2 :: rat) powi 53"
    using assms(3) by (rule int_le_powi)
  also have "\<dots> \<le> 2 powi (52 + e)"
    using False by (intro powi_mono) simp
  also have "\<dots> = of_int (2 ^ 52) * 2 powi e"
    by (simp add: power_int_add)
  finally have k: "of_int k \<le> of_int (2 ^ 52) * (2 :: rat) powi e" .
  have "of_int (2 ^ 52) * 2 powi e \<le> x"
    using assms(1) False by (simp add: power_int_add)
  then have "of_int (2 ^ 52) \<le> x / 2 powi e"
    by (simp add: pos_le_divide_eq)
  then show ?thesis
    using that [OF k] False by simp
qed

lemma f64_round_ge:
  assumes "of_int k \<le> x" "k \<le> 9007199254740992" "0 < x" "f64_round x = Flt y"
  shows "of_int k \<le> y"
  using assms(3)
proof (rule f64_round_cases)
  fix e and z :: rat
  assume z: "z = of_int (round_even (x / 2 powi e)) * 2 powi e" "2 powi (e + 52) \<le> x \<or> e = f64_minexp"
    "f64_round x = (if z \<ge> f64_limit then PlusInf else Flt z)"
  have "z = y"
    using z(3) assms(4) by (simp split: if_splits)
  have "e \<le> 0 \<or> 2 powi (e + 52) \<le> x"
    using z(2) by (auto simp: f64_minexp_def)
  from scaled_int [OF this assms(1-3)] obtain m where m: "of_int k \<le> of_int m * (2 :: rat) powi e" "of_int m \<le> x / 2 powi e" .
  have "of_int m * 2 powi e \<le> z"
    unfolding z(1) using round_even_ge [OF m(2)] by (intro mult_right_mono) simp_all
  then show ?thesis
    using m(1) \<open>z = y\<close> by simp
qed

lemma f64_of_int_exact:
  assumes "0 \<le> k" "k \<le> 9007199254740992"
  shows "f64_of_int k = Flt (of_int k)"
proof (cases "k = 0")
  case False
  then have "0 < (of_int k :: rat)"
    using assms(1) by simp
  then show ?thesis
  proof (rule f64_round_cases)
    fix e and z :: rat
    assume z: "z = of_int (round_even (of_int k / 2 powi e)) * 2 powi e" "2 powi (e + 52) \<le> (of_int k :: rat) \<or> e = f64_minexp"
      "f64_round (of_int k) = (if z \<ge> f64_limit then PlusInf else Flt z)"
    have "e \<le> 1"
    proof (rule ccontr)
      assume "\<not> e \<le> 1"
      then have "(2 :: rat) powi 54 \<le> 2 powi (e + 52)"
        by (intro powi_mono) simp
      also have "\<dots> \<le> of_int k"
        using z(2) \<open>\<not> e \<le> 1\<close> by (auto simp: f64_minexp_def)
      finally show False
        using int_le_powi [OF assms(2)] by simp
    qed
    have "\<exists>m. of_int k = of_int m * (2 :: rat) powi e"
    proof (cases "e = 1")
      case True
      then have "of_int 9007199254740992 \<le> (of_int k :: rat)"
        using z(2) by (simp add: f64_minexp_def)
      then have "k = 9007199254740992"
        using assms(2) by (simp only: of_int_le_iff)
      moreover have "(of_int 9007199254740992 :: rat) = of_int 4503599627370496 * 2 powi 1"
        by simp
      ultimately show ?thesis
        using True by blast
    next
      case False
      then have "e \<le> 0"
        using \<open>e \<le> 1\<close> by simp
      from scaled_int [OF disjI1 [OF this], of k "of_int k"] assms(2) \<open>0 < (of_int k :: rat)\<close> \<open>e \<le> 0\<close> show ?thesis
        by blast
    qed
    then obtain m where m: "of_int k = of_int m * (2 :: rat) powi e" ..
    then have "z = of_int k"
      by (simp add: z(1))
    moreover have "of_int k < f64_limit"
    proof -
      have "(of_int k :: rat) < 2 powi 54"
        using int_le_powi [OF assms(2)] by simp
      also have "\<dots> \<le> f64_limit"
        unfolding f64_limit_def by (rule powi_mono) simp
      finally show ?thesis .
    qed
    ultimately show ?thesis
      using z(3) by (simp add: f64_of_int_def)
  qed
qed (simp add: f64_of_int_def f64_round_def)

text \<open>Sums and products of moderate numbers are finite.\<close>

lemma f64_round_small:
  assumes "0 \<le> x" "x \<le> 2 powi 64"
  obtains y where "f64_round x = Flt y" "0 \<le> y" "y \<le> x + x * f64_eps + f64_tiny"
proof -
  have s: "f64_eps \<le> 1" "f64_tiny \<le> 1" "(2 :: rat) powi 67 \<le> f64_limit"
    unfolding f64_eps_def f64_tiny_def f64_limit_def
    using powi_mono [of "- 53" 0] powi_mono [of "- 1075" 0] powi_mono [of 67 1024] by simp_all
  have "x * f64_eps \<le> x * 1"
    using s(1) assms(1) by (intro mult_left_mono) simp_all
  then have "x + x * f64_eps + f64_tiny < f64_limit"
    using s assms(2) by simp
  then have "f64_round x \<noteq> PlusInf"
    using f64_round_PlusInf [OF assms(1)] by force
  from f64_round_finite [OF assms(1) this] show ?thesis
    using that f64_round_err [OF assms(1)] by blast
qed

lemma duration_Seconds_le:
  assumes "0 \<le> d" "d < 2 ^ 63"
  obtains v where "duration_Seconds d = Flt v" "0 \<le> v" "v \<le> of_int d / 1000000000 + 5 * f64_eps * (of_int d / 1000000000)"
    "\<And>k. k * 1000000000 \<le> d \<Longrightarrow> k \<le> 9007199254740992 \<Longrightarrow> of_int k \<le> v"
proof -
  define sec ns where "sec = d div 1000000000" "ns = d mod 1000000000"
  define E q where "E = (of_int d / 1000000000 :: rat)" "q = (of_int ns / 1000000000 :: rat)"
  have d: "d sdiv 1000000000 = sec" "d smod 1000000000 = ns" "0 \<le> sec" "sec \<le> 9007199254740992" "0 \<le> ns" "ns < 1000000000"
    "d = sec * 1000000000 + ns"
    using assms by (simp_all add: sec_ns_def signed_divide_int_def signed_modulo_int_def sgn_if)
  have E: "E = of_int sec + q"
    unfolding E_q_def by (subst d(7)) (simp add: field_simps)
  have q: "0 \<le> q" "q \<le> 1"
    using d(5,6) by (simp_all add: E_q_def)
  have tiny: "f64_tiny \<le> x * f64_eps" if "x \<noteq> 0" "x = of_int k / 1000000000" "0 \<le> k" for x and k :: int
  proof -
    have "1 / 1000000000 \<le> x"
      using that by simp
    then have "f64_eps \<le> x"
      using f64_consts(5) by (simp add: f64_eps_def)
    then have "f64_eps * f64_eps \<le> x * f64_eps"
      using f64_consts(1) by (intro mult_right_mono) simp_all
    then show ?thesis
      using f64_consts(3) by simp
  qed
  have "q \<le> 2 powi 64"
    using q(2) by simp
  from f64_round_small [OF q(1) this] obtain w where w: "f64_round q = Flt w" "0 \<le> w" "w \<le> q + q * f64_eps + f64_tiny" .
  have w2: "w \<le> q + 2 * (q * f64_eps)"
  proof (cases "q = 0")
    case True
    then show ?thesis
      using w(1) by (simp add: f64_round_def)
  next
    case False
    then show ?thesis
      using w(3) tiny [OF False E_q_def(2) d(5)] by simp
  qed
  have e: "f64_eps \<le> 1 / 8"
    by (simp add: f64_eps_def)
  have "q * f64_eps \<le> 1 * (1 / 8)"
    using q e f64_consts(1) by (intro mult_mono) simp_all
  then have "of_int sec + w \<le> 2 powi 64"
    using w2 q(2) int_le_powi [OF d(4)] by simp
  moreover have s0: "0 \<le> of_int sec + w"
    using w(2) d(3) by simp
  ultimately obtain v where v: "f64_round (of_int sec + w) = Flt v" "0 \<le> v" "v \<le> (of_int sec + w) + (of_int sec + w) * f64_eps + f64_tiny"
    using f64_round_small by blast
  have ds: "duration_Seconds d = Flt v"
    using d(1-6) w(1) v(1) by (simp add: duration_Seconds_def f64_of_int_exact E_q_def)
  have qE: "q * f64_eps \<le> E * f64_eps" "0 \<le> E * f64_eps"
    using E d(3) q(1) f64_consts(1) by (simp_all add: mult_right_mono)
  then have sw: "of_int sec + w \<le> E + 2 * (E * f64_eps)"
    using w2 E by simp
  then have "(of_int sec + w) * f64_eps \<le> (E + 2 * (E * f64_eps)) * f64_eps"
    using f64_consts(1) by (intro mult_right_mono) simp_all
  also have "\<dots> = E * f64_eps + 2 * (E * f64_eps * f64_eps)"
    by (simp add: algebra_simps)
  also have "\<dots> \<le> E * f64_eps + 2 * (E * f64_eps * (1 / 8))"
    using qE(2) e by (intro add_left_mono mult_left_mono) simp_all
  finally have se: "(of_int sec + w) * f64_eps \<le> E * f64_eps + E * f64_eps / 4"
    by simp
  have "v \<le> E + 5 * f64_eps * E"
  proof (cases "E = 0")
    case True
    then have "of_int sec + w = 0"
      using sw s0 by simp
    then show ?thesis
      using v(1) True by (simp add: f64_round_def)
  next
    case False
    then show ?thesis
      using v(3) sw se tiny [OF False E_q_def(1) assms(1)] qE(2) by (simp add: mult.assoc mult.commute [of f64_eps])
  qed
  moreover have "of_int k \<le> v" if "k * 1000000000 \<le> d" "k \<le> 9007199254740992" for k
  proof -
    have "k \<le> sec"
      using that(1) d(6,7) by linarith
    then have k: "of_int k \<le> of_int sec + w"
      using w(2) by (simp add: add_increasing2)
    show ?thesis
      using f64_round_ge [OF k that(2) _ v(1)] k s0 v(1,2) by (cases "of_int sec + w = 0") (simp_all add: f64_round_def)
  qed
  ultimately show ?thesis
    using that [OF ds v(2)] by (simp add: E_q_def)
qed

text \<open>Comparing the seconds with a whole number is comparing the nanoseconds.\<close>

lemma duration_Seconds_ge:
  assumes "0 \<le> d" "d < 2 ^ 63" "0 \<le> k" "k \<le> 1000000"
  shows "f64_le (Flt (of_int k)) (duration_Seconds d) \<longleftrightarrow> k * 1000000000 \<le> d"
  using assms(1,2)
proof (rule duration_Seconds_le)
  fix v
  assume v: "duration_Seconds d = Flt v" "v \<le> of_int d / 1000000000 + 5 * f64_eps * (of_int d / 1000000000)"
    "\<And>k. k * 1000000000 \<le> d \<Longrightarrow> k \<le> 9007199254740992 \<Longrightarrow> of_int k \<le> v"
  have "v < of_int k" if "d < k * 1000000000"
  proof -
    define E where "E = (of_int d / 1000000000 :: rat)"
    have "(of_int (d + 1) :: rat) \<le> of_int (k * 1000000000)"
      using that by (subst of_int_le_iff) simp
    then have E: "E \<le> of_int k - 1 / 1000000000"
      unfolding E_def by simp
    have "(of_int k :: rat) \<le> of_int 1000000"
      using assms(4) by (simp only: of_int_le_iff)
    then have "E \<le> 1000000"
      using E by simp
    then have "5 * f64_eps * E \<le> 5 * f64_eps * 1000000"
      using f64_consts(1) by (intro mult_left_mono) simp_all
    also have "\<dots> < 1 / 1000000000"
      by (simp add: f64_eps_def)
    finally show ?thesis
      using v(2) E unfolding E_def by linarith
  qed
  then show ?thesis
    using v(1,3) assms(4) by (auto simp: not_le [symmetric])
qed

end
