(* ===== verification/Limiter.thy ===== *)
theory Limiter
  imports Float64
begin

text \<open>
  Admission control: pkg/tunnel/limiter.go.  The per-IP limiter counts open connections in a map;
  the handshake limiter is a token bucket over \<open>float64\<close> (theory Float64).  Times are integer
  nanoseconds.  Shown: a connection is admitted exactly while its IP holds fewer than the limit;
  the bucket admits at most its burst plus the refill of the elapsed time, up to the rounding error
  of each attempt, and at least its burst; a bucket of burst 0 admits nothing.
\<close>

section \<open>IPRateLimiter\<close>

record ip_limiter =
  connections :: "(string \<times> nat) list"
  maxPerIP :: int

definition NewIPRateLimiter :: "int \<Rightarrow> ip_limiter" where
  "NewIPRateLimiter mx = \<lparr>connections = [], maxPerIP = mx\<rparr>"

definition conn_count :: "ip_limiter \<Rightarrow> string \<Rightarrow> nat" where
  "conn_count l ip = (case map_of (connections l) ip of None \<Rightarrow> 0 | Some n \<Rightarrow> n)"

definition AllowConnection :: "ip_limiter \<Rightarrow> string \<Rightarrow> bool \<times> ip_limiter" where
  "AllowConnection l ip =
     (if maxPerIP l \<le> 0 then (True, l)
      else if int (conn_count l ip) \<ge> maxPerIP l then (False, l)
      else (True, l\<lparr>connections := AList.update ip (conn_count l ip + 1) (connections l)\<rparr>))"

definition ReleaseConnection :: "ip_limiter \<Rightarrow> string \<Rightarrow> ip_limiter" where
  "ReleaseConnection l ip =
     (if maxPerIP l \<le> 0 then l
      else if conn_count l ip > 0 then
        (let n = conn_count l ip - 1 in
         if n = 0 then l\<lparr>connections := AList.delete ip (connections l)\<rparr>
         else l\<lparr>connections := AList.update ip n (connections l)\<rparr>)
      else l)"

section \<open>HandshakeLimiter\<close>

record handshake_limiter =
  rate :: float64
  burst :: int
  tokens :: float64
  lastRefill :: int

definition NewHandshakeLimiter :: "int \<Rightarrow> float64 \<Rightarrow> int \<Rightarrow> handshake_limiter" where
  "NewHandshakeLimiter now rt bst = \<lparr>rate = rt, burst = bst, tokens = f64_of_int bst, lastRefill = now\<rparr>"

definition AllowHandshake :: "int \<Rightarrow> handshake_limiter \<Rightarrow> bool \<times> handshake_limiter" where
  "AllowHandshake now l =
     (if f64_le (rate l) (Flt 0) then (True, l)
      else
        (let elapsed = duration_Seconds (time_Sub now (lastRefill l));
             t = f64_add (tokens l) (f64_mul elapsed (rate l));
             t = (if f64_less (f64_of_int (burst l)) t then f64_of_int (burst l) else t)
         in if f64_le (Flt 1) t then (True, l\<lparr>tokens := f64_add t (Flt (- 1)), lastRefill := now\<rparr>)
            else (False, l\<lparr>tokens := t, lastRefill := now\<rparr>)))"

section \<open>Connections per IP\<close>

text \<open>
  A limiter shared by connections: a run of attempts and releases.  The spec state is the multiset
  of connections held, as a count per IP; a release is only made for a connection that is held.
\<close>

datatype ip_op = Attempt string | Finish string

fun ip_step :: "ip_op \<Rightarrow> ip_limiter \<times> (string \<Rightarrow> nat) \<Rightarrow> ip_limiter \<times> (string \<Rightarrow> nat)" where
  "ip_step (Attempt ip) (l, held) =
     (case AllowConnection l ip of (ok, l') \<Rightarrow> (l', if ok then held(ip := held ip + 1) else held))"
| "ip_step (Finish ip) (l, held) =
     (if held ip = 0 then (l, held) else (ReleaseConnection l ip, held(ip := held ip - 1)))"

text \<open>The limiter's map agrees with the connections held and stores no zero counts.\<close>

definition ip_inv :: "ip_limiter \<times> (string \<Rightarrow> nat) \<Rightarrow> bool" where
  "ip_inv s \<longleftrightarrow> (\<forall>ip. conn_count (fst s) ip = snd s ip \<and> int (snd s ip) \<le> maxPerIP (fst s)) \<and>
     distinct (map fst (connections (fst s))) \<and> (\<forall>x\<in>set (connections (fst s)). 0 < snd x)"

lemma conn_count_update [simp]:
  "conn_count (l\<lparr>connections := AList.update ip n (connections l)\<rparr>) ip' = (if ip' = ip then n else conn_count l ip')"
  by (simp add: conn_count_def AList.update_conv')

lemma conn_count_delete [simp]:
  "conn_count (l\<lparr>connections := AList.delete ip (connections l)\<rparr>) ip' = (if ip' = ip then 0 else conn_count l ip')"
  by (simp add: conn_count_def AList.delete_conv')

lemma ip_step_inv:
  assumes "0 < maxPerIP (fst s)" "ip_inv s"
  shows "ip_inv (ip_step op s) \<and> maxPerIP (fst (ip_step op s)) = maxPerIP (fst s)"
proof (cases op)
  case (Attempt ip)
  then show ?thesis
    using assms by (cases s) (auto simp: ip_inv_def AllowConnection_def AList.distinct_update dest!: alist_update_set)
next
  case (Finish ip)
  moreover have "int (snd s ip) - 1 \<le> maxPerIP (fst s)"
    using assms(2) by (simp add: ip_inv_def) (metis diff_le_eq le_add_same_cancel1 order_trans zero_le_one)
  ultimately show ?thesis
    using assms by (cases s) (auto simp: ip_inv_def ReleaseConnection_def Let_def AList.distinct_update
        AList.distinct_delete alist_delete_set dest!: alist_update_set)
qed

lemma ip_run_inv:
  "0 < maxPerIP (fst s) \<Longrightarrow> ip_inv s \<Longrightarrow> ip_inv (fold ip_step ops s) \<and> maxPerIP (fst (fold ip_step ops s)) = maxPerIP (fst s)"
proof (induction ops arbitrary: s)
  case (Cons op ops)
  then show ?case
    using ip_step_inv [OF Cons.prems, of op] Cons.IH [of "ip_step op s"] by simp
qed simp

section \<open>The token bucket\<close>

text \<open>Attempts at given times: how many are admitted, and the final limiter.\<close>

primrec admitted :: "handshake_limiter \<Rightarrow> int list \<Rightarrow> nat \<times> handshake_limiter" where
  "admitted l [] = (0, l)"
| "admitted l (now # ts) =
     (case AllowHandshake now l of (ok, l') \<Rightarrow>
        (case admitted l' ts of (n, l'') \<Rightarrow> (if ok then n + 1 else n, l'')))"

text \<open>The tokens after refilling, capped at the burst.\<close>

definition refilled :: "int \<Rightarrow> handshake_limiter \<Rightarrow> float64" where
  "refilled now l =
     (let t = f64_add (tokens l) (f64_mul (duration_Seconds (time_Sub now (lastRefill l))) (rate l))
      in if f64_less (f64_of_int (burst l)) t then f64_of_int (burst l) else t)"

lemma AllowHandshake_refilled:
  assumes "rate l = Flt rt" "0 < rt"
  shows "AllowHandshake now l =
    (if f64_le (Flt 1) (refilled now l) then (True, l\<lparr>tokens := f64_add (refilled now l) (Flt (- 1)), lastRefill := now\<rparr>)
     else (False, l\<lparr>tokens := refilled now l, lastRefill := now\<rparr>))"
  using assms by (auto simp: AllowHandshake_def refilled_def f64_le_def Let_def)

text \<open>A working limiter: positive rate, a burst that \<open>float64\<close> holds exactly, tokens that are a number.\<close>

definition bucket :: "rat \<Rightarrow> int \<Rightarrow> rat \<Rightarrow> handshake_limiter \<Rightarrow> bool" where
  "bucket rt B t l \<longleftrightarrow> rate l = Flt rt \<and> 0 < rt \<and> burst l = B \<and> 1 \<le> B \<and> B \<le> 9007199254740992 \<and> tokens l = Flt t \<and> 0 \<le> t"

lemma time_Sub_bounds:
  assumes "u \<le> now"
  shows "0 \<le> time_Sub now u" "time_Sub now u < 2 ^ 63" "time_Sub now u \<le> now - u"
  using assms by (auto simp: time_Sub_def)

lemma refill_arith:
  fixes u :: rat
  assumes u: "0 < u" "u \<le> 1 / 100" "tiny \<le> u * u" "1 \<le> b" and "0 \<le> t" "0 \<le> r" "t + r < b" "0 \<le> p" "p \<le> r + 5 * (u * r)"
    and y: "y \<le> p + p * u + tiny"
  shows "y \<le> 2 * b" "t + y + (t + y) * u + tiny \<le> t + r + 10 * (u * b)"
proof -
  have ur: "u * r \<le> u * b" "u * u \<le> u * b / 100"
    using mult_left_mono [of r b u] mult_left_mono [of u "b / 100" u] assms(1,2,4,5,7) by simp_all
  have ub: "u * b \<le> b / 100"
    using mult_right_mono [of u "1 / 100" b] assms by simp
  have p: "p \<le> 2 * b"
    using assms(5-9) ur ub by linarith
  then have "p * u \<le> 2 * (u * b)"
    using mult_right_mono [of p "2 * b" u] u(1) by (simp add: algebra_simps)
  then have y2: "y \<le> r + 7 * (u * b) + u * b / 100"
    using y assms(9) ur u(3) by linarith
  then show "y \<le> 2 * b"
    using ub assms(4,5,7) by linarith
  have "t + y \<le> 2 * b"
    using y2 ub assms(4,7) by linarith
  then have "(t + y) * u \<le> 2 * (u * b)"
    using mult_right_mono [of "t + y" "2 * b" u] u(1) by (simp add: algebra_simps)
  then show "t + y + (t + y) * u + tiny \<le> t + r + 10 * (u * b)"
    using y2 ur(2) u(3) mult_pos_pos [of u b] u(1,4) by linarith
qed

text \<open>The refill: exact up to a few units of rounding, relative to the burst when it stays below it.\<close>

lemma refilled_le:
  assumes b: "bucket rt B t l" and now: "lastRefill l \<le> now"
  obtains x where "refilled now l = Flt x" "0 \<le> x" "x \<le> of_int B"
    "x \<le> t + of_int (now - lastRefill l) / 1000000000 * rt + 10 * (f64_eps * of_int B)"
    "\<And>m. of_int m \<le> t \<Longrightarrow> m \<le> B \<Longrightarrow> of_int m \<le> x"
proof -
  note goal = that
  define u where "u = f64_eps"
  define E where "E = (of_int (time_Sub now (lastRefill l)) / 1000000000 :: rat)"
  define R where "R = of_int (now - lastRefill l) / 1000000000 * rt"
  have u: "0 < u" "u \<le> 1 / 100" "f64_tiny \<le> u * u" "0 < f64_tiny"
    using f64_consts by (simp_all add: u_def f64_eps_def)
  have B: "1 \<le> (of_int B :: rat)" "of_int B \<le> (2 :: rat) powi 53" "f64_of_int B = Flt (of_int B)"
    using b int_le_powi [of B] f64_of_int_exact [of B] by (simp_all add: bucket_def)
  obtain v where v: "duration_Seconds (time_Sub now (lastRefill l)) = Flt v" "0 \<le> v" "v \<le> E + 5 * u * E"
    using duration_Seconds_le [OF time_Sub_bounds(1,2) [OF now]] unfolding E_def u_def by blast
  have E: "0 \<le> E" "E * rt \<le> R" "0 \<le> t" "0 < rt"
    using b time_Sub_bounds [OF now] by (simp_all add: bucket_def E_def R_def divide_right_mono)
  define p where "p = v * rt"
  have p: "0 \<le> p" "p \<le> E * rt + 5 * (u * (E * rt))"
    using v(2,3) mult_right_mono [of v "E + 5 * u * E" rt] E(4) by (simp_all add: p_def algebra_simps)
  have r0: "0 \<le> E * rt"
    using E by simp
  have capped: "refilled now l = (if f64_less (Flt (of_int B)) x then Flt (of_int B) else x)"
    if "f64_add (Flt t) (f64_round p) = x" for x
    using that b B(3) v(1) by (simp add: refilled_def bucket_def f64_mul_def p_def Let_def)
  have lim: "30 * of_int B < f64_limit"
  proof -
    have "(2 :: rat) powi 60 \<le> f64_limit"
      unfolding f64_limit_def by (rule powi_mono) simp
    then show ?thesis
      using B(2) by simp
  qed
  have uB: "0 \<le> 10 * (f64_eps * of_int B)"
    using u(1) B(1) by (simp add: u_def)
  have full: ?thesis if "refilled now l = Flt (of_int B)" "of_int B \<le> t + E * rt"
    using that B(1) uB E(2) by (intro goal [of "of_int B"]) (simp_all add: R_def)
  have over: "t + E * rt \<ge> of_int B" if "f64_round p = PlusInf"
  proof (rule ccontr)
    assume "\<not> of_int B \<le> t + E * rt"
    then have "p + p * u + f64_tiny \<le> 2 * of_int B"
      using refill_arith(1) [OF u(1-3) B(1) E(3) r0 _ p order_refl] by simp
    then show False
      using f64_round_PlusInf [OF p(1) that] lim B(1) by (simp add: u_def)
  qed
  show ?thesis
  proof (cases "f64_round p = PlusInf")
    case True
    then show ?thesis
      using capped [OF refl] over by (intro full) simp_all
  next
    case False
    then obtain y where y: "f64_round p = Flt y" "0 \<le> y" "y \<le> p + p * u + f64_tiny"
      using f64_round_finite [OF p(1)] f64_round_err [OF p(1)] unfolding u_def by blast
    have ty: "0 \<le> t + y"
      using y(2) E(3) by simp
    have a: "t + y + (t + y) * u + f64_tiny \<le> t + E * rt + 10 * (u * of_int B) \<or> of_int B \<le> t + E * rt"
      using refill_arith(2) [OF u(1-3) B(1) E(3) r0 _ p y(3)] by fastforce
    show ?thesis
    proof (cases "f64_round (t + y) = PlusInf")
      case True
      then have "f64_limit \<le> t + y + (t + y) * u + f64_tiny"
        using f64_round_PlusInf [OF ty] by (simp add: u_def)
      moreover have "u * of_int B \<le> of_int B"
        using mult_right_mono [of u 1 "of_int B"] u(2) B(1) by simp
      ultimately have "of_int B \<le> t + E * rt"
        using a lim B(1) by linarith
      then show ?thesis
        using capped [OF refl] y(1) True by (intro full) simp_all
    next
      case False
      then obtain z where z: "f64_round (t + y) = Flt z" "0 \<le> z" "z \<le> t + y + (t + y) * u + f64_tiny"
        using f64_round_finite [OF ty] f64_round_err [OF ty] unfolding u_def by blast
      let ?x = "min (of_int B) z"
      have r: "refilled now l = Flt ?x"
        using capped [OF refl] y(1) z(1) by (simp add: min_def)
      have le: "?x \<le> t + R + 10 * (f64_eps * of_int B)"
        using z(3) a E(2) uB by (auto simp: u_def min_def mult.assoc)
      have ge: "of_int m \<le> z" if "of_int m \<le> t" "m \<le> B" for m
        using f64_round_ge [of m "t + y" z] that y(2) ty z(1,2) b by (cases "t + y = 0") (simp_all add: bucket_def)
      show ?thesis
        using r le z(2) ge B(1) by (intro goal [of ?x]) (simp_all add: R_def)
    qed
  qed
qed

lemma AllowHandshake_step:
  assumes b: "bucket rt B t l" and now: "lastRefill l \<le> now"
  obtains ok t' l' where "AllowHandshake now l = (ok, l')" "bucket rt B t' l'" "lastRefill l' = now"
    "(if ok then 1 else 0) + t' \<le> t + of_int (now - lastRefill l) / 1000000000 * rt + 16 * (f64_eps * of_int B)"
    "\<And>m. of_int m \<le> t \<Longrightarrow> 1 \<le> m \<Longrightarrow> m \<le> B \<Longrightarrow> ok \<and> of_int (m - 1) \<le> t'"
proof -
  note goal = that
  obtain x where x: "refilled now l = Flt x" "0 \<le> x" "x \<le> of_int B"
      "x \<le> t + of_int (now - lastRefill l) / 1000000000 * rt + 10 * (f64_eps * of_int B)"
      "\<And>m. of_int m \<le> t \<Longrightarrow> m \<le> B \<Longrightarrow> of_int m \<le> x"
    using refilled_le [OF b now] by blast
  have rt: "rate l = Flt rt" "0 < rt" and B: "1 \<le> (of_int B :: rat)" "of_int B \<le> (2 :: rat) powi 53" "B \<le> 9007199254740992"
    using b int_le_powi [of B] by (simp_all add: bucket_def)
  have eB: "f64_eps \<le> f64_eps * of_int B"
    using mult_left_mono [of 1 "of_int B" f64_eps] B(1) f64_consts(1) by simp
  note a = AllowHandshake_refilled [OF rt, of now, unfolded x(1)]
  show ?thesis
  proof (cases "1 \<le> x")
    case True
    then have "0 \<le> x - 1" "x - 1 \<le> 2 powi 64"
      using x(3) B(2) by simp_all
    then obtain y where y: "f64_round (x - 1) = Flt y" "0 \<le> y" "y \<le> x - 1 + (x - 1) * f64_eps + f64_tiny"
      using f64_round_small by blast
    have "(x - 1) * f64_eps \<le> f64_eps * of_int B"
      unfolding mult.commute [of f64_eps] using x(3) f64_consts(1) by (intro mult_right_mono) simp_all
    moreover have "f64_tiny \<le> f64_eps"
      using f64_consts(1,3) mult_right_mono [of f64_eps 1 f64_eps] by (simp add: f64_eps_def)
    ultimately have "1 + y \<le> t + of_int (now - lastRefill l) / 1000000000 * rt + 16 * (f64_eps * of_int B)"
      using y(3) x(4) eB f64_consts(1) by linarith
    moreover have "of_int (m - 1) \<le> y" if "of_int m \<le> t" "1 \<le> m" "m \<le> B" for m
      using f64_round_ge [of "m - 1" "x - 1" y] x(5) [OF that(1,3)] that(2,3) B(3) y(1,2) by (cases "x = 1") simp_all
    ultimately show ?thesis
      using True a y(1,2) b by (intro goal [of True "l\<lparr>tokens := Flt y, lastRefill := now\<rparr>" y]) (simp_all add: bucket_def)
  next
    case False
    then have "\<not> of_int m \<le> t" if "1 \<le> m" "m \<le> B" for m
      using x(5) [of m] that by (metis of_int_1_le_iff order_trans)
    moreover have "x \<le> t + of_int (now - lastRefill l) / 1000000000 * rt + 16 * (f64_eps * of_int B)"
      using x(4) eB f64_consts(1) by linarith
    ultimately show ?thesis
      using False a x(2) b by (intro goal [of False "l\<lparr>tokens := Flt x, lastRefill := now\<rparr>" x]) (auto simp: bucket_def)
  qed
qed

lemma admitted_bound:
  assumes "bucket rt B t l" "sorted (lastRefill l # ts)"
  shows "of_nat (fst (admitted l ts)) \<le>
    t + of_int (last (lastRefill l # ts) - lastRefill l) / 1000000000 * rt + of_nat (length ts) * (16 * (f64_eps * of_int B))"
  using assms
proof (induction ts arbitrary: t l)
  case (Cons now ts)
  have now: "lastRefill l \<le> now"
    using Cons.prems(2) by simp
  obtain ok t' l' where s: "AllowHandshake now l = (ok, l')" "bucket rt B t' l'" "lastRefill l' = now"
      "(if ok then 1 else 0) + t' \<le> t + of_int (now - lastRefill l) / 1000000000 * rt + 16 * (f64_eps * of_int B)"
    using AllowHandshake_step [OF Cons.prems(1) now] by metis
  have "of_nat (fst (admitted l' ts)) \<le>
      t' + of_int (last (now # ts) - now) / 1000000000 * rt + of_nat (length ts) * (16 * (f64_eps * of_int B))"
    using Cons.IH [OF s(2)] Cons.prems(2) s(3) by simp
  moreover have "of_int (last (now # ts) - now) / 1000000000 * rt + of_int (now - lastRefill l) / 1000000000 * rt
      = of_int (last (now # ts) - lastRefill l) / 1000000000 * rt"
    by (simp add: algebra_simps add_divide_distrib diff_divide_distrib)
  moreover have "of_nat (length (now # ts)) * (16 * (f64_eps * of_int B)) =
      16 * (f64_eps * of_int B) + of_nat (length ts) * (16 * (f64_eps * of_int B))"
    by (simp add: algebra_simps)
  moreover have "(of_nat (fst (admitted l (now # ts))) :: rat) = (if ok then 1 else 0) + of_nat (fst (admitted l' ts))"
    using s(1) by (simp split: prod.split)
  ultimately show ?case
    using s(4) by (simp only: last.simps list.simps if_False)
qed (simp add: bucket_def)

lemma admitted_burst:
  assumes "bucket rt B t l" "sorted (lastRefill l # ts)" "int (length ts) \<le> B" "of_nat (length ts) \<le> t"
  shows "fst (admitted l ts) = length ts"
  using assms
proof (induction ts arbitrary: t l)
  case (Cons now ts)
  have now: "lastRefill l \<le> now"
    using Cons.prems(2) by simp
  obtain ok t' l' where s: "AllowHandshake now l = (ok, l')" "bucket rt B t' l'" "lastRefill l' = now"
      "\<And>m. of_int m \<le> t \<Longrightarrow> 1 \<le> m \<Longrightarrow> m \<le> B \<Longrightarrow> ok \<and> of_int (m - 1) \<le> t'"
    using AllowHandshake_step [OF Cons.prems(1) now] by metis
  have "ok \<and> of_nat (length ts) \<le> t'"
    using s(4) [of "int (length (now # ts))"] Cons.prems(3,4) by simp
  then show ?case
    using Cons.IH [OF s(2)] Cons.prems(2,3) s(1,3) by (auto split: prod.splits)
qed simp

lemma admitted_no_burst: "rate l = Flt rt \<Longrightarrow> 0 < rt \<Longrightarrow> burst l = 0 \<Longrightarrow> fst (admitted l ts) = 0"
proof (induction ts arbitrary: l)
  case (Cons now ts)
  have z: "f64_of_int 0 = Flt 0"
    by (simp add: f64_of_int_def f64_round_def)
  have "\<not> f64_le (Flt 1) (refilled now l)"
    using Cons.prems(3) by (cases "f64_add (tokens l) (f64_mul (duration_Seconds (time_Sub now (lastRefill l))) (rate l))")
      (auto simp: refilled_def z f64_le_def Let_def)
  then show ?case
    using Cons.IH [of "snd (AllowHandshake now l)"] Cons.prems AllowHandshake_refilled [OF Cons.prems(1,2), of now]
    by (auto split: prod.splits)
qed simp

section \<open>Properties\<close>

text \<open>
  C34: With a positive limit, after any sequence of attempts and releases the next connection of an IP is
  admitted exactly when the IP holds fewer connections than the limit; the limiter's count for every IP
  is the number of connections it holds, and IPs that hold none take no space in the map.
\<close>

theorem ip_limiter_exact:
  assumes "0 < mx" "fold ip_step ops (NewIPRateLimiter mx, \<lambda>_. 0) = (l, held)"
  shows "(fst (AllowConnection l ip) \<longleftrightarrow> int (held ip) < mx) \<and> conn_count l ip = held ip \<and> int (held ip) \<le> mx \<and>
    (ip \<in> fst ` set (connections l) \<longleftrightarrow> 0 < held ip)"
proof -
  have "ip_inv (NewIPRateLimiter mx, \<lambda>_. 0)" "maxPerIP (NewIPRateLimiter mx) = mx"
    using assms(1) by (simp_all add: NewIPRateLimiter_def ip_inv_def conn_count_def)
  then have "ip_inv (l, held) \<and> maxPerIP l = mx"
    using ip_run_inv [of "(NewIPRateLimiter mx, \<lambda>_. 0)" ops] assms by simp
  then have i: "conn_count l ip = held ip" "int (held ip) \<le> mx" "\<forall>x\<in>set (connections l). 0 < snd x" "maxPerIP l = mx"
    by (auto simp: ip_inv_def)
  then have "fst (AllowConnection l ip) \<longleftrightarrow> int (held ip) < mx"
    using assms(1) by (auto simp: AllowConnection_def)
  moreover have "ip \<in> fst ` set (connections l) \<longleftrightarrow> 0 < held ip"
  proof (cases "map_of (connections l) ip")
    case None
    then show ?thesis
      using i map_of_eq_None_iff [of "connections l" ip] by (simp add: conn_count_def)
  next
    case (Some n)
    then have "(ip, n) \<in> set (connections l)"
      by (rule map_of_SomeD)
    then show ?thesis
      using i Some by (force simp: conn_count_def)
  qed
  ultimately show ?thesis
    using i by simp
qed

theorem ip_limiter_exact_witness:
  "\<exists>l held. fold ip_step [Attempt ''a'', Attempt ''a''] (NewIPRateLimiter 1, \<lambda>_. 0) = (l, held) \<and>
     0 < (1 :: int) \<and> held ''a'' = 1 \<and> \<not> fst (AllowConnection l ''a'') \<and> fst (AllowConnection l ''b'')"
proof -
  obtain l held where f: "fold ip_step [Attempt ''a'', Attempt ''a''] (NewIPRateLimiter 1, \<lambda>_. 0) = (l, held)"
    by fastforce
  moreover from f have "held ''a'' = 1" "held ''b'' = 0"
    by (auto simp: AllowConnection_def NewIPRateLimiter_def conn_count_def)
  ultimately show ?thesis
    using ip_limiter_exact [OF _ f, of "''a''"] ip_limiter_exact [OF _ f, of "''b''"] by auto
qed

text \<open>
  C35: The token bucket in \<open>float64\<close> arithmetic.  With a finite positive rate and a burst up to 2^53, over any
  run of attempts at non-decreasing times it admits at most its burst plus the rate times the elapsed
  time, plus 2^-49 of the burst per attempt for the rounding; the first attempts, as many as the burst,
  are all admitted.  A limiter with burst 0 never admits anything.
\<close>

theorem handshake_rate_bound:
  assumes "0 < rt" "0 \<le> bst" "bst \<le> 2 ^ 53" "sorted (t0 # ts)"
  shows "of_nat (fst (admitted (NewHandshakeLimiter t0 (Flt rt) bst) ts)) \<le>
      of_int bst + of_int (last (t0 # ts) - t0) / 1000000000 * rt + of_nat (length ts) * (of_int bst / 2 ^ 49) \<and>
    (int (length ts) \<le> bst \<longrightarrow> fst (admitted (NewHandshakeLimiter t0 (Flt rt) bst) ts) = length ts) \<and>
    (bst = 0 \<longrightarrow> fst (admitted (NewHandshakeLimiter t0 (Flt rt) bst) ts) = 0)"
proof (cases "bst = 0")
  case True
  have "0 \<le> of_int (last (t0 # ts) - t0) / 1000000000 * rt"
  proof (intro mult_nonneg_nonneg divide_nonneg_pos)
    show "0 \<le> (of_int (last (t0 # ts) - t0) :: rat)"
      using assms(4) last_in_set [of ts] by (cases "ts = []") auto
  qed (use assms(1) in simp_all)
  then show ?thesis
    using True admitted_no_burst [of "NewHandshakeLimiter t0 (Flt rt) bst" rt ts] assms(1)
    by (auto simp: NewHandshakeLimiter_def)
next
  case False
  let ?l = "NewHandshakeLimiter t0 (Flt rt) bst"
  have b: "bucket rt bst (of_int bst) ?l" "lastRefill ?l = t0"
    using False assms f64_of_int_exact [of bst] by (simp_all add: bucket_def NewHandshakeLimiter_def)
  have e: "16 * (f64_eps * of_int bst) = of_int bst / 2 ^ 49"
    by (simp add: f64_eps_def)
  show ?thesis
    using admitted_bound [OF b(1), of ts, unfolded e b(2)] admitted_burst [OF b(1), of ts] assms(4) b(2) False by auto
qed

theorem handshake_rate_bound_witness:
  "0 < (3 :: rat) \<and> 0 \<le> (2 :: int) \<and> (2 :: int) \<le> 2 ^ 53 \<and> sorted [0 :: int, 10, 20] \<and>
   fst (admitted (NewHandshakeLimiter 0 (Flt 3) 2) [10, 20]) = 2 \<and>
   of_nat (fst (admitted (NewHandshakeLimiter 0 (Flt 3) 2) [10, 20, 30])) \<le> (21 / 10 :: rat)"
proof -
  have "(of_int 2 + of_int (last [0, 10, 20, 30] - 0) / 1000000000 * 3 + of_nat (length [10 :: int, 20, 30]) * (of_int 2 / 2 ^ 49) :: rat) \<le> 21 / 10"
    by simp
  then show ?thesis
    using handshake_rate_bound [of 3 2 0 "[10, 20]"] handshake_rate_bound [of 3 2 0 "[10, 20, 30]"] by simp
qed

end
