(* ===== verification/Aead.thy ===== *)
theory Aead
  imports Constants
begin

text \<open>
  Authenticated encryption: pkg/crypto/aead.go and aead_inplace.go.  AES-GCM and ChaCha20-Poly1305
  are library code and parameters: a cipher library is a record with their \<open>Seal\<close> and \<open>Open\<close> (as
  functions of suite, key, nonce, text and additional data) and the build's FIPS flag.
  \<open>cipher_lib_ok\<close> states what their documentation promises: a 16-byte overhead, that opening gives
  back what was sealed, and that opening succeeds only on the sealed form of what it returns.
  Shown: round trips for every way to seal and open, that a counter nonce is never used twice under
  one cipher and that exactly 2^28 seals succeed.
\<close>

record cipher_lib =
  lib_Seal :: "cipher_suite \<Rightarrow> bytes \<Rightarrow> bytes \<Rightarrow> bytes \<Rightarrow> bytes \<Rightarrow> bytes"
  lib_Open :: "cipher_suite \<Rightarrow> bytes \<Rightarrow> bytes \<Rightarrow> bytes \<Rightarrow> bytes \<Rightarrow> bytes option"
  FIPSMode :: bool

definition cipher_lib_ok :: "cipher_lib \<Rightarrow> bool" where
  "cipher_lib_ok L \<longleftrightarrow> (\<forall>suite key nonce text ad.
     length (lib_Seal L suite key nonce text ad) = length text + 16 \<and>
     lib_Open L suite key nonce (lib_Seal L suite key nonce text ad) ad = Some text \<and>
     (\<forall>c. lib_Open L suite key nonce c ad = Some text \<longrightarrow> c = lib_Seal L suite key nonce text ad))"

record aead =
  ae_suite :: cipher_suite
  ae_key :: bytes
  ae_counter :: u64
  ae_maxSeq :: u64

definition NewAEAD :: "cipher_lib \<Rightarrow> cipher_suite \<Rightarrow> bytes \<Rightarrow> aead res" where
  "NewAEAD L suite key =
     guardR (FIPSMode L \<and> \<not> IsFIPSApproved suite) ErrCipherSuiteNotFIPSApproved (
     guardR (length key \<noteq> AESKeySize) ErrInvalidKeySize (
     if suite = CipherSuiteAES256GCM \<or> suite = CipherSuiteChaCha20Poly1305
     then Inr \<lparr>ae_suite = suite, ae_key = key, ae_counter = 0, ae_maxSeq = word_of_nat MaxPacketsBeforeRekey\<rparr>
     else failR ErrUnsupportedCipherSuite))"

definition nextNonce :: "aead \<Rightarrow> bytes res \<times> aead" where
  "nextNonce a =
     (if ae_counter a \<ge> ae_maxSeq a then (failR ErrNonceExhausted, a)
      else (Inr (replicate 4 0 @ put_u64 (ae_counter a)), a\<lparr>ae_counter := ae_counter a + 1\<rparr>))"

definition Seal :: "cipher_lib \<Rightarrow> aead \<Rightarrow> bytes \<Rightarrow> bytes \<Rightarrow> bytes res \<times> aead" where
  "Seal L a plaintext ad =
     (case nextNonce a of
        (Inl e, a) \<Rightarrow> (Inl e, a)
      | (Inr nonce, a) \<Rightarrow> (Inr (nonce @ lib_Seal L (ae_suite a) (ae_key a) nonce plaintext ad), a))"

definition SealWithNonce :: "cipher_lib \<Rightarrow> aead \<Rightarrow> bytes \<Rightarrow> bytes \<Rightarrow> bytes \<Rightarrow> bytes res" where
  "SealWithNonce L a nonce plaintext ad =
     guardR (length nonce \<noteq> AESNonceSize) ErrInvalidNonce (
     Inr (lib_Seal L (ae_suite a) (ae_key a) nonce plaintext ad))"

definition Open :: "cipher_lib \<Rightarrow> aead \<Rightarrow> bytes \<Rightarrow> bytes \<Rightarrow> bytes res" where
  "Open L a ciphertext ad =
     guardR (length ciphertext < MinPacketSize) ErrCiphertextTooShort (
     bindR (slice_at ciphertext 0 AESNonceSize) (\<lambda>nonce.
     bindR (slice_at ciphertext AESNonceSize (length ciphertext - AESNonceSize)) (\<lambda>encrypted.
     case lib_Open L (ae_suite a) (ae_key a) nonce encrypted ad of
       None \<Rightarrow> failR ErrAuthenticationFailed
     | Some plaintext \<Rightarrow> Inr plaintext)))"

definition OpenWithNonce :: "cipher_lib \<Rightarrow> aead \<Rightarrow> bytes \<Rightarrow> bytes \<Rightarrow> bytes \<Rightarrow> bytes res" where
  "OpenWithNonce L a nonce ciphertext ad =
     guardR (length nonce \<noteq> AESNonceSize) ErrInvalidNonce (
     guardR (length ciphertext < AESTagSize) ErrCiphertextTooShort (
     case lib_Open L (ae_suite a) (ae_key a) nonce ciphertext ad of
       None \<Rightarrow> failR ErrAuthenticationFailed
     | Some plaintext \<Rightarrow> Inr plaintext))"

definition SetCounter :: "aead \<Rightarrow> u64 \<Rightarrow> unit res \<times> aead" where
  "SetCounter a c = (if c \<ge> ae_maxSeq a then (failR ErrNonceExhausted, a) else (Inr (), a\<lparr>ae_counter := c\<rparr>))"

definition aead_NeedsRekey :: "aead \<Rightarrow> bool" where
  "aead_NeedsRekey a \<longleftrightarrow> ae_counter a \<ge> ae_maxSeq a * 9 div 10"

definition SealWithNonceTo :: "cipher_lib \<Rightarrow> aead \<Rightarrow> bytes \<Rightarrow> bytes \<Rightarrow> bytes \<Rightarrow> bytes \<Rightarrow> bytes res" where
  "SealWithNonceTo L a dst nonce plaintext ad =
     guardR (length nonce \<noteq> AESNonceSize) ErrInvalidNonce (
     Inr (dst @ lib_Seal L (ae_suite a) (ae_key a) nonce plaintext ad))"

definition OpenWithNonceTo :: "cipher_lib \<Rightarrow> aead \<Rightarrow> bytes \<Rightarrow> bytes \<Rightarrow> bytes \<Rightarrow> bytes \<Rightarrow> bytes res" where
  "OpenWithNonceTo L a dst nonce ciphertext ad =
     guardR (length nonce \<noteq> AESNonceSize) ErrInvalidNonce (
     guardR (length ciphertext < AESTagSize) ErrCiphertextTooShort (
     case lib_Open L (ae_suite a) (ae_key a) nonce ciphertext ad of
       None \<Rightarrow> failR ErrAuthenticationFailed
     | Some plaintext \<Rightarrow> Inr (dst @ plaintext)))"

section \<open>Sealing and opening\<close>

lemma cipher_lib_okD:
  assumes "cipher_lib_ok L"
  shows "length (lib_Seal L s k n t ad) = length t + 16"
    "lib_Open L s k n (lib_Seal L s k n t ad) ad = Some t"
    "lib_Open L s k n c ad = Some t \<Longrightarrow> c = lib_Seal L s k n t ad"
  using assms by (auto simp: cipher_lib_ok_def)

lemma NewAEAD_iff [result_simps]:
  "NewAEAD L suite key = Inr a \<longleftrightarrow>
     (FIPSMode L \<longrightarrow> IsFIPSApproved suite) \<and> length key = 32 \<and> IsSupported suite \<and>
     a = \<lparr>ae_suite = suite, ae_key = key, ae_counter = 0, ae_maxSeq = 268435456\<rparr>"
  "NewAEAD L suite key \<noteq> Inl Panic"
  by (auto simp: NewAEAD_def guardR_def IsSupported_def AESKeySize_def MaxPacketsBeforeRekey_def)

text \<open>Two ends that share suite and key.\<close>

definition same_key :: "aead \<Rightarrow> aead \<Rightarrow> bool" where
  "same_key a b \<longleftrightarrow> ae_suite a = ae_suite b \<and> ae_key a = ae_key b"

lemma OpenWithNonce_Seal:
  assumes "cipher_lib_ok L" "same_key a b" "SealWithNonce L a nonce pt ad = Inr c"
  shows "OpenWithNonce L b nonce c ad = Inr pt"
  using assms cipher_lib_okD [OF assms(1)]
  by (auto simp: SealWithNonce_def OpenWithNonce_def result_simps same_key_def AESTagSize_def)

lemma OpenWithNonce_iff:
  assumes "cipher_lib_ok L" "same_key a b"
  shows "OpenWithNonce L b nonce c ad = Inr pt \<longleftrightarrow> SealWithNonce L a nonce pt ad = Inr c"
  using OpenWithNonce_Seal [OF assms] assms cipher_lib_okD [OF assms(1)]
  by (auto simp: SealWithNonce_def OpenWithNonce_def result_simps same_key_def split: option.splits)

lemma OpenWithNonce_no_panic [simp]: "OpenWithNonce L a nonce c ad \<noteq> Inl Panic"
  by (auto simp: OpenWithNonce_def result_simps split: option.splits)

lemma SealWithNonce_no_panic [simp]: "SealWithNonce L a nonce c ad \<noteq> Inl Panic"
  by (auto simp: SealWithNonce_def result_simps)

lemma SealWithNonceTo_eq:
  "SealWithNonceTo L a dst nonce pt ad = bindR (SealWithNonce L a nonce pt ad) (\<lambda>c. Inr (dst @ c))"
  by (simp add: SealWithNonceTo_def SealWithNonce_def guardR_def)

lemma OpenWithNonceTo_eq:
  "OpenWithNonceTo L a dst nonce c ad = bindR (OpenWithNonce L a nonce c ad) (\<lambda>p. Inr (dst @ p))"
  by (simp add: OpenWithNonceTo_def OpenWithNonce_def guardR_def failR_def split: option.splits)

lemma Seal_cases:
  "Seal L a pt ad = (if ae_counter a \<ge> ae_maxSeq a then (failR ErrNonceExhausted, a)
     else (Inr ((replicate 4 0 @ put_u64 (ae_counter a)) @
       lib_Seal L (ae_suite a) (ae_key a) (replicate 4 0 @ put_u64 (ae_counter a)) pt ad),
       a\<lparr>ae_counter := ae_counter a + 1\<rparr>))"
  by (simp add: Seal_def nextNonce_def failR_def)

lemma Open_Seal:
  assumes "cipher_lib_ok L" "same_key a b" "Seal L a pt ad = (Inr c, a')"
  shows "Open L b c ad = (if pt = [] then failR ErrCiphertextTooShort else Inr pt)"
proof -
  let ?n = "replicate 4 0 @ put_u64 (ae_counter a)"
  have c: "c = ?n @ lib_Seal L (ae_suite b) (ae_key b) ?n pt ad"
    using assms(2,3) by (auto simp: Seal_cases same_key_def split: if_splits)
  have l: "length c = 28 + length pt"
    using cipher_lib_okD(1) [OF assms(1)] c by simp
  show ?thesis
    using c l cipher_lib_okD(2) [OF assms(1)]
    by (auto simp: Open_def slice_at_def constant_defs guardR_def failR_def)
qed

text \<open>Sealing a list of messages one after the other; the nonces of the ones that succeed.\<close>

primrec seal_all :: "cipher_lib \<Rightarrow> aead \<Rightarrow> (bytes \<times> bytes) list \<Rightarrow> bytes res list" where
  "seal_all L a [] = []"
| "seal_all L a (m # ms) = (case Seal L a (fst m) (snd m) of (r, a') \<Rightarrow> r # seal_all L a' ms)"

definition sealed_nonces :: "bytes res list \<Rightarrow> bytes list" where
  "sealed_nonces rs = concat (map (\<lambda>r. case r of Inr c \<Rightarrow> [take 12 c] | Inl _ \<Rightarrow> []) rs)"

lemma sealed_nonces_seal_all:
  "sealed_nonces (seal_all L a ms) =
     map (\<lambda>i. replicate 4 0 @ put_u64 (ae_counter a + word_of_nat i))
       [0..<min (length ms) (unat (ae_maxSeq a) - unat (ae_counter a))]"
proof (induction ms arbitrary: a)
  case (Cons m ms)
  show ?case
  proof (cases "ae_counter a \<ge> ae_maxSeq a")
    case True
    then show ?thesis
      using Cons [of a] by (simp add: Seal_cases sealed_nonces_def failR_def word_le_nat_alt)
  next
    case False
    then have lt: "unat (ae_counter a) < unat (ae_maxSeq a)"
      by (simp add: word_le_nat_alt)
    then have "unat (ae_counter a) + 1 < 2 ^ 64"
      using unat_less_pow [of "ae_maxSeq a"] by simp
    then have s: "unat (ae_counter a + 1) = Suc (unat (ae_counter a))"
      using unat_add_lem [of "ae_counter a" 1] by simp
    have m: "min (length (m # ms)) (unat (ae_maxSeq a) - unat (ae_counter a)) =
        Suc (min (length ms) (unat (ae_maxSeq a) - Suc (unat (ae_counter a))))"
      using lt by simp
    have "sealed_nonces (seal_all L a (m # ms)) =
        (replicate 4 0 @ put_u64 (ae_counter a)) # sealed_nonces (seal_all L (a\<lparr>ae_counter := ae_counter a + 1\<rparr>) ms)"
      using False by (simp add: Seal_cases sealed_nonces_def)
    then show ?thesis
      unfolding m upt_conv_Cons [OF zero_less_Suc] list.map map_Suc_upt [symmetric] map_map
      by (simp add: Cons s comp_def add.assoc)
  qed
qed (simp add: sealed_nonces_def)

lemma counter_inject:
  assumes "i < 2 ^ 64" "j < 2 ^ 64"
  shows "(c :: u64) + word_of_nat i = c + word_of_nat j \<longleftrightarrow> i = j"
proof -
  have "unat (word_of_nat i :: u64) = i" "unat (word_of_nat j :: u64) = j"
    using assms by (simp_all add: unat_of_nat)
  then show ?thesis
    by (metis add_left_cancel)
qed

section \<open>A concrete library\<close>

text \<open>A library that appends a fixed tag: it shows that the assumptions on ciphers can be met.\<close>

definition tag_cipher_lib :: cipher_lib where
  "tag_cipher_lib =
     \<lparr>lib_Seal = (\<lambda>suite key nonce text ad. text @ replicate 16 1),
      lib_Open = (\<lambda>suite key nonce c ad.
        if 16 \<le> length c \<and> drop (length c - 16) c = replicate 16 1 then Some (take (length c - 16) c) else None),
      FIPSMode = False\<rparr>"

lemma tag_cipher_lib_ok: "cipher_lib_ok tag_cipher_lib"
proof -
  have "c = take (length c - 16) c @ replicate 16 1" if "drop (length c - 16) c = replicate 16 1" for c :: bytes
    using append_take_drop_id [of "length c - 16" c] that by simp
  then show ?thesis
    by (auto simp: cipher_lib_ok_def tag_cipher_lib_def)
qed

section \<open>Properties\<close>

text \<open>
  C31: With a cipher library that keeps its documented promises, a receiver that shares suite and
  key opens what was sealed: a counter-nonce packet gives back the plaintext unless the plaintext
  is empty, which \<open>Open\<close> rejects as too short; with an explicit nonce, opening returns a plaintext
  exactly when the ciphertext is the sealed form of that plaintext.
\<close>

theorem aead_roundtrip:
  assumes "cipher_lib_ok L" "same_key a b"
  shows "(Seal L a pt ad = (Inr c, a') \<longrightarrow>
      Open L b c ad = (if pt = [] then failR ErrCiphertextTooShort else Inr pt)) \<and>
    (OpenWithNonce L b nonce c ad = Inr pt \<longleftrightarrow> SealWithNonce L a nonce pt ad = Inr c)"
  using Open_Seal [OF assms] OpenWithNonce_iff [OF assms] by blast

definition sample_aead :: aead where
  "sample_aead = \<lparr>ae_suite = CipherSuiteAES256GCM, ae_key = replicate 32 7, ae_counter = 0, ae_maxSeq = 268435456\<rparr>"

theorem aead_roundtrip_witness:
  "cipher_lib_ok tag_cipher_lib \<and> same_key sample_aead sample_aead \<and>
   (\<exists>c a'. Seal tag_cipher_lib sample_aead [] [9] = (Inr c, a') \<and>
      Open tag_cipher_lib sample_aead c [9] = failR ErrCiphertextTooShort) \<and>
   (\<exists>c a'. Seal tag_cipher_lib sample_aead [5] [9] = (Inr c, a') \<and>
      Open tag_cipher_lib sample_aead c [9] = Inr [5])"
proof -
  have k: "same_key sample_aead sample_aead"
    by (simp add: same_key_def)
  have s: "\<exists>c a'. Seal tag_cipher_lib sample_aead pt [9] = (Inr c, a')" for pt
    by (simp add: Seal_cases sample_aead_def)
  obtain c1 a1 c2 a2 where "Seal tag_cipher_lib sample_aead [] [9] = (Inr c1, a1)"
    "Seal tag_cipher_lib sample_aead [5] [9] = (Inr c2, a2)"
    using s by blast
  then show ?thesis
    using aead_roundtrip [OF tag_cipher_lib_ok k, of "[]" "[9]" c1 a1]
      aead_roundtrip [OF tag_cipher_lib_ok k, of "[5]" "[9]" c2 a2] tag_cipher_lib_ok k by auto
qed

text \<open>
  C28: However many messages a fresh cipher is asked to seal, the nonces of the packets it produces
  are pairwise different, and exactly the first 2^28 requests succeed.
\<close>

theorem aead_nonces_unique:
  assumes "NewAEAD L suite key = Inr a"
  shows "distinct (sealed_nonces (seal_all L a ms)) \<and>
    length (sealed_nonces (seal_all L a ms)) = min (length ms) (2 ^ 28)"
proof -
  have a: "ae_counter a = 0" "ae_maxSeq a = 268435456"
    using assms by (auto simp: result_simps)
  have "inj_on (\<lambda>i. replicate 4 0 @ put_u64 (ae_counter a + word_of_nat i))
      (set [0..<min (length ms) (unat (ae_maxSeq a) - unat (ae_counter a))])"
  proof (rule inj_onI)
    fix i j assume "i \<in> set [0..<min (length ms) (unat (ae_maxSeq a) - unat (ae_counter a))]"
      "j \<in> set [0..<min (length ms) (unat (ae_maxSeq a) - unat (ae_counter a))]"
      and e: "replicate 4 0 @ put_u64 (ae_counter a + word_of_nat i) = replicate 4 0 @ put_u64 (ae_counter a + word_of_nat j)"
    then have "i < 2 ^ 64" "j < 2 ^ 64"
      using a by auto
    with counter_inject [OF this] e show "i = j"
      by (simp only: same_append_eq put_inject)
  qed
  then show ?thesis
    unfolding sealed_nonces_seal_all distinct_map using a by simp
qed

theorem aead_nonces_unique_witness:
  "NewAEAD tag_cipher_lib CipherSuiteAES256GCM (replicate 32 7) = Inr sample_aead \<and>
   length (sealed_nonces (seal_all tag_cipher_lib sample_aead [([1], []), ([2], [])])) = 2"
proof -
  have n: "NewAEAD tag_cipher_lib CipherSuiteAES256GCM (replicate 32 7) = Inr sample_aead"
    by (simp add: result_simps sample_aead_def tag_cipher_lib_def IsSupported_def)
  then show ?thesis
    using aead_nonces_unique [OF n, of "[([1], []), ([2], [])]"] by simp
qed

end
