(* ===== verification/Ticket.thy ===== *)
theory Ticket
  imports Aead
begin

text \<open>
  Session resumption tickets: pkg/tunnel/ticket.go.  A ticket is sealed with AES-256-GCM under the
  manager's current key and accepted under the current or the previous key.  Times are integer
  nanoseconds since the Unix epoch; a ticket stores whole seconds.  Shown: a ticket survives
  encryption, one key rotation and decryption until it expires; what a manager accepts was sealed
  under one of its keys; and every ticket is sealed under the same nonce.
\<close>

record session_ticket =
  tk_Version :: byte
  tk_CipherSuite :: cipher_suite
  tk_MasterSecret :: bytes
  tk_CreatedAt :: int

record ticket_manager =
  currentKey :: bytes
  previousKey :: "bytes option"
  lifetime :: int

definition NewTicketManager :: "bytes \<Rightarrow> int \<Rightarrow> ticket_manager res" where
  "NewTicketManager key lt =
     guardR (length key \<noteq> 32) ErrInvalidKeySize (
     Inr \<lparr>currentKey = key, previousKey = None, lifetime = (if lt = 0 then 24 * 3600 * 1000000000 else lt)\<rparr>)"

definition RotateKey :: "ticket_manager \<Rightarrow> bytes \<Rightarrow> unit res \<times> ticket_manager" where
  "RotateKey tm newKey =
     (if length newKey \<noteq> 32 then (failR ErrInvalidKeySize, tm)
      else (Inr (), tm\<lparr>previousKey := Some (currentKey tm), currentKey := newKey\<rparr>))"

text \<open>\<open>copy(plaintext[3:35], secret)\<close> on a zeroed buffer.\<close>

definition ticket_secret_field :: "bytes \<Rightarrow> bytes" where
  "ticket_secret_field s = take 32 s @ replicate (32 - length s) 0"

definition ticket_plaintext :: "session_ticket \<Rightarrow> int \<Rightarrow> bytes" where
  "ticket_plaintext t unixTime =
     [tk_Version t] @ put_u16 (tk_CipherSuite t) @ ticket_secret_field (tk_MasterSecret t)
     @ put_u64 (word_of_int unixTime)"

definition EncryptTicket :: "cipher_lib \<Rightarrow> ticket_manager \<Rightarrow> session_ticket \<Rightarrow> bytes res" where
  "EncryptTicket L tm t =
     (let unixTime = tk_CreatedAt t div 1000000000 in
      guardR (unixTime < 0) ErrInvalidMessage (
      bindR (NewAEAD L CipherSuiteAES256GCM (currentKey tm)) (\<lambda>a.
      fst (Seal L a (ticket_plaintext t unixTime) []))))"

definition decryptWithKey :: "cipher_lib \<Rightarrow> bytes \<Rightarrow> bytes \<Rightarrow> bytes res" where
  "decryptWithKey L d key = bindR (NewAEAD L CipherSuiteAES256GCM key) (\<lambda>a. Open L a d [])"

text \<open>\<open>time.Unix(sec, 0)\<close>: the seconds are offset inside a 64-bit word, which wraps.\<close>

definition time_Unix :: "u64 \<Rightarrow> int" where
  "time_Unix sec = (sint (sec + 62135596800) - 62135596800) * 1000000000"

definition DecryptTicket :: "cipher_lib \<Rightarrow> int \<Rightarrow> ticket_manager \<Rightarrow> bytes \<Rightarrow> session_ticket res" where
  "DecryptTicket L now tm d =
     (let r = decryptWithKey L d (currentKey tm);
          r = (case (r, previousKey tm) of (Inl (Err e), Some k) \<Rightarrow> decryptWithKey L d k | _ \<Rightarrow> r)
      in case r of
        Inl Panic \<Rightarrow> Inl Panic
      | Inl (Err e) \<Rightarrow> failR ErrInvalidTicket
      | Inr plaintext \<Rightarrow>
          guardR (length plaintext \<noteq> 43) ErrInvalidTicket (
          bindR (u64_at plaintext 35) (\<lambda>unixTime.
          guardR (unixTime > 0x7FFFFFFFFFFFFFFF) ErrInvalidTicket (
          bindR (u8_at plaintext 0) (\<lambda>ver.
          bindR (u16_at plaintext 1) (\<lambda>cs.
          bindR (slice_at plaintext 3 32) (\<lambda>ms.
          let t = \<lparr>tk_Version = ver, tk_CipherSuite = cs, tk_MasterSecret = ms, tk_CreatedAt = time_Unix unixTime\<rparr> in
          guardR (time_Sub now (tk_CreatedAt t) > lifetime tm) ErrExpiredTicket (
          guardR (FIPSMode L \<and> \<not> IsFIPSApproved (tk_CipherSuite t)) ErrCipherSuiteNotFIPSApproved (
          Inr t)))))))))"

section \<open>Sealing and opening tickets\<close>

definition manager_ok :: "ticket_manager \<Rightarrow> bool" where
  "manager_ok tm \<longleftrightarrow> length (currentKey tm) = 32 \<and> (\<forall>k. previousKey tm = Some k \<longrightarrow> length k = 32)"

lemma NewTicketManager_ok: "NewTicketManager key lt = Inr tm \<Longrightarrow> manager_ok tm"
  by (auto simp: NewTicketManager_def manager_ok_def result_simps)

lemma RotateKey_ok: "manager_ok tm \<Longrightarrow> manager_ok (snd (RotateKey tm k))"
  by (auto simp: RotateKey_def manager_ok_def)

lemma length_ticket_plaintext [simp]: "length (ticket_plaintext t u) = 43"
  by (simp add: ticket_plaintext_def ticket_secret_field_def)

lemma EncryptTicket_eq:
  "EncryptTicket L tm t = Inr d \<longleftrightarrow> length (currentKey tm) = 32 \<and> 0 \<le> tk_CreatedAt t \<and>
     d = replicate 12 0 @ lib_Seal L CipherSuiteAES256GCM (currentKey tm) (replicate 12 0)
       (ticket_plaintext t (tk_CreatedAt t div 1000000000)) []"
proof -
  have z: "replicate 4 0 @ put_u64 0 = replicate 12 (0 :: byte)"
    by (simp add: put_u64_def be_bytes_0 flip: replicate_add)
  show ?thesis
    by (auto simp: EncryptTicket_def result_simps Seal_cases z IsFIPSApproved_def IsSupported_def Let_def
        pos_imp_zdiv_nonneg_iff simp del: append_assoc)
qed

lemma decryptWithKey_iff:
  assumes "cipher_lib_ok L" "length key = 32" "length n = 12" "pt \<noteq> []"
  shows "decryptWithKey L (n @ lib_Seal L CipherSuiteAES256GCM key n pt []) key = Inr pt"
  using assms(2-) cipher_lib_okD [OF assms(1)]
  by (simp add: decryptWithKey_def NewAEAD_def IsFIPSApproved_def Open_def slice_at_def constant_defs)

lemma decryptWithKey_sound:
  assumes "cipher_lib_ok L" "decryptWithKey L d key = Inr pt"
  shows "d = take 12 d @ lib_Seal L CipherSuiteAES256GCM key (take 12 d) pt []"
proof -
  have "lib_Open L CipherSuiteAES256GCM key (take 12 d) (drop 12 d) [] = Some pt"
    using assms(2) by (auto simp: decryptWithKey_def result_simps Open_def constant_defs split: option.splits)
  then have "drop 12 d = lib_Seal L CipherSuiteAES256GCM key (take 12 d) pt []"
    by (rule cipher_lib_okD(3) [OF assms(1)])
  then show ?thesis
    by (metis append_take_drop_id)
qed

lemma decryptWithKey_no_panic: "decryptWithKey L d key \<noteq> Inl Panic"
  by (auto simp: decryptWithKey_def result_simps Open_def constant_defs split: option.splits)

text \<open>Reading the 43 bytes back.\<close>

lemma ticket_fields:
  fixes t u
  defines "p \<equiv> ticket_plaintext t u"
  assumes "length (tk_MasterSecret t) = 32"
  shows "u8_at p 0 = Inr (tk_Version t)" "u16_at p 1 = Inr (tk_CipherSuite t)"
    "slice_at p 3 32 = Inr (tk_MasterSecret t)" "u64_at p 35 = Inr (word_of_int u)"
proof -
  have f: "ticket_secret_field (tk_MasterSecret t) = tk_MasterSecret t"
    using assms(2) by (simp add: ticket_secret_field_def)
  have d0: "drop 0 p = [tk_Version t] @ put_u16 (tk_CipherSuite t) @ tk_MasterSecret t @ put_u64 (word_of_int u)"
    by (simp add: p_def ticket_plaintext_def f)
  have d1: "drop 1 p = put_u16 (tk_CipherSuite t) @ tk_MasterSecret t @ put_u64 (word_of_int u)"
    using d0 by (rule drop_step) simp
  have d3: "drop 3 p = tk_MasterSecret t @ put_u64 (word_of_int u)"
    using d1 by (rule drop_step) simp
  have d35: "drop 35 p = put_u64 (word_of_int u) @ []"
    using drop_step [OF d3, of 35] assms(2) by simp
  show "u8_at p 0 = Inr (tk_Version t)"
    using d0 by (intro read_byte) simp
  show "u16_at p 1 = Inr (tk_CipherSuite t)"
    using d1 by (rule read_at)
  show "slice_at p 3 32 = Inr (tk_MasterSecret t)"
    using d3 by (rule read_slice) (simp_all add: assms(2) p_def)
  show "u64_at p 35 = Inr (word_of_int u)"
    using d35 by (rule read_at)
qed

lemma time_Unix_small:
  assumes "0 \<le> s" "s < 9223371974719179007"
  shows "time_Unix (word_of_int s) = s * 1000000000" "\<not> word_of_int s > (0x7FFFFFFFFFFFFFFF :: u64)"
proof -
  have "sint (word_of_int (s + 62135596800) :: u64) = s + 62135596800"
    using assms by (subst sint_sbintrunc', subst signed_take_bit_int_eq_self) simp_all
  then show "time_Unix (word_of_int s) = s * 1000000000"
    by (simp add: time_Unix_def)
  show "\<not> word_of_int s > (0x7FFFFFFFFFFFFFFF :: u64)"
    using assms by (simp add: word_less_alt uint_word_of_int_eq take_bit_int_eq_self)
qed

text \<open>The two keys a manager tries, in order.\<close>

definition accepts_under :: "cipher_lib \<Rightarrow> ticket_manager \<Rightarrow> bytes \<Rightarrow> bytes \<Rightarrow> bool" where
  "accepts_under L tm key d \<longleftrightarrow> currentKey tm = key \<or>
     previousKey tm = Some key \<and> (\<exists>e. decryptWithKey L d (currentKey tm) = Inl (Err e))"

lemma DecryptTicket_plaintext:
  assumes "accepts_under L tm key d" "decryptWithKey L d key = Inr (ticket_plaintext t u)"
    and t: "length (tk_MasterSecret t) = 32" "0 \<le> u" "u < 9223371974719179007"
  shows "DecryptTicket L now tm d =
    guardR (time_Sub now (u * 1000000000) > lifetime tm) ErrExpiredTicket (
    guardR (FIPSMode L \<and> \<not> IsFIPSApproved (tk_CipherSuite t)) ErrCipherSuiteNotFIPSApproved (
    Inr (t\<lparr>tk_CreatedAt := u * 1000000000\<rparr>)))"
proof -
  have "(case (decryptWithKey L d (currentKey tm), previousKey tm) of (Inl (Err e), Some k) \<Rightarrow> decryptWithKey L d k
      | _ \<Rightarrow> decryptWithKey L d (currentKey tm)) = Inr (ticket_plaintext t u)"
    using assms(1,2) by (auto simp: accepts_under_def)
  then show ?thesis
    unfolding DecryptTicket_def Let_def using ticket_fields [OF t(1), of u] time_Unix_small [OF t(2,3)]
    by (cases t) simp
qed

section \<open>Properties\<close>

text \<open>
  A ticket a manager encrypts is decrypted by any manager that holds the same key as its
  current key, or as its previous key after a rotation: every field comes back, the creation time
  rounded down to the second, unless the ticket's lifetime is over or the suite is not approved
  in a FIPS build, which are reported as such.
\<close>

theorem ticket_roundtrip:
  assumes "cipher_lib_ok L" "EncryptTicket L tm t = Inr d" "accepts_under L tm' (currentKey tm) d"
    and "length (tk_MasterSecret t) = 32" "tk_CreatedAt t div 1000000000 < 9223371974719179007"
  shows "DecryptTicket L now tm' d =
    (let created = tk_CreatedAt t div 1000000000 * 1000000000 in
     guardR (time_Sub now created > lifetime tm') ErrExpiredTicket (
     guardR (FIPSMode L \<and> \<not> IsFIPSApproved (tk_CipherSuite t)) ErrCipherSuiteNotFIPSApproved (
     Inr (t\<lparr>tk_CreatedAt := created\<rparr>))))"
proof -
  let ?u = "tk_CreatedAt t div 1000000000"
  have e: "length (currentKey tm) = 32" "0 \<le> ?u" "ticket_plaintext t ?u \<noteq> []"
      "d = replicate 12 0 @ lib_Seal L CipherSuiteAES256GCM (currentKey tm) (replicate 12 0) (ticket_plaintext t ?u) []"
    using assms(2) length_ticket_plaintext [of t ?u]
    by (auto simp: EncryptTicket_eq pos_imp_zdiv_nonneg_iff simp del: length_ticket_plaintext)
  then have "decryptWithKey L d (currentKey tm) = Inr (ticket_plaintext t ?u)"
    using decryptWithKey_iff [OF assms(1) e(1) _ e(3), of "replicate 12 0"] by simp
  from DecryptTicket_plaintext [OF assms(3) this assms(4) e(2) assms(5)] show ?thesis
    by (simp add: Let_def)
qed

definition sample_ticket :: session_ticket where
  "sample_ticket = \<lparr>tk_Version = 1, tk_CipherSuite = CipherSuiteAES256GCM, tk_MasterSecret = replicate 32 5,
     tk_CreatedAt = 7500000000\<rparr>"

definition sample_manager :: ticket_manager where
  "sample_manager = \<lparr>currentKey = replicate 32 9, previousKey = None, lifetime = 60000000000\<rparr>"

theorem ticket_roundtrip_witness:
  "\<exists>d. EncryptTicket tag_cipher_lib sample_manager sample_ticket = Inr d \<and>
     accepts_under tag_cipher_lib sample_manager (currentKey sample_manager) d \<and>
     DecryptTicket tag_cipher_lib 8000000000 sample_manager d = Inr (sample_ticket\<lparr>tk_CreatedAt := 7000000000\<rparr>) \<and>
     DecryptTicket tag_cipher_lib 80000000000 sample_manager d = Inl (Err ErrExpiredTicket)"
proof -
  obtain d where d: "EncryptTicket tag_cipher_lib sample_manager sample_ticket = Inr d"
    by (simp add: EncryptTicket_eq sample_manager_def sample_ticket_def)
  have a: "accepts_under tag_cipher_lib sample_manager (currentKey sample_manager) d"
    by (simp add: accepts_under_def)
  have c: "length (tk_MasterSecret sample_ticket) = 32" "tk_CreatedAt sample_ticket div 1000000000 < 9223371974719179007"
    "tk_CreatedAt sample_ticket div 1000000000 * 1000000000 = 7000000000"
    "IsFIPSApproved (tk_CipherSuite sample_ticket)" "lifetime sample_manager = 60000000000"
    "time_Sub 8000000000 7000000000 = 1000000000" "time_Sub 80000000000 7000000000 = 73000000000"
    by (simp_all add: sample_ticket_def sample_manager_def IsFIPSApproved_def time_Sub_def)
  show ?thesis
    using ticket_roundtrip [OF tag_cipher_lib_ok d a c(1,2), of 8000000000]
      ticket_roundtrip [OF tag_cipher_lib_ok d a c(1,2), of 80000000000] c d a
    by (intro exI [of _ d]) simp
qed

text \<open>The fields of an accepted ticket are the bytes of the decrypted plaintext.\<close>

lemma ticket_plaintext_read:
  assumes "length pt = 43" "u64_at pt 35 = Inr u" "u8_at pt 0 = Inr (tk_Version t)" "u16_at pt 1 = Inr (tk_CipherSuite t)"
    "slice_at pt 3 32 = Inr (tk_MasterSecret t)"
  shows "pt = ticket_plaintext t (uint u)" "length (tk_MasterSecret t) = 32"
proof -
  let ?cs = "take 2 (drop 1 pt)"
  have f: "put_u16 (tk_CipherSuite t) = ?cs" "tk_MasterSecret t = take 32 (drop 3 pt)" "put_u64 u = drop 35 pt" "[tk_Version t] = take 1 pt"
    using assms put_get(1) [of ?cs] put_get(3) [of "drop 35 pt"]
    by (auto simp: result_simps get_u16_def take_Suc_conv_app_nth)
  then show l: "length (tk_MasterSecret t) = 32"
    using assms(1) by simp
  have "pt = take 1 pt @ ?cs @ take 32 (drop 3 pt) @ drop 35 pt"
    using append_take_drop_id [of 1 pt] append_take_drop_id [of 2 "drop 1 pt"] append_take_drop_id [of 32 "drop 3 pt"] by simp
  then show "pt = ticket_plaintext t (uint u)"
    using l f by (simp add: ticket_plaintext_def ticket_secret_field_def)
qed

lemma DecryptTicket_accepts:
  assumes "DecryptTicket L now tm d = Inr t"
  shows "\<exists>key u. (key = currentKey tm \<or> previousKey tm = Some key) \<and> decryptWithKey L d key = Inr (ticket_plaintext t (uint u)) \<and>
    u \<le> 0x7FFFFFFFFFFFFFFF \<and> tk_CreatedAt t = time_Unix u \<and> length (tk_MasterSecret t) = 32"
    "time_Sub now (tk_CreatedAt t) \<le> lifetime tm" "FIPSMode L \<Longrightarrow> IsFIPSApproved (tk_CipherSuite t)"
proof -
  obtain key pt u where k: "key = currentKey tm \<or> previousKey tm = Some key" "decryptWithKey L d key = Inr pt" "length pt = 43"
      "u64_at pt 35 = Inr u" "\<not> u > 0x7FFFFFFFFFFFFFFF" "u8_at pt 0 = Inr (tk_Version t)" "u16_at pt 1 = Inr (tk_CipherSuite t)"
      "slice_at pt 3 32 = Inr (tk_MasterSecret t)" "tk_CreatedAt t = time_Unix u" "\<not> time_Sub now (tk_CreatedAt t) > lifetime tm"
      "\<not> (FIPSMode L \<and> \<not> IsFIPSApproved (tk_CipherSuite t))"
    using assms unfolding DecryptTicket_def Let_def
    by (auto simp: bindR_Inr_iff guardR_simps split: sum.splits failure.splits option.splits) blast+
  then show "\<exists>key u. (key = currentKey tm \<or> previousKey tm = Some key) \<and> decryptWithKey L d key = Inr (ticket_plaintext t (uint u)) \<and>
      u \<le> 0x7FFFFFFFFFFFFFFF \<and> tk_CreatedAt t = time_Unix u \<and> length (tk_MasterSecret t) = 32"
    using ticket_plaintext_read [OF k(3,4,6-8)] by (intro exI [of _ key] exI [of _ u]) simp
  show "time_Sub now (tk_CreatedAt t) \<le> lifetime tm" "FIPSMode L \<Longrightarrow> IsFIPSApproved (tk_CipherSuite t)"
    using k by simp_all
qed

text \<open>
  C30: A manager only accepts genuine tickets.  \<open>DecryptTicket\<close> never panics, and a ticket it returns was sealed
  under the manager's current or previous key: the sealed 43 bytes are exactly the encoding of the
  returned version, suite, 32-byte secret and creation second.  The lifetime of the ticket is not over,
  and in a FIPS build its suite is approved.
\<close>

theorem ticket_accept_sound:
  assumes "cipher_lib_ok L"
  shows "DecryptTicket L now tm d \<noteq> Inl Panic \<and>
    (DecryptTicket L now tm d = Inr t \<longrightarrow>
       (\<exists>key u. (key = currentKey tm \<or> previousKey tm = Some key) \<and>
          d = take 12 d @ lib_Seal L CipherSuiteAES256GCM key (take 12 d) (ticket_plaintext t (uint u)) [] \<and>
          u \<le> 0x7FFFFFFFFFFFFFFF \<and> tk_CreatedAt t = time_Unix u \<and> length (tk_MasterSecret t) = 32) \<and>
       time_Sub now (tk_CreatedAt t) \<le> lifetime tm \<and> (FIPSMode L \<longrightarrow> IsFIPSApproved (tk_CipherSuite t)))"
proof
  show "DecryptTicket L now tm d \<noteq> Inl Panic"
    unfolding DecryptTicket_def Let_def
    by (auto simp: result_simps decryptWithKey_no_panic split: sum.splits failure.splits option.splits)
qed (use DecryptTicket_accepts [of L now tm d t] decryptWithKey_sound [OF assms] in blast)

theorem ticket_accept_sound_witness:
  "\<exists>d key u. cipher_lib_ok tag_cipher_lib \<and>
     DecryptTicket tag_cipher_lib 8000000000 sample_manager d = Inr (sample_ticket\<lparr>tk_CreatedAt := 7000000000\<rparr>) \<and>
     (key = currentKey sample_manager \<or> previousKey sample_manager = Some key) \<and>
     d = take 12 d @ lib_Seal tag_cipher_lib CipherSuiteAES256GCM key (take 12 d)
       (ticket_plaintext (sample_ticket\<lparr>tk_CreatedAt := 7000000000\<rparr>) (uint u)) [] \<and> (7000000000 :: int) = time_Unix u"
proof -
  obtain d where d: "EncryptTicket tag_cipher_lib sample_manager sample_ticket = Inr d"
    by (simp add: EncryptTicket_eq sample_manager_def sample_ticket_def)
  have "accepts_under tag_cipher_lib sample_manager (currentKey sample_manager) d"
    by (simp add: accepts_under_def)
  from ticket_roundtrip [OF tag_cipher_lib_ok d this, of 8000000000]
  have a: "DecryptTicket tag_cipher_lib 8000000000 sample_manager d = Inr (sample_ticket\<lparr>tk_CreatedAt := 7000000000\<rparr>)"
    by (simp add: sample_ticket_def sample_manager_def IsFIPSApproved_def time_Sub_def)
  then show ?thesis
    using ticket_accept_sound [OF tag_cipher_lib_ok, of 8000000000 sample_manager d "sample_ticket\<lparr>tk_CreatedAt := 7000000000\<rparr>"]
      tag_cipher_lib_ok by fastforce
qed

text \<open>
  C36: Every ticket is sealed under the all-zero nonce: a fresh cipher, with its counter at 0, is
  made for each ticket, so two tickets under one key share key and nonce.
\<close>

theorem ticket_nonce_reused:
  assumes "EncryptTicket L tm t1 = Inr d1" "EncryptTicket L tm t2 = Inr d2"
  shows "take 12 d1 = replicate 12 0 \<and> take 12 d1 = take 12 d2"
  using assms by (simp add: EncryptTicket_eq)

theorem ticket_nonce_reused_witness:
  "\<exists>d1 d2. EncryptTicket tag_cipher_lib sample_manager sample_ticket = Inr d1 \<and>
     EncryptTicket tag_cipher_lib sample_manager (sample_ticket\<lparr>tk_Version := 2\<rparr>) = Inr d2 \<and>
     take 12 d1 = take 12 d2"
proof -
  obtain d1 d2 where "EncryptTicket tag_cipher_lib sample_manager sample_ticket = Inr d1"
    "EncryptTicket tag_cipher_lib sample_manager (sample_ticket\<lparr>tk_Version := 2\<rparr>) = Inr d2"
    by (simp add: EncryptTicket_eq sample_manager_def sample_ticket_def)
  then show ?thesis
    using ticket_nonce_reused by blast
qed

end
