(* ===== verification/Kdf.thy ===== *)
theory Kdf
  imports Constants
begin

text \<open>
  Key derivation: pkg/crypto/kdf.go.  SHAKE-256 and SHA3-256 come from the standard library and are
  parameters: a hash library is a record of functions, and \<open>hash_lib_ok\<close> states their documented
  output lengths.  What the code feeds them is modelled byte for byte.  Shown: the absorbed strings
  are unambiguous (two derivations that absorb the same bytes have the same domain label and the
  same inputs), the labels in use are pairwise different, and every derivation returns keys of
  the declared lengths or an error.
\<close>

record hash_lib =
  shake256 :: "bytes \<Rightarrow> nat \<Rightarrow> bytes"
  sha3_256 :: "bytes \<Rightarrow> bytes"

definition hash_lib_ok :: "hash_lib \<Rightarrow> bool" where
  "hash_lib_ok H \<longleftrightarrow> (\<forall>x n. length (shake256 H x n) = n) \<and> (\<forall>x. length (sha3_256 H x) = 32)"

definition string_bytes :: "string \<Rightarrow> bytes" where
  "string_bytes s = map (\<lambda>c. word_of_nat (of_char c)) s"

definition safeUint32 :: "nat \<Rightarrow> u32 \<times> bool" where
  "safeUint32 n = (if n > 4294967295 then (0, False) else (word_of_nat n, True))"

text \<open>A length-prefixed field; \<open>None\<close> when the length does not fit 32 bits.\<close>

definition prefixed :: "bytes \<Rightarrow> bytes option" where
  "prefixed b = (case safeUint32 (length b) of (n, True) \<Rightarrow> Some (put_u32 n @ b) | (_, False) \<Rightarrow> None)"

primrec prefixed_all :: "bytes list \<Rightarrow> bytes option" where
  "prefixed_all [] = Some []"
| "prefixed_all (b # bs) =
     (case prefixed b of None \<Rightarrow> None
      | Some p \<Rightarrow> (case prefixed_all bs of None \<Rightarrow> None | Some q \<Rightarrow> Some (p @ q)))"

text \<open>The bytes absorbed by the single- and the multiple-input derivation.\<close>

definition DeriveKey_input :: "string \<Rightarrow> bytes \<Rightarrow> bytes option" where
  "DeriveKey_input domain input = prefixed_all [string_bytes domain, input]"

definition DeriveKeyMultiple_input :: "string \<Rightarrow> bytes list \<Rightarrow> bytes option" where
  "DeriveKeyMultiple_input domain inputs =
     (case (prefixed (string_bytes domain), safeUint32 (length inputs), prefixed_all inputs) of
        (Some d, (n, True), Some ins) \<Rightarrow> Some (d @ put_u32 n @ ins)
      | _ \<Rightarrow> None)"

definition DeriveKey :: "hash_lib \<Rightarrow> string \<Rightarrow> bytes \<Rightarrow> int \<Rightarrow> bytes res" where
  "DeriveKey H domain input outputLen =
     guardR (outputLen \<le> 0 \<or> outputLen > 1048576) (CryptoError ''DeriveKey'' ErrInvalidKeySize) (
     case DeriveKey_input domain input of
       None \<Rightarrow> failR (CryptoError ''DeriveKey'' ErrInvalidKeySize)
     | Some x \<Rightarrow> Inr (shake256 H x (nat outputLen)))"

definition DeriveKeyMultiple :: "hash_lib \<Rightarrow> string \<Rightarrow> bytes list \<Rightarrow> int \<Rightarrow> bytes res" where
  "DeriveKeyMultiple H domain inputs outputLen =
     guardR (outputLen \<le> 0 \<or> outputLen > 1048576) (CryptoError ''DeriveKeyMultiple'' ErrInvalidKeySize) (
     case DeriveKeyMultiple_input domain inputs of
       None \<Rightarrow> failR (CryptoError ''DeriveKeyMultiple'' ErrInvalidKeySize)
     | Some x \<Rightarrow> Inr (shake256 H x (nat outputLen)))"

definition TranscriptHash_input :: "bytes list \<Rightarrow> bytes option" where
  "TranscriptHash_input components =
     (case (safeUint32 (length components), prefixed_all components) of
        ((n, True), Some c) \<Rightarrow> Some (put_u32 n @ c)
      | _ \<Rightarrow> None)"

definition TranscriptHash :: "hash_lib \<Rightarrow> bytes list \<Rightarrow> bytes res" where
  "TranscriptHash H components =
     (case TranscriptHash_input components of
        None \<Rightarrow> failR (CryptoError ''TranscriptHash'' ErrInvalidKeySize)
      | Some x \<Rightarrow> Inr (sha3_256 H x))"

definition DeriveCHKEMSecret :: "hash_lib \<Rightarrow> bytes \<Rightarrow> bytes \<Rightarrow> bytes \<Rightarrow> bytes res" where
  "DeriveCHKEMSecret H x25519Secret mlkemSecret transcriptHash =
     guardR (length x25519Secret \<noteq> X25519SharedSecretSize) (CryptoError ''DeriveCHKEMSecret'' ErrInvalidKeySize) (
     guardR (length mlkemSecret \<noteq> MLKEMSharedSecretSize) (CryptoError ''DeriveCHKEMSecret'' ErrInvalidKeySize) (
     guardR (length transcriptHash \<noteq> TranscriptHashSize) (CryptoError ''DeriveCHKEMSecret'' ErrInvalidKeySize) (
     DeriveKeyMultiple H DomainSeparatorCHKEM [x25519Secret, mlkemSecret, transcriptHash]
       (int CHKEMSharedSecretSize))))"

definition DeriveHandshakeKeys :: "hash_lib \<Rightarrow> bytes \<Rightarrow> (bytes \<times> bytes \<times> bytes \<times> bytes) res" where
  "DeriveHandshakeKeys H masterSecret =
     guardR (length masterSecret \<noteq> CHKEMSharedSecretSize) (CryptoError ''DeriveHandshakeKeys'' ErrInvalidKeySize) (
     bindR (DeriveKey H DomainSeparatorHandshake masterSecret (2 * int AESKeySize + 2 * int AESNonceSize)) (\<lambda>km.
     bindR (slice_at km 0 AESKeySize) (\<lambda>initiatorKey.
     bindR (slice_at km AESKeySize AESKeySize) (\<lambda>responderKey.
     bindR (slice_at km (2 * AESKeySize) AESNonceSize) (\<lambda>initiatorIV.
     bindR (slice_at km (2 * AESKeySize + AESNonceSize) AESNonceSize) (\<lambda>responderIV.
     Inr (initiatorKey, responderKey, initiatorIV, responderIV)))))))"

text \<open>A derivation that splits its output in two halves, as the traffic keys and the nonce prefixes do.\<close>

definition split_derivation :: "hash_lib \<Rightarrow> string \<Rightarrow> string \<Rightarrow> nat \<Rightarrow> bytes \<Rightarrow> (bytes \<times> bytes) res" where
  "split_derivation H op domain half masterSecret =
     guardR (length masterSecret \<noteq> CHKEMSharedSecretSize) (CryptoError op ErrInvalidKeySize) (
     bindR (DeriveKey H domain masterSecret (2 * int half)) (\<lambda>km.
     bindR (slice_at km 0 half) (\<lambda>a.
     bindR (slice_at km half (length km - half)) (\<lambda>b. Inr (a, b)))))"

definition DeriveTrafficKeys :: "hash_lib \<Rightarrow> bytes \<Rightarrow> (bytes \<times> bytes) res" where
  "DeriveTrafficKeys H = split_derivation H ''DeriveTrafficKeys'' DomainSeparatorTraffic AESKeySize"

definition DeriveDatagramNoncePrefixes :: "hash_lib \<Rightarrow> bytes \<Rightarrow> (bytes \<times> bytes) res" where
  "DeriveDatagramNoncePrefixes H =
     split_derivation H ''DeriveDatagramNoncePrefixes'' DomainSeparatorDatagramNonce DatagramNoncePrefixSize"

definition DeriveStreamNoncePrefixes :: "hash_lib \<Rightarrow> bytes \<Rightarrow> (bytes \<times> bytes) res" where
  "DeriveStreamNoncePrefixes H =
     split_derivation H ''DeriveStreamNoncePrefixes'' DomainSeparatorStreamNonce DatagramNoncePrefixSize"

definition DeriveResumptionSecret :: "hash_lib \<Rightarrow> bytes \<Rightarrow> bytes \<Rightarrow> bytes res" where
  "DeriveResumptionSecret H psk freshSecret =
     guardR (length psk \<noteq> CHKEMSharedSecretSize) (CryptoError ''DeriveResumptionSecret'' ErrInvalidKeySize) (
     guardR (length freshSecret \<noteq> CHKEMSharedSecretSize) (CryptoError ''DeriveResumptionSecret'' ErrInvalidKeySize) (
     DeriveKeyMultiple H DomainSeparatorResumption [psk, freshSecret] (int CHKEMSharedSecretSize)))"

definition DeriveRekeySecret :: "hash_lib \<Rightarrow> bytes \<Rightarrow> bytes \<Rightarrow> bytes res" where
  "DeriveRekeySecret H currentSecret additionalData =
     guardR (length currentSecret \<noteq> CHKEMSharedSecretSize) (CryptoError ''DeriveRekeySecret'' ErrInvalidKeySize) (
     DeriveKeyMultiple H DomainSeparatorRekey [currentSecret, additionalData] (int CHKEMSharedSecretSize))"

definition DeriveAuthenticatedSecret :: "hash_lib \<Rightarrow> bytes \<Rightarrow> bytes \<Rightarrow> bytes res" where
  "DeriveAuthenticatedSecret H ephemeralSecret staticSecret =
     guardR (length ephemeralSecret \<noteq> CHKEMSharedSecretSize) (CryptoError ''DeriveAuthenticatedSecret'' ErrInvalidKeySize) (
     guardR (length staticSecret \<noteq> CHKEMSharedSecretSize) (CryptoError ''DeriveAuthenticatedSecret'' ErrInvalidKeySize) (
     DeriveKeyMultiple H DomainSeparatorAuthentication [ephemeralSecret, staticSecret] (int CHKEMSharedSecretSize)))"

definition DerivePSKSecret :: "hash_lib \<Rightarrow> bytes \<Rightarrow> bytes \<Rightarrow> bytes res" where
  "DerivePSKSecret H masterSecret psk =
     guardR (length masterSecret \<noteq> CHKEMSharedSecretSize) (CryptoError ''DerivePSKSecret'' ErrInvalidKeySize) (
     guardR (length psk \<noteq> PSKSize) (CryptoError ''DerivePSKSecret'' ErrInvalidKeySize) (
     DeriveKeyMultiple H DomainSeparatorPSK [masterSecret, psk] (int CHKEMSharedSecretSize)))"

section \<open>Unambiguous framing\<close>

lemma prefixed_Some: "prefixed b = Some p \<longleftrightarrow> length b \<le> 4294967295 \<and> p = put_u32 (word_of_nat (length b)) @ b"
  by (auto simp: prefixed_def safeUint32_def)

lemma u32_length_inject:
  "a \<le> 4294967295 \<Longrightarrow> b \<le> 4294967295 \<Longrightarrow> (word_of_nat a :: u32) = word_of_nat b \<longleftrightarrow> a = b"
proof -
  assume "a \<le> 4294967295" "b \<le> 4294967295"
  then have "unat (word_of_nat a :: u32) = a" "unat (word_of_nat b :: u32) = b"
    by (simp_all add: unat_of_nat)
  then show ?thesis
    by metis
qed

text \<open>A prefixed field can be cut off the front of a string in one way only.\<close>

lemma prefixed_cut:
  assumes "prefixed a = Some p" "prefixed b = Some q" "p @ x = q @ y"
  shows "a = b \<and> x = y"
proof -
  have l: "length a \<le> 4294967295" "length b \<le> 4294967295"
    and e: "put_u32 (word_of_nat (length a)) @ a @ x = put_u32 (word_of_nat (length b)) @ b @ y"
    using assms by (auto simp: prefixed_Some)
  then have "length a = length b" "a @ x = b @ y"
    using u32_length_inject [OF l] by (auto simp: append_eq_append_conv)
  then show ?thesis
    by simp
qed

lemma prefixed_all_inject:
  assumes "prefixed_all as = Some p" "prefixed_all bs = Some q" "length as = length bs" "p @ x = q @ y"
  shows "as = bs \<and> x = y"
  using assms
proof (induction as arbitrary: bs p q)
  case (Cons a as)
  then obtain b bs' where bs: "bs = b # bs'"
    by (cases bs) auto
  obtain p1 p2 q1 q2 where s: "prefixed a = Some p1" "prefixed_all as = Some p2" "p = p1 @ p2"
      "prefixed b = Some q1" "prefixed_all bs' = Some q2" "q = q1 @ q2"
    using Cons.prems(1,2) unfolding bs by (auto split: option.splits)
  then have "a = b" "p2 @ x = q2 @ y"
    using prefixed_cut [of a p1 b q1 "p2 @ x" "q2 @ y"] Cons.prems(4) by auto
  then show ?case
    using Cons.IH [OF s(2,5)] Cons.prems(3) bs by auto
qed auto

lemma string_bytes_inject: "string_bytes a = string_bytes b \<longleftrightarrow> a = b"
proof -
  have "(word_of_nat (of_char c) :: byte) = word_of_nat (of_char d) \<longleftrightarrow> c = d" for c d :: char
  proof
    assume "(word_of_nat (of_char c) :: byte) = word_of_nat (of_char d)"
    then have "unat (word_of_nat (of_char c) :: byte) = unat (word_of_nat (of_char d) :: byte)"
      by (rule arg_cong)
    then have "(of_char c :: nat) = of_char d"
      using nat_of_char_less_256 [of c] nat_of_char_less_256 [of d] by (simp add: unat_of_nat)
    then show "c = d"
      by (rule of_char_eqI)
  qed simp
  then show ?thesis
    unfolding string_bytes_def by (intro inj_map_eq_map) (simp add: inj_def)
qed

lemma DeriveKeyMultiple_input_Some:
  "DeriveKeyMultiple_input domain inputs = Some x \<longleftrightarrow>
     (\<exists>d ins. prefixed (string_bytes domain) = Some d \<and> length inputs \<le> 4294967295 \<and>
        prefixed_all inputs = Some ins \<and> x = d @ put_u32 (word_of_nat (length inputs)) @ ins)"
  by (auto simp: DeriveKeyMultiple_input_def safeUint32_def split: option.splits prod.splits bool.splits if_splits)

lemma DeriveKey_input_Some:
  "DeriveKey_input domain input = Some x \<longleftrightarrow>
     (\<exists>d i. prefixed (string_bytes domain) = Some d \<and> prefixed input = Some i \<and> x = d @ i)"
  by (auto simp: DeriveKey_input_def split: option.splits)

lemma TranscriptHash_input_Some:
  "TranscriptHash_input cs = Some x \<longleftrightarrow>
     length cs \<le> 4294967295 \<and> (\<exists>c. prefixed_all cs = Some c \<and> x = put_u32 (word_of_nat (length cs)) @ c)"
  by (auto simp: TranscriptHash_input_def safeUint32_def split: option.splits prod.splits bool.splits if_splits)

text \<open>Outcome of the derivations on inputs of reasonable size.\<close>

lemma prefixed_short: "length b \<le> 4294967295 \<Longrightarrow> \<exists>p. prefixed b = Some p"
  by (simp add: prefixed_Some)

lemma prefixed_all_short: "\<forall>b\<in>set bs. length b \<le> 4294967295 \<Longrightarrow> \<exists>p. prefixed_all bs = Some p"
  by (induction bs) (auto simp: prefixed_def safeUint32_def)

lemma DeriveKey_length:
  "hash_lib_ok H \<Longrightarrow> DeriveKey H domain input n = Inr k \<Longrightarrow> int (length k) = n"
  by (auto simp: DeriveKey_def guardR_def hash_lib_ok_def split: option.splits if_splits)

lemma DeriveKeyMultiple_length:
  "hash_lib_ok H \<Longrightarrow> DeriveKeyMultiple H domain inputs n = Inr k \<Longrightarrow> int (length k) = n"
  by (auto simp: DeriveKeyMultiple_def guardR_def hash_lib_ok_def split: option.splits if_splits)

lemma DeriveKey_no_panic: "DeriveKey H domain input n \<noteq> Inl Panic"
  by (auto simp: DeriveKey_def guardR_def split: option.splits)

lemma DeriveKeyMultiple_no_panic: "DeriveKeyMultiple H domain inputs n \<noteq> Inl Panic"
  by (auto simp: DeriveKeyMultiple_def guardR_def split: option.splits)

lemma DeriveKeyMultiple_total:
  assumes "hash_lib_ok H" "length domain \<le> 4294967295" "length inputs \<le> 4294967295"
    "\<forall>b\<in>set inputs. length b \<le> 4294967295" "0 < n" "n \<le> 1048576"
  shows "\<exists>k. DeriveKeyMultiple H domain inputs n = Inr k \<and> length k = nat n"
proof -
  obtain d ins where "prefixed (string_bytes domain) = Some d" "prefixed_all inputs = Some ins"
    using assms(2) prefixed_short [of "string_bytes domain"] prefixed_all_short [OF assms(4)]
    by (auto simp: string_bytes_def)
  then obtain x where "DeriveKeyMultiple_input domain inputs = Some x"
    using assms(3) DeriveKeyMultiple_input_Some by blast
  then show ?thesis
    using assms(1,5,6) by (auto simp: DeriveKeyMultiple_def hash_lib_ok_def)
qed

lemma TranscriptHash_total:
  assumes "hash_lib_ok H" "length cs \<le> 4294967295" "\<forall>b\<in>set cs. length b \<le> 4294967295"
  shows "\<exists>h. TranscriptHash H cs = Inr h \<and> length h = 32"
proof -
  obtain x where "TranscriptHash_input cs = Some x"
    using prefixed_all_short [OF assms(3)] assms(2) TranscriptHash_input_Some by blast
  then show ?thesis
    using assms(1) by (auto simp: TranscriptHash_def hash_lib_ok_def)
qed

lemma DeriveCHKEMSecret_total:
  assumes "hash_lib_ok H" "length x = 32" "length m = 32" "length t = 32"
  shows "\<exists>k. DeriveCHKEMSecret H x m t = Inr k \<and> length k = 32"
  using DeriveKeyMultiple_total [OF assms(1), of DomainSeparatorCHKEM "[x, m, t]" 32] assms(2-)
  by (simp add: DeriveCHKEMSecret_def constant_defs)

lemma DeriveRekeySecret_total:
  assumes "hash_lib_ok H" "length c = 32" "length d \<le> 4294967295"
  shows "\<exists>k. DeriveRekeySecret H c d = Inr k \<and> length k = 32"
  using DeriveKeyMultiple_total [OF assms(1), of DomainSeparatorRekey "[c, d]" 32] assms(2-)
  by (simp add: DeriveRekeySecret_def constant_defs)

lemma TranscriptHash_no_panic [simp]: "TranscriptHash H cs \<noteq> Inl Panic"
  by (auto simp: TranscriptHash_def split: option.splits)

lemma split_derivation_ok:
  assumes "hash_lib_ok H" "length ms = CHKEMSharedSecretSize" "0 < half" "2 * half \<le> 1048576"
    "length domain \<le> 4294967295"
  shows "\<exists>a b. split_derivation H op domain half ms = Inr (a, b) \<and> length a = half \<and> length b = half \<and>
    a @ b = shake256 H (the (DeriveKey_input domain ms)) (2 * half)"
proof -
  obtain x where x: "DeriveKey_input domain ms = Some x"
    using assms(2,5) by (auto simp: DeriveKey_input_Some prefixed_Some string_bytes_def constant_defs)
  let ?km = "shake256 H x (2 * half)"
  have k: "DeriveKey H domain ms (2 * int half) = Inr ?km" "length ?km = 2 * half"
    using assms x by (auto simp: DeriveKey_def hash_lib_ok_def nat_mult_distrib)
  then show ?thesis
    using assms(2) x by (auto simp: split_derivation_def slice_at_def)
qed

lemma split_derivation_lengths:
  assumes "hash_lib_ok H" "split_derivation H op domain half ms = Inr (a, b)"
  shows "length a = half" "length b = half"
  using assms DeriveKey_length [OF assms(1), of domain ms "2 * int half"]
  by (auto simp: split_derivation_def result_simps)

lemma split_derivation_no_panic: "hash_lib_ok H \<Longrightarrow> split_derivation H op domain half ms \<noteq> Inl Panic"
  by (auto simp: split_derivation_def result_simps DeriveKey_no_panic dest: DeriveKey_length)

lemma domain_labels_distinct:
  "distinct [DomainSeparatorCHKEM, DomainSeparatorHandshake, DomainSeparatorTraffic, DomainSeparatorRekey,
     DomainSeparatorResumption, DomainSeparatorDatagramNonce, DomainSeparatorAuthentication,
     DomainSeparatorPSK, DomainSeparatorStreamNonce]"
  by (simp add: constant_defs)

lemma DeriveKeyMultiple_input_inject:
  assumes "DeriveKeyMultiple_input d1 i1 = Some x" "DeriveKeyMultiple_input d2 i2 = Some x"
  shows "d1 = d2" "i1 = i2"
proof -
  obtain p1 p2 q1 q2 where
    s: "prefixed (string_bytes d1) = Some p1" "prefixed (string_bytes d2) = Some p2"
      "prefixed_all i1 = Some q1" "prefixed_all i2 = Some q2"
      "length i1 \<le> 4294967295" "length i2 \<le> 4294967295"
    and e: "p1 @ put_u32 (word_of_nat (length i1)) @ q1 = p2 @ put_u32 (word_of_nat (length i2)) @ q2"
    using assms by (auto simp: DeriveKeyMultiple_input_Some)
  note c = prefixed_cut [OF s(1,2) e]
  then have "length i1 = length i2" "q1 = q2"
    using u32_length_inject [OF s(5,6)] by (auto simp: append_eq_append_conv)
  then show "d1 = d2" "i1 = i2"
    using c prefixed_all_inject [OF s(3,4), of "[]" "[]"] by (auto simp: string_bytes_inject)
qed

lemma DeriveHandshakeKeys_total:
  assumes "hash_lib_ok H" "length ms = 32"
  shows "\<exists>ki kr vi vr. DeriveHandshakeKeys H ms = Inr (ki, kr, vi, vr) \<and> length ki = 32 \<and> length kr = 32"
proof -
  obtain x where x: "DeriveKey_input DomainSeparatorHandshake ms = Some x"
    using prefixed_all_short [of "[string_bytes DomainSeparatorHandshake, ms]"] assms(2)
    by (auto simp: DeriveKey_input_def string_bytes_def constant_defs)
  then show ?thesis
    using assms by (simp add: DeriveHandshakeKeys_def DeriveKey_def slice_at_def constant_defs hash_lib_ok_def)
qed

lemma mix_total:
  assumes "hash_lib_ok H" "length a = 32" "length b = 32"
  shows "\<exists>k. DeriveResumptionSecret H a b = Inr k \<and> length k = 32"
    "\<exists>k. DeriveAuthenticatedSecret H a b = Inr k \<and> length k = 32"
    "\<exists>k. DerivePSKSecret H a b = Inr k \<and> length k = 32"
  using DeriveKeyMultiple_total [OF assms(1), where inputs = "[a, b]" and n = 32] assms(2,3)
  by (auto simp: DeriveResumptionSecret_def DeriveAuthenticatedSecret_def DerivePSKSecret_def constant_defs)

section \<open>Properties\<close>

text \<open>
  C29: The strings fed to the hash are unambiguous: if two multiple-input derivations, two
  single-input derivations or two transcript hashes absorb the same bytes, they have the same
  label and the same inputs, whatever those contain.
\<close>

theorem kdf_input_injective:
  "(DeriveKeyMultiple_input d1 i1 = Some x \<and> DeriveKeyMultiple_input d2 i2 = Some x \<longrightarrow> d1 = d2 \<and> i1 = i2) \<and>
   (DeriveKey_input d1 b1 = Some x \<and> DeriveKey_input d2 b2 = Some x \<longrightarrow> d1 = d2 \<and> b1 = b2) \<and>
   (TranscriptHash_input i1 = Some x \<and> TranscriptHash_input i2 = Some x \<longrightarrow> i1 = i2)"
proof (intro conjI impI; elim conjE)
  assume "DeriveKeyMultiple_input d1 i1 = Some x" "DeriveKeyMultiple_input d2 i2 = Some x"
  then show "d1 = d2" "i1 = i2"
    using DeriveKeyMultiple_input_inject by blast+
next
  assume "DeriveKey_input d1 b1 = Some x" "DeriveKey_input d2 b2 = Some x"
  then show "d1 = d2" "b1 = b2"
    unfolding DeriveKey_input_def
    using prefixed_all_inject [of "[string_bytes d1, b1]" x "[string_bytes d2, b2]" x "[]" "[]"]
    by (simp_all add: string_bytes_inject)
next
  assume "TranscriptHash_input i1 = Some x" "TranscriptHash_input i2 = Some x"
  then obtain q1 q2 where s: "prefixed_all i1 = Some q1" "prefixed_all i2 = Some q2"
      "length i1 \<le> 4294967295" "length i2 \<le> 4294967295"
    and e: "put_u32 (word_of_nat (length i1)) @ q1 = put_u32 (word_of_nat (length i2)) @ q2"
    by (auto simp: TranscriptHash_input_Some)
  then have "length i1 = length i2" "q1 = q2"
    using u32_length_inject [OF s(3,4)] by (auto simp: append_eq_append_conv)
  then show "i1 = i2"
    using prefixed_all_inject [OF s(1,2), of "[]" "[]"] by simp
qed

theorem kdf_input_injective_witness:
  "\<exists>x. DeriveKey_input ''a'' [1] = Some x \<and> DeriveKey_input ''a'' [1, 0] \<noteq> Some x"
proof -
  obtain x where x: "DeriveKey_input ''a'' [1] = Some x"
    by (auto simp: DeriveKey_input_Some prefixed_Some string_bytes_def)
  then show ?thesis
    using kdf_input_injective [where ?d1.0 = "''a''" and ?d2.0 = "''a''" and x = x and ?b1.0 = "[1]" and ?b2.0 = "[1, 0]"]
    by auto
qed

text \<open>
  From a 32-byte master secret every split derivation (traffic keys, datagram and stream nonce
  prefixes) returns two values of the declared length and never panics; from any other length it
  returns an error.
\<close>

lemma split_keys_lengths:
  assumes "hash_lib_ok H"
  shows "(length ms = 32 \<longrightarrow>
      (\<exists>a b. DeriveTrafficKeys H ms = Inr (a, b) \<and> length a = 32 \<and> length b = 32) \<and>
      (\<exists>a b. DeriveDatagramNoncePrefixes H ms = Inr (a, b) \<and> length a = 4 \<and> length b = 4) \<and>
      (\<exists>a b. DeriveStreamNoncePrefixes H ms = Inr (a, b) \<and> length a = 4 \<and> length b = 4)) \<and>
    (length ms \<noteq> 32 \<longrightarrow>
      DeriveTrafficKeys H ms = Inl (Err (CryptoError ''DeriveTrafficKeys'' ErrInvalidKeySize)) \<and>
      DeriveDatagramNoncePrefixes H ms = Inl (Err (CryptoError ''DeriveDatagramNoncePrefixes'' ErrInvalidKeySize)) \<and>
      DeriveStreamNoncePrefixes H ms = Inl (Err (CryptoError ''DeriveStreamNoncePrefixes'' ErrInvalidKeySize)))"
  using split_derivation_ok [OF assms, of ms 32 DomainSeparatorTraffic "''DeriveTrafficKeys''"]
    split_derivation_ok [OF assms, of ms 4 DomainSeparatorDatagramNonce "''DeriveDatagramNoncePrefixes''"]
    split_derivation_ok [OF assms, of ms 4 DomainSeparatorStreamNonce "''DeriveStreamNoncePrefixes''"]
  unfolding DeriveTrafficKeys_def DeriveDatagramNoncePrefixes_def DeriveStreamNoncePrefixes_def
  by (auto simp: constant_defs split_derivation_def)

definition zero_hash_lib :: hash_lib where
  "zero_hash_lib = \<lparr>shake256 = (\<lambda>x n. replicate n 0), sha3_256 = (\<lambda>x. replicate 32 0)\<rparr>"

lemma zero_hash_lib_ok: "hash_lib_ok zero_hash_lib"
  by (simp add: hash_lib_ok_def zero_hash_lib_def)

end
