(* ===== verification/Chkem.thy ===== *)
theory Chkem
  imports Kdf
begin

text \<open>
  The key encapsulation suites: pkg/chkem (chkem.go, suite.go, suite_xwing.go, identity.go) and the
  wrappers they call in pkg/crypto (x25519.go, mlkem.go, xwing.go and the random source of random.go).
  X25519, ML-KEM-1024 and X-Wing come from libraries and are parameters, a record \<open>kem_lib\<close> of their
  functions on byte strings; \<open>kem_lib_ok\<close> states their documented sizes and that both ends of an
  exchange agree.  The random source is a tape of bytes: a draw fails when the tape is too short.  A
  nil pointer is \<open>None\<close>.  Shown: both suites deliver the same 32-byte secret to both ends, the
  cascade binds the encapsulating role, and suite-tagged identities parse back under their suite.
\<close>

section \<open>Library functions\<close>

record kem_lib =
  ecdh_public :: "bytes \<Rightarrow> bytes"
  ecdh_ECDH :: "bytes \<Rightarrow> bytes \<Rightarrow> bytes option"
  mlkem_derive :: "bytes \<Rightarrow> bytes \<times> bytes"
  mlkem_Unpack :: "bytes \<Rightarrow> bytes option"
  mlkem_EncapsulateTo :: "bytes \<Rightarrow> bytes \<Rightarrow> bytes \<times> bytes"
  mlkem_DecapsulateTo :: "bytes \<Rightarrow> bytes \<Rightarrow> bytes"
  xwing_DeriveKeyPairPacked :: "bytes \<Rightarrow> bytes \<times> bytes"
  xwing_Encapsulate :: "bytes \<Rightarrow> bytes \<Rightarrow> (bytes \<times> bytes) option"
  xwing_Decapsulate :: "bytes \<Rightarrow> bytes \<Rightarrow> bytes"

text \<open>
  \<open>mlkem_derive\<close> maps a seed to the packed public key and the private key; a public key is
  represented by its packed form, so unpacking a valid form returns it.
\<close>

definition kem_lib_ok :: "kem_lib \<Rightarrow> bool" where
  "kem_lib_ok K \<longleftrightarrow>
     (\<forall>a. length (ecdh_public K a) = 32) \<and>
     (\<forall>a b. length a = 32 \<longrightarrow> length b = 32 \<longrightarrow>
        (\<exists>s. ecdh_ECDH K a (ecdh_public K b) = Some s \<and> ecdh_ECDH K b (ecdh_public K a) = Some s \<and> length s = 32)) \<and>
     (\<forall>seed. length (fst (mlkem_derive K seed)) = 1568 \<and>
        mlkem_Unpack K (fst (mlkem_derive K seed)) = Some (fst (mlkem_derive K seed))) \<and>
     (\<forall>pk r. length (fst (mlkem_EncapsulateTo K pk r)) = 1568 \<and> length (snd (mlkem_EncapsulateTo K pk r)) = 32) \<and>
     (\<forall>seed r. mlkem_DecapsulateTo K (snd (mlkem_derive K seed))
        (fst (mlkem_EncapsulateTo K (fst (mlkem_derive K seed)) r)) =
        snd (mlkem_EncapsulateTo K (fst (mlkem_derive K seed)) r)) \<and>
     (\<forall>seed. length (fst (xwing_DeriveKeyPairPacked K seed)) = 32 \<and> length (snd (xwing_DeriveKeyPairPacked K seed)) = 1216) \<and>
     (\<forall>seed r. \<exists>ss ct. xwing_Encapsulate K (snd (xwing_DeriveKeyPairPacked K seed)) r = Some (ss, ct) \<and>
        length ss = 32 \<and> length ct = 1120 \<and>
        xwing_Decapsulate K ct (fst (xwing_DeriveKeyPairPacked K seed)) = ss)"

section \<open>Random source\<close>

type_synonym entropy = bytes

definition SecureRandom :: "nat \<Rightarrow> entropy \<Rightarrow> (bytes \<times> entropy) res" where
  "SecureRandom n tape =
     (if length tape < n then failR (CryptoError ''SecureRandom'' ErrUnexpectedEOF)
      else Inr (take n tape, drop n tape))"

definition SecureRandomBytes :: "nat \<Rightarrow> entropy \<Rightarrow> (bytes \<times> entropy) res" where
  "SecureRandomBytes n tape = SecureRandom n tape"

section \<open>X25519, ML-KEM-1024 and X-Wing wrappers\<close>

definition wrapCrypto :: "string \<Rightarrow> 'a res \<Rightarrow> 'a res" where
  "wrapCrypto op r = (case r of Inl (Err e) \<Rightarrow> failR (CryptoError op e) | _ \<Rightarrow> r)"

definition GenerateX25519KeyPair :: "kem_lib \<Rightarrow> entropy \<Rightarrow> ((bytes \<times> bytes) \<times> entropy) res" where
  "GenerateX25519KeyPair K tape =
     (if length tape < X25519PrivateKeySize then failR (CryptoError ''X25519KeyPair.Generate'' ErrUnexpectedEOF)
      else Inr ((ecdh_public K (take X25519PrivateKeySize tape), take X25519PrivateKeySize tape),
        drop X25519PrivateKeySize tape))"

definition NewX25519KeyPairFromBytes :: "kem_lib \<Rightarrow> bytes \<Rightarrow> (bytes \<times> bytes) res" where
  "NewX25519KeyPairFromBytes K priv =
     guardR (length priv \<noteq> X25519PrivateKeySize) ErrInvalidKeySize (Inr (ecdh_public K priv, priv))"

definition X25519 :: "kem_lib \<Rightarrow> bytes option \<Rightarrow> bytes option \<Rightarrow> bytes res" where
  "X25519 K privateKey peerPublic =
     (case privateKey of None \<Rightarrow> failR ErrInvalidPrivateKey
      | Some sk \<Rightarrow> (case peerPublic of None \<Rightarrow> failR ErrInvalidPublicKey
      | Some pk \<Rightarrow> (case ecdh_ECDH K sk pk of
          None \<Rightarrow> failR (CryptoError ''X25519'' (ErrText ''ecdh''))
        | Some s \<Rightarrow> Inr s)))"

definition ParseX25519PublicKey :: "bytes \<Rightarrow> bytes res" where
  "ParseX25519PublicKey d = guardR (length d \<noteq> X25519PublicKeySize) ErrInvalidPublicKey (Inr d)"

definition mlkemSeedSize :: nat where "mlkemSeedSize = 64"

definition GenerateMLKEMKeyPair :: "kem_lib \<Rightarrow> entropy \<Rightarrow> ((bytes \<times> bytes) \<times> entropy) res" where
  "GenerateMLKEMKeyPair K tape =
     (if length tape < mlkemSeedSize then failR (CryptoError ''MLKEMKeyPair.Generate'' ErrUnexpectedEOF)
      else Inr (mlkem_derive K (take mlkemSeedSize tape), drop mlkemSeedSize tape))"

definition NewMLKEMKeyPairFromSeed :: "kem_lib \<Rightarrow> bytes \<Rightarrow> (bytes \<times> bytes) res" where
  "NewMLKEMKeyPairFromSeed K seed = guardR (length seed \<noteq> 64) ErrInvalidKeySize (Inr (mlkem_derive K seed))"

definition MLKEMEncapsulateWithSeed :: "kem_lib \<Rightarrow> bytes option \<Rightarrow> bytes \<Rightarrow> (bytes \<times> bytes) res" where
  "MLKEMEncapsulateWithSeed K ek seed =
     (case ek of None \<Rightarrow> failR ErrInvalidPublicKey
      | Some pk \<Rightarrow> guardR (length seed \<noteq> 32) ErrInvalidKeySize (Inr (mlkem_EncapsulateTo K pk seed)))"

definition MLKEMEncapsulate :: "kem_lib \<Rightarrow> entropy \<Rightarrow> bytes option \<Rightarrow> (bytes \<times> bytes) res" where
  "MLKEMEncapsulate K tape ek =
     bindR (wrapCrypto ''MLKEMEncapsulate'' (SecureRandom 32 tape)) (\<lambda>(seed, _).
     MLKEMEncapsulateWithSeed K ek seed)"

definition MLKEMDecapsulate :: "kem_lib \<Rightarrow> bytes option \<Rightarrow> bytes \<Rightarrow> bytes res" where
  "MLKEMDecapsulate K dk ct =
     (case dk of None \<Rightarrow> failR ErrInvalidPrivateKey
      | Some sk \<Rightarrow> guardR (length ct \<noteq> MLKEMCiphertextSize) ErrInvalidCiphertext (Inr (mlkem_DecapsulateTo K sk ct)))"

definition MLKEMPublicKey_Bytes :: "bytes option \<Rightarrow> bytes" where
  "MLKEMPublicKey_Bytes pk = (case pk of None \<Rightarrow> [] | Some b \<Rightarrow> b)"

definition ParseMLKEMPublicKey :: "kem_lib \<Rightarrow> bytes \<Rightarrow> bytes res" where
  "ParseMLKEMPublicKey K d =
     guardR (length d \<noteq> MLKEMPublicKeySize) ErrInvalidPublicKey (
     case mlkem_Unpack K d of
       None \<Rightarrow> failR (CryptoError ''ParseMLKEMPublicKey'' (ErrText ''mlkem''))
     | Some pk \<Rightarrow> Inr pk)"

text \<open>An X-Wing key pair is its private seed and its public key; nil after zeroisation.\<close>

record xwing_key_pair =
  privateSeed :: bytes
  xw_publicKey :: bytes

definition NewXWingKeyPairFromSeed :: "kem_lib \<Rightarrow> bytes \<Rightarrow> xwing_key_pair res" where
  "NewXWingKeyPairFromSeed K seed =
     guardR (length seed \<noteq> XWingSeedSize) ErrInvalidKeySize (
     case xwing_DeriveKeyPairPacked K seed of (sk, pk) \<Rightarrow> Inr \<lparr>privateSeed = sk, xw_publicKey = pk\<rparr>)"

definition GenerateXWingKeyPair :: "kem_lib \<Rightarrow> entropy \<Rightarrow> xwing_key_pair res" where
  "GenerateXWingKeyPair K tape =
     bindR (wrapCrypto ''XWing.Generate'' (SecureRandom XWingSeedSize tape)) (\<lambda>(seed, _).
     NewXWingKeyPairFromSeed K seed)"

definition XWingEncapsulateWithSeed :: "kem_lib \<Rightarrow> bytes \<Rightarrow> bytes \<Rightarrow> (bytes \<times> bytes) res" where
  "XWingEncapsulateWithSeed K pk seed =
     guardR (length seed \<noteq> 64) ErrInvalidKeySize (
     case xwing_Encapsulate K pk seed of
       None \<Rightarrow> failR (CryptoError ''XWing.Encapsulate'' (ErrText ''xwing''))
     | Some (ss, ct) \<Rightarrow> Inr (ct, ss))"

definition XWingEncapsulate :: "kem_lib \<Rightarrow> entropy \<Rightarrow> bytes \<Rightarrow> (bytes \<times> bytes) res" where
  "XWingEncapsulate K tape pk =
     guardR (length pk \<noteq> XWingPublicKeySize) ErrInvalidPublicKey (
     bindR (wrapCrypto ''XWing.Encapsulate'' (SecureRandom 64 tape)) (\<lambda>(seed, _).
     XWingEncapsulateWithSeed K pk seed))"

definition XWingDecapsulate :: "kem_lib \<Rightarrow> bytes \<Rightarrow> bytes \<Rightarrow> bytes res" where
  "XWingDecapsulate K seed ct =
     guardR (length seed \<noteq> XWingSeedSize) ErrInvalidPrivateKey (
     guardR (length ct \<noteq> XWingCiphertextSize) ErrInvalidCiphertext (
     Inr (xwing_Decapsulate K ct seed)))"

definition ParseXWingPublicKey :: "bytes \<Rightarrow> bytes res" where
  "ParseXWingPublicKey d = guardR (length d \<noteq> XWingPublicKeySize) ErrInvalidPublicKey (Inr d)"

section \<open>Keys, ciphertexts and roles\<close>

type_synonym kem_role = byte

definition KemRoleInitiator :: kem_role where "KemRoleInitiator = 1"
definition KemRoleResponder :: kem_role where "KemRoleResponder = 2"

definition role_peer :: "kem_role \<Rightarrow> kem_role" where
  "role_peer r = (if r = KemRoleInitiator then KemRoleResponder else KemRoleInitiator)"

definition ProtocolVersion :: u16 where "ProtocolVersion = 2"

definition protocolVersionBytes :: bytes where "protocolVersionBytes = put_u16 ProtocolVersion"

record key_pair =
  x25519Public :: "bytes option"
  x25519Private :: "bytes option"
  mlkemPublic :: "bytes option"
  mlkemPrivate :: "bytes option"
  kp_suite :: u16
  kp_impl :: "xwing_key_pair option"

record public_key =
  pk_x25519 :: "bytes option"
  pk_mlkem :: "bytes option"
  pk_suite :: u16
  pk_raw :: bytes

record ciphertext =
  x25519Ephemeral :: bytes
  mlkemCiphertext :: bytes
  ct_suite :: u16
  ct_raw :: bytes

text \<open>A key pair of the cascade: the v1 fields set, no suite handle.\<close>

definition v1_key_pair :: "bytes \<times> bytes \<Rightarrow> bytes \<times> bytes \<Rightarrow> key_pair" where
  "v1_key_pair x ml = \<lparr>x25519Public = Some (fst x), x25519Private = Some (snd x),
     mlkemPublic = Some (fst ml), mlkemPrivate = Some (snd ml), kp_suite = 0, kp_impl = None\<rparr>"

definition PublicKey :: "key_pair \<Rightarrow> public_key" where
  "PublicKey kp =
     (if kp_suite kp \<noteq> 0 then
        (case kp_impl kp of
           Some h \<Rightarrow> \<lparr>pk_x25519 = None, pk_mlkem = None, pk_suite = kp_suite kp, pk_raw = xw_publicKey h\<rparr>
         | None \<Rightarrow> \<lparr>pk_x25519 = None, pk_mlkem = None, pk_suite = kp_suite kp, pk_raw = []\<rparr>)
      else \<lparr>pk_x25519 = x25519Public kp, pk_mlkem = mlkemPublic kp, pk_suite = 0, pk_raw = []\<rparr>)"

text \<open>\<open>copy\<close> into a zeroed buffer of fixed length.\<close>

definition copy_into :: "nat \<Rightarrow> bytes \<Rightarrow> bytes" where
  "copy_into n b = take n b @ replicate (n - length b) 0"

definition PublicKey_Bytes :: "public_key \<Rightarrow> bytes res" where
  "PublicKey_Bytes pk =
     (if pk_suite pk \<noteq> 0 then Inr (pk_raw pk)
      else case pk_x25519 pk of None \<Rightarrow> Inl Panic
      | Some x \<Rightarrow> Inr (copy_into X25519PublicKeySize x @
          copy_into (CHKEMPublicKeySize - X25519PublicKeySize) (MLKEMPublicKey_Bytes (pk_mlkem pk))))"

definition Ciphertext_Bytes :: "ciphertext \<Rightarrow> bytes" where
  "Ciphertext_Bytes ct =
     (if ct_suite ct \<noteq> 0 then ct_raw ct
      else copy_into X25519PublicKeySize (x25519Ephemeral ct) @
        copy_into (CHKEMCiphertextSize - X25519PublicKeySize) (mlkemCiphertext ct))"

definition KeyPair_Zeroize :: "key_pair \<Rightarrow> key_pair" where
  "KeyPair_Zeroize kp =
     (if kp_suite kp \<noteq> 0 then kp\<lparr>kp_impl := None\<rparr>
      else kp\<lparr>x25519Private := None, x25519Public := None, mlkemPrivate := None, mlkemPublic := None\<rparr>)"

definition SuiteCHKEMv1 :: u16 where "SuiteCHKEMv1 = 1"
definition SuiteXWing :: u16 where "SuiteXWing = 2"

definition PublicKey_Suite :: "public_key \<Rightarrow> u16" where
  "PublicKey_Suite pk = (if pk_suite pk = 0 then SuiteCHKEMv1 else pk_suite pk)"

definition KeyPair_Suite :: "key_pair \<Rightarrow> u16" where
  "KeyPair_Suite kp = (if kp_suite kp = 0 then SuiteCHKEMv1 else kp_suite kp)"

section \<open>The cascade CH-KEM-v1\<close>

definition StaticKeySeedSize :: nat where "StaticKeySeedSize = X25519PrivateKeySize + mlkemSeedSize"

definition GenerateKeyPair :: "kem_lib \<Rightarrow> entropy \<Rightarrow> key_pair res" where
  "GenerateKeyPair K tape =
     bindR (wrapCrypto ''CHKEM.GenerateKeyPair'' (GenerateX25519KeyPair K tape)) (\<lambda>(x, tape).
     bindR (wrapCrypto ''CHKEM.GenerateKeyPair'' (GenerateMLKEMKeyPair K tape)) (\<lambda>(ml, _).
     Inr (v1_key_pair x ml)))"

definition ParseKeyPair :: "kem_lib \<Rightarrow> bytes \<Rightarrow> key_pair res" where
  "ParseKeyPair K seed =
     guardR (length seed \<noteq> StaticKeySeedSize) ErrInvalidKeySize (
     bindR (wrapCrypto ''CHKEM.ParseKeyPair'' (NewX25519KeyPairFromBytes K (take X25519PrivateKeySize seed))) (\<lambda>x.
     bindR (wrapCrypto ''CHKEM.ParseKeyPair'' (NewMLKEMKeyPairFromSeed K (drop X25519PrivateKeySize seed))) (\<lambda>ml.
     Inr (v1_key_pair x ml))))"

definition GenerateStaticKeyPair :: "kem_lib \<Rightarrow> entropy \<Rightarrow> (key_pair \<times> bytes) res" where
  "GenerateStaticKeyPair K tape =
     bindR (wrapCrypto ''CHKEM.GenerateStaticKeyPair'' (SecureRandomBytes StaticKeySeedSize tape)) (\<lambda>(seed, _).
     bindR (ParseKeyPair K seed) (\<lambda>kp. Inr (kp, seed)))"

text \<open>The components hashed into the transcript; \<open>role\<close> is the encapsulating party's.\<close>

definition kem_transcript :: "bytes \<Rightarrow> bytes \<Rightarrow> ciphertext \<Rightarrow> kem_role \<Rightarrow> bytes list" where
  "kem_transcript xpk mlpk ct role =
     [xpk, mlpk, x25519Ephemeral ct, mlkemCiphertext ct, protocolVersionBytes, [role]]"

definition Encapsulate :: "hash_lib \<Rightarrow> kem_lib \<Rightarrow> entropy \<Rightarrow> public_key option \<Rightarrow> kem_role \<Rightarrow> (ciphertext \<times> bytes) res" where
  "Encapsulate H K tape recipient role =
     (case recipient of None \<Rightarrow> failR ErrInvalidPublicKey
      | Some pk \<Rightarrow> (case (pk_x25519 pk, pk_mlkem pk) of
        (Some xpk, Some mlpk) \<Rightarrow>
          bindR (wrapCrypto ''CHKEM.Encapsulate'' (GenerateX25519KeyPair K tape)) (\<lambda>(ephemeral, tape).
          bindR (wrapCrypto ''CHKEM.Encapsulate'' (X25519 K (Some (snd ephemeral)) (Some xpk))) (\<lambda>x25519Secret.
          bindR (wrapCrypto ''CHKEM.Encapsulate'' (MLKEMEncapsulate K tape (Some mlpk))) (\<lambda>(mlct, mlkemSecret).
          let ct = \<lparr>x25519Ephemeral = fst ephemeral, mlkemCiphertext = mlct, ct_suite = 0, ct_raw = []\<rparr> in
          bindR (TranscriptHash H (kem_transcript xpk mlpk ct role)) (\<lambda>transcriptHash.
          bindR (DeriveCHKEMSecret H x25519Secret mlkemSecret transcriptHash) (\<lambda>sharedSecret.
          Inr (ct, sharedSecret))))))
      | _ \<Rightarrow> failR ErrInvalidPublicKey))"

definition Decapsulate :: "hash_lib \<Rightarrow> kem_lib \<Rightarrow> ciphertext option \<Rightarrow> key_pair option \<Rightarrow> kem_role \<Rightarrow> bytes res" where
  "Decapsulate H K ct kp role =
     (case ct of None \<Rightarrow> failR ErrInvalidCiphertext
      | Some ct \<Rightarrow>
        guardR (x25519Ephemeral ct = [] \<or> mlkemCiphertext ct = []) ErrInvalidCiphertext (
        case kp of None \<Rightarrow> failR ErrInvalidPrivateKey
        | Some kp \<Rightarrow>
          guardR (x25519Private kp = None \<or> mlkemPrivate kp = None) ErrInvalidPrivateKey (
          bindR (wrapCrypto ''CHKEM.Decapsulate'' (ParseX25519PublicKey (x25519Ephemeral ct))) (\<lambda>ephemeralPublic.
          bindR (wrapCrypto ''CHKEM.Decapsulate'' (X25519 K (x25519Private kp) (Some ephemeralPublic))) (\<lambda>x25519Secret.
          bindR (wrapCrypto ''CHKEM.Decapsulate'' (MLKEMDecapsulate K (mlkemPrivate kp) (mlkemCiphertext ct))) (\<lambda>mlkemSecret.
          case x25519Public kp of None \<Rightarrow> Inl Panic
          | Some xpk \<Rightarrow>
            bindR (TranscriptHash H (kem_transcript xpk (MLKEMPublicKey_Bytes (mlkemPublic kp)) ct (role_peer role))) (\<lambda>transcriptHash.
            DeriveCHKEMSecret H x25519Secret mlkemSecret transcriptHash)))))))"

definition ParsePublicKey :: "kem_lib \<Rightarrow> bytes \<Rightarrow> public_key res" where
  "ParsePublicKey K d =
     guardR (length d \<noteq> CHKEMPublicKeySize) ErrInvalidPublicKey (
     bindR (ParseX25519PublicKey (take X25519PublicKeySize d)) (\<lambda>x.
     bindR (ParseMLKEMPublicKey K (drop X25519PublicKeySize d)) (\<lambda>ml.
     Inr \<lparr>pk_x25519 = Some x, pk_mlkem = Some ml, pk_suite = 0, pk_raw = []\<rparr>)))"

definition ParseCiphertext :: "bytes \<Rightarrow> ciphertext res" where
  "ParseCiphertext d =
     guardR (length d \<noteq> CHKEMCiphertextSize) ErrInvalidCiphertext (
     Inr \<lparr>x25519Ephemeral = take X25519PublicKeySize d, mlkemCiphertext = drop X25519PublicKeySize d,
       ct_suite = 0, ct_raw = []\<rparr>)"

section \<open>The suite interface\<close>

record kem_suite =
  suite_ID :: u16
  suite_GenerateKeyPair :: "entropy \<Rightarrow> key_pair res"
  suite_GenerateStaticKeyPair :: "entropy \<Rightarrow> (key_pair \<times> bytes) res"
  suite_ParseKeyPair :: "bytes \<Rightarrow> key_pair res"
  suite_Encapsulate :: "entropy \<Rightarrow> public_key option \<Rightarrow> kem_role \<Rightarrow> (ciphertext \<times> bytes) res"
  suite_Decapsulate :: "ciphertext option \<Rightarrow> key_pair option \<Rightarrow> kem_role \<Rightarrow> bytes res"
  suite_ParsePublicKey :: "bytes \<Rightarrow> public_key res"
  suite_ParseCiphertext :: "bytes \<Rightarrow> ciphertext res"
  PublicKeySize :: nat
  CiphertextSize :: nat
  SeedSize :: nat
  suite_IsFIPSApproved :: bool

definition chkemV1 :: "hash_lib \<Rightarrow> kem_lib \<Rightarrow> kem_suite" where
  "chkemV1 H K = \<lparr>suite_ID = SuiteCHKEMv1, suite_GenerateKeyPair = GenerateKeyPair K,
     suite_GenerateStaticKeyPair = GenerateStaticKeyPair K, suite_ParseKeyPair = ParseKeyPair K,
     suite_Encapsulate = Encapsulate H K, suite_Decapsulate = Decapsulate H K,
     suite_ParsePublicKey = ParsePublicKey K, suite_ParseCiphertext = ParseCiphertext,
     PublicKeySize = CHKEMPublicKeySize, CiphertextSize = CHKEMCiphertextSize,
     SeedSize = StaticKeySeedSize, suite_IsFIPSApproved = True\<rparr>"

text \<open>The X-Wing adapter keeps its key handle in \<open>kp_impl\<close> and its encodings in the raw fields.\<close>

definition xwing_kp :: "xwing_key_pair \<Rightarrow> key_pair" where
  "xwing_kp h = \<lparr>x25519Public = None, x25519Private = None, mlkemPublic = None, mlkemPrivate = None,
     kp_suite = SuiteXWing, kp_impl = Some h\<rparr>"

definition xwing_GenerateKeyPair :: "kem_lib \<Rightarrow> entropy \<Rightarrow> key_pair res" where
  "xwing_GenerateKeyPair K tape = bindR (GenerateXWingKeyPair K tape) (\<lambda>h. Inr (xwing_kp h))"

definition xwing_GenerateStaticKeyPair :: "kem_lib \<Rightarrow> entropy \<Rightarrow> (key_pair \<times> bytes) res" where
  "xwing_GenerateStaticKeyPair K tape =
     bindR (wrapCrypto ''XWing.GenerateStaticKeyPair'' (SecureRandomBytes XWingSeedSize tape)) (\<lambda>(seed, _).
     bindR (NewXWingKeyPairFromSeed K seed) (\<lambda>h. Inr (xwing_kp h, seed)))"

definition xwing_ParseKeyPair :: "kem_lib \<Rightarrow> bytes \<Rightarrow> key_pair res" where
  "xwing_ParseKeyPair K seed = bindR (NewXWingKeyPairFromSeed K seed) (\<lambda>h. Inr (xwing_kp h))"

definition xwingSuite_Encapsulate :: "kem_lib \<Rightarrow> entropy \<Rightarrow> public_key option \<Rightarrow> kem_role \<Rightarrow> (ciphertext \<times> bytes) res" where
  "xwingSuite_Encapsulate K tape recipient role =
     (case recipient of None \<Rightarrow> failR ErrInvalidPublicKey
      | Some pk \<Rightarrow>
        guardR (pk_suite pk \<noteq> SuiteXWing) ErrInvalidPublicKey (
        bindR (XWingEncapsulate K tape (pk_raw pk)) (\<lambda>(ct, ss).
        Inr (\<lparr>x25519Ephemeral = [], mlkemCiphertext = [], ct_suite = SuiteXWing, ct_raw = ct\<rparr>, ss))))"

definition xwingSuite_Decapsulate :: "kem_lib \<Rightarrow> ciphertext option \<Rightarrow> key_pair option \<Rightarrow> kem_role \<Rightarrow> bytes res" where
  "xwingSuite_Decapsulate K ct kp role =
     (case ct of None \<Rightarrow> failR ErrInvalidCiphertext
      | Some ct \<Rightarrow>
        guardR (ct_suite ct \<noteq> SuiteXWing) ErrInvalidCiphertext (
        case kp of None \<Rightarrow> failR ErrInvalidPrivateKey
        | Some kp \<Rightarrow> (case kp_impl kp of None \<Rightarrow> failR ErrInvalidPrivateKey
        | Some xkp \<Rightarrow> XWingDecapsulate K (privateSeed xkp) (ct_raw ct))))"

definition xwing_ParsePublicKey :: "bytes \<Rightarrow> public_key res" where
  "xwing_ParsePublicKey d = bindR (ParseXWingPublicKey d) (\<lambda>raw.
     Inr \<lparr>pk_x25519 = None, pk_mlkem = None, pk_suite = SuiteXWing, pk_raw = raw\<rparr>)"

definition xwing_ParseCiphertext :: "bytes \<Rightarrow> ciphertext res" where
  "xwing_ParseCiphertext d =
     guardR (length d \<noteq> XWingCiphertextSize) ErrInvalidCiphertext (
     Inr \<lparr>x25519Ephemeral = [], mlkemCiphertext = [], ct_suite = SuiteXWing, ct_raw = d\<rparr>)"

definition xwingSuite :: "kem_lib \<Rightarrow> kem_suite" where
  "xwingSuite K = \<lparr>suite_ID = SuiteXWing, suite_GenerateKeyPair = xwing_GenerateKeyPair K,
     suite_GenerateStaticKeyPair = xwing_GenerateStaticKeyPair K, suite_ParseKeyPair = xwing_ParseKeyPair K,
     suite_Encapsulate = xwingSuite_Encapsulate K, suite_Decapsulate = xwingSuite_Decapsulate K,
     suite_ParsePublicKey = xwing_ParsePublicKey, suite_ParseCiphertext = xwing_ParseCiphertext,
     PublicKeySize = XWingPublicKeySize, CiphertextSize = XWingCiphertextSize,
     SeedSize = XWingSeedSize, suite_IsFIPSApproved = True\<rparr>"

definition DefaultSuite :: "hash_lib \<Rightarrow> kem_lib \<Rightarrow> kem_suite" where
  "DefaultSuite H K = chkemV1 H K"

definition GetSuite :: "hash_lib \<Rightarrow> kem_lib \<Rightarrow> u16 \<Rightarrow> kem_suite option" where
  "GetSuite H K sid =
     (if sid = SuiteCHKEMv1 then Some (chkemV1 H K) else if sid = SuiteXWing then Some (xwingSuite K) else None)"

definition SupportedSuites :: "u16 list" where
  "SupportedSuites = [SuiteCHKEMv1, SuiteXWing]"

section \<open>Suite-tagged identities\<close>

definition suiteTagSize :: nat where "suiteTagSize = 2"

definition TagSuite :: "u16 \<Rightarrow> bytes \<Rightarrow> bytes" where
  "TagSuite sid body = put_u16 sid @ body"

definition splitSuiteTag :: "hash_lib \<Rightarrow> kem_lib \<Rightarrow> bytes \<Rightarrow> (kem_suite \<times> bytes) res" where
  "splitSuiteTag H K d =
     guardR (length d < suiteTagSize) ErrInvalidKeySize (
     bindR (u16_at d 0) (\<lambda>sid.
     case GetSuite H K sid of None \<Rightarrow> failR ErrUnsupportedKEMSuite
     | Some suite \<Rightarrow> Inr (suite, drop suiteTagSize d)))"

definition ParseTaggedKeyPair :: "hash_lib \<Rightarrow> kem_lib \<Rightarrow> bytes \<Rightarrow> key_pair res" where
  "ParseTaggedKeyPair H K d = bindR (splitSuiteTag H K d) (\<lambda>(suite, body). suite_ParseKeyPair suite body)"

definition ParseTaggedPublicKey :: "hash_lib \<Rightarrow> kem_lib \<Rightarrow> bytes \<Rightarrow> public_key res" where
  "ParseTaggedPublicKey H K d = bindR (splitSuiteTag H K d) (\<lambda>(suite, body). suite_ParsePublicKey suite body)"

section \<open>Lemmas\<close>

lemmas kem_sizes = constant_defs mlkemSeedSize_def StaticKeySeedSize_def suiteTagSize_def

lemma wrapCrypto_simps [simp]:
  "wrapCrypto op (Inr x) = Inr x"
  "wrapCrypto op r = Inr x \<longleftrightarrow> r = Inr x"
  "wrapCrypto op r = Inl Panic \<longleftrightarrow> r = Inl Panic"
  by (auto simp: wrapCrypto_def failR_def split: sum.splits failure.splits)

lemma SecureRandom_iff [result_simps]:
  "SecureRandom n tape = Inr (b, rest) \<longleftrightarrow> n \<le> length tape \<and> b = take n tape \<and> rest = drop n tape"
  "SecureRandom n tape \<noteq> Inl Panic"
  by (auto simp: SecureRandom_def)

lemma copy_into_exact [simp]: "length b = n \<Longrightarrow> copy_into n b = b"
  by (simp add: copy_into_def)

lemma length_copy_into [simp]: "length (copy_into n b) = n"
  by (simp add: copy_into_def)

lemma kem_lib_okD:
  assumes "kem_lib_ok K"
  shows "length (ecdh_public K a) = 32"
    "length a = 32 \<Longrightarrow> length b = 32 \<Longrightarrow>
      \<exists>s. ecdh_ECDH K a (ecdh_public K b) = Some s \<and> ecdh_ECDH K b (ecdh_public K a) = Some s \<and> length s = 32"
    "length (fst (mlkem_derive K seed)) = 1568"
    "mlkem_Unpack K (fst (mlkem_derive K seed)) = Some (fst (mlkem_derive K seed))"
    "length (fst (mlkem_EncapsulateTo K pk r)) = 1568" "length (snd (mlkem_EncapsulateTo K pk r)) = 32"
    "mlkem_DecapsulateTo K (snd (mlkem_derive K seed)) (fst (mlkem_EncapsulateTo K (fst (mlkem_derive K seed)) r)) =
      snd (mlkem_EncapsulateTo K (fst (mlkem_derive K seed)) r)"
    "length (fst (xwing_DeriveKeyPairPacked K seed)) = 32"
    "length (snd (xwing_DeriveKeyPairPacked K seed)) = 1216"
    "\<exists>ss ct. xwing_Encapsulate K (snd (xwing_DeriveKeyPairPacked K seed)) r = Some (ss, ct) \<and>
      length ss = 32 \<and> length ct = 1120 \<and> xwing_Decapsulate K ct (fst (xwing_DeriveKeyPairPacked K seed)) = ss"
  using assms unfolding kem_lib_ok_def by blast+

text \<open>A key pair serves a suite: its encoded public key parses, any holder of it can encapsulate, and the
  encoded ciphertext decapsulates to the same 32-byte secret.\<close>

definition kem_serves_as :: "kem_role \<Rightarrow> kem_suite \<Rightarrow> key_pair \<Rightarrow> bool" where
  "kem_serves_as role S kp \<longleftrightarrow>
     (\<exists>b. PublicKey_Bytes (PublicKey kp) = Inr b \<and> length b = PublicKeySize S \<and>
       suite_ParsePublicKey S b = Inr (PublicKey kp)) \<and>
     (\<forall>tape. 64 \<le> length tape \<longrightarrow> (\<exists>r. suite_Encapsulate S tape (Some (PublicKey kp)) role = Inr r)) \<and>
     (\<forall>tape ct ss. suite_Encapsulate S tape (Some (PublicKey kp)) role = Inr (ct, ss) \<longrightarrow>
        length ss = 32 \<and> length (Ciphertext_Bytes ct) = CiphertextSize S \<and>
        (\<exists>ct'. suite_ParseCiphertext S (Ciphertext_Bytes ct) = Inr ct' \<and>
           suite_Decapsulate S (Some ct') (Some kp) (role_peer role) = Inr ss))"

text \<open>Ephemeral keys are used by a responder, static keys by an initiator.\<close>

abbreviation kem_serves :: "kem_suite \<Rightarrow> key_pair \<Rightarrow> bool" where
  "kem_serves \<equiv> kem_serves_as KemRoleResponder"

abbreviation kem_serves_static :: "kem_suite \<Rightarrow> key_pair \<Rightarrow> bool" where
  "kem_serves_static \<equiv> kem_serves_as KemRoleInitiator"

lemma role_peer_simps [simp]:
  "role_peer KemRoleResponder = KemRoleInitiator" "role_peer KemRoleInitiator = KemRoleResponder"
  by (simp_all add: role_peer_def KemRoleInitiator_def KemRoleResponder_def)

lemmas kem_serves_def = kem_serves_as_def [of KemRoleResponder, unfolded role_peer_simps]
lemmas kem_serves_static_def = kem_serves_as_def [of KemRoleInitiator, unfolded role_peer_simps]

text \<open>The contract of a suite: generation succeeds on a long enough tape, and generated and static key
  pairs serve the suite; a seed reproduces its key pair.\<close>

definition kem_correct :: "kem_suite \<Rightarrow> bool" where
  "kem_correct S \<longleftrightarrow>
     (\<forall>tape. 96 \<le> length tape \<longrightarrow> (\<exists>kp. suite_GenerateKeyPair S tape = Inr kp)) \<and>
     (\<forall>tape kp. suite_GenerateKeyPair S tape = Inr kp \<longrightarrow> kem_serves S kp \<and> KeyPair_Suite kp = suite_ID S) \<and>
     (\<forall>tape kp seed. suite_GenerateStaticKeyPair S tape = Inr (kp, seed) \<longrightarrow>
        kem_serves S kp \<and> length seed = SeedSize S \<and> suite_ParseKeyPair S seed = Inr kp \<and>
        KeyPair_Suite kp = suite_ID S \<and> kem_serves_static S kp)"

locale kem_contract =
  fixes suite :: "hash_lib \<Rightarrow> kem_lib \<Rightarrow> kem_suite" and sid :: u16
  assumes correct: "hash_lib_ok H \<Longrightarrow> kem_lib_ok K \<Longrightarrow> kem_correct (suite H K)"
    and ident: "suite_ID (suite H K) = sid"
begin

lemma exchange:
  assumes "hash_lib_ok H" "kem_lib_ok K" "suite_GenerateKeyPair (suite H K) t1 = Inr kp"
    "PublicKey_Bytes (PublicKey kp) = Inr b" "suite_ParsePublicKey (suite H K) b = Inr pk"
    "suite_Encapsulate (suite H K) t2 (Some pk) KemRoleResponder = Inr (ct, ss)"
  shows "length ss = 32 \<and> (\<exists>ct'. suite_ParseCiphertext (suite H K) (Ciphertext_Bytes ct) = Inr ct' \<and>
    suite_Decapsulate (suite H K) (Some ct') (Some kp) KemRoleInitiator = Inr ss)"
  using correct [OF assms(1,2)] assms(3-6) unfolding kem_correct_def kem_serves_def by fastforce

lemma share_parses:
  assumes "hash_lib_ok H" "kem_lib_ok K" "suite_GenerateKeyPair (suite H K) t1 = Inr kp"
  shows "\<exists>b. PublicKey_Bytes (PublicKey kp) = Inr b \<and> suite_ParsePublicKey (suite H K) b = Inr (PublicKey kp)"
  using correct [OF assms(1,2)] assms(3) unfolding kem_correct_def kem_serves_def by fastforce

end

lemma v1_key_share:
  assumes "kem_lib_ok K" "kp = v1_key_pair (ecdh_public K a, a) (mlkem_derive K seed)"
  shows "PublicKey_Bytes (PublicKey kp) = Inr (ecdh_public K a @ fst (mlkem_derive K seed))"
    "ParsePublicKey K (ecdh_public K a @ fst (mlkem_derive K seed)) =
      Inr \<lparr>pk_x25519 = Some (ecdh_public K a), pk_mlkem = Some (fst (mlkem_derive K seed)), pk_suite = 0, pk_raw = []\<rparr>"
  using kem_lib_okD(1,3,4) [OF assms(1)] assms(2)
  by (simp_all add: PublicKey_Bytes_def PublicKey_def v1_key_pair_def MLKEMPublicKey_Bytes_def
      ParsePublicKey_def ParseX25519PublicKey_def ParseMLKEMPublicKey_def kem_sizes)

lemma v1_Encapsulate:
  assumes "hash_lib_ok H" "kem_lib_ok K" "length a = 32" "64 \<le> length tape"
  shows "\<exists>ct ss. Encapsulate H K tape
    (Some \<lparr>pk_x25519 = Some (ecdh_public K a), pk_mlkem = Some (fst (mlkem_derive K seed)), pk_suite = 0, pk_raw = []\<rparr>) role = Inr (ct, ss) \<and>
    length ss = 32 \<and> ct_suite ct = 0 \<and> length (x25519Ephemeral ct) = 32 \<and> length (mlkemCiphertext ct) = 1568 \<and>
    (\<forall>r. role_peer r = role \<longrightarrow>
      Decapsulate H K (Some ct) (Some (v1_key_pair (ecdh_public K a, a) (mlkem_derive K seed))) r = Inr ss)"
proof -
  note ok = kem_lib_okD [OF assms(2)]
  let ?e = "take 32 tape" and ?r = "take 32 (drop 32 tape)" and ?mpk = "fst (mlkem_derive K seed)"
  have l: "length ?e = 32" "length ?r = 32" "\<not> length tape < 32" "\<not> length tape - 32 < 32"
    using assms(4) by simp_all
  obtain s where s: "ecdh_ECDH K ?e (ecdh_public K a) = Some s" "ecdh_ECDH K a (ecdh_public K ?e) = Some s" "length s = 32"
    using ok(2) [OF l(1) assms(3)] by auto
  let ?ct = "\<lparr>x25519Ephemeral = ecdh_public K ?e, mlkemCiphertext = fst (mlkem_EncapsulateTo K ?mpk ?r), ct_suite = 0, ct_raw = []\<rparr>"
  obtain h where h: "TranscriptHash H (kem_transcript (ecdh_public K a) ?mpk ?ct role) = Inr h" "length h = 32"
    using TranscriptHash_total [OF assms(1), of "kem_transcript (ecdh_public K a) ?mpk ?ct role"] ok(1,3,5)
    by (auto simp: kem_transcript_def protocolVersionBytes_def)
  obtain ss where ss: "DeriveCHKEMSecret H s (snd (mlkem_EncapsulateTo K ?mpk ?r)) h = Inr ss" "length ss = 32"
    using DeriveCHKEMSecret_total [OF assms(1) s(3) ok(6) h(2)] by blast
  have e: "Encapsulate H K tape
    (Some \<lparr>pk_x25519 = Some (ecdh_public K a), pk_mlkem = Some ?mpk, pk_suite = 0, pk_raw = []\<rparr>) role = Inr (?ct, ss)"
    using s h ss l
    by (simp add: Encapsulate_def GenerateX25519KeyPair_def X25519_def MLKEMEncapsulate_def
        SecureRandom_def MLKEMEncapsulateWithSeed_def kem_sizes Let_def case_prod_beta)
  have d: "Decapsulate H K (Some ?ct) (Some (v1_key_pair (ecdh_public K a, a) (mlkem_derive K seed))) r = Inr ss"
    if "role_peer r = role" for r
    using that s h ss ok(1,5,7)
    by (simp add: Decapsulate_def v1_key_pair_def ParseX25519PublicKey_def X25519_def MLKEMDecapsulate_def
        MLKEMPublicKey_Bytes_def kem_sizes flip: length_0_conv)
  show ?thesis
    using e d ss(2) ok(1,5) by (intro exI [of _ ?ct] exI [of _ ss]) simp
qed

lemma v1_serves:
  assumes "hash_lib_ok H" "kem_lib_ok K" "length a = 32" "role_peer (role_peer role) = role"
  shows "kem_serves_as role (chkemV1 H K) (v1_key_pair (ecdh_public K a, a) (mlkem_derive K seed))"
proof -
  let ?kp = "v1_key_pair (ecdh_public K a, a) (mlkem_derive K seed)"
  let ?pk = "\<lparr>pk_x25519 = Some (ecdh_public K a), pk_mlkem = Some (fst (mlkem_derive K seed)), pk_suite = 0, pk_raw = []\<rparr>"
  have pk: "PublicKey ?kp = ?pk"
    by (simp add: PublicKey_def v1_key_pair_def)
  have sh: "PublicKey_Bytes ?pk = Inr (ecdh_public K a @ fst (mlkem_derive K seed))"
    using v1_key_share(1) [OF assms(2), of ?kp a seed] pk by simp
  have short: "Encapsulate H K tape (Some ?pk) role \<noteq> Inr r" if "length tape < 64" for tape role r
    using that by (auto simp: Encapsulate_def GenerateX25519KeyPair_def MLKEMEncapsulate_def result_simps kem_sizes)
  have rt: "\<exists>ct'. ParseCiphertext (Ciphertext_Bytes ct) = Inr ct' \<and> x25519Ephemeral ct' = x25519Ephemeral ct \<and>
      mlkemCiphertext ct' = mlkemCiphertext ct"
    if "ct_suite ct = 0" "length (x25519Ephemeral ct) = 32" "length (mlkemCiphertext ct) = 1568" for ct
    using that by (simp add: ParseCiphertext_def Ciphertext_Bytes_def kem_sizes)
  have dec: "Decapsulate H K (Some ct') kp r = Decapsulate H K (Some ct) kp r"
    if "x25519Ephemeral ct' = x25519Ephemeral ct" "mlkemCiphertext ct' = mlkemCiphertext ct" for ct ct' kp r
    unfolding Decapsulate_def kem_transcript_def option.case that ..
  have enc: "length ss = 32 \<and> length (Ciphertext_Bytes ct) = 1600 \<and>
      (\<exists>ct'. ParseCiphertext (Ciphertext_Bytes ct) = Inr ct' \<and> Decapsulate H K (Some ct') (Some ?kp) (role_peer role) = Inr ss)"
    if "Encapsulate H K tape (Some ?pk) role = Inr (ct, ss)" for tape ct ss
  proof -
    have "64 \<le> length tape"
      using short [of tape] that by (meson not_le)
    then have *: "length ss = 32" "ct_suite ct = 0" "length (x25519Ephemeral ct) = 32" "length (mlkemCiphertext ct) = 1568"
        "Decapsulate H K (Some ct) (Some ?kp) (role_peer role) = Inr ss"
      using v1_Encapsulate [OF assms(1-3), of tape seed role] that assms(4) by auto
    obtain ct' where "ParseCiphertext (Ciphertext_Bytes ct) = Inr ct'"
        "x25519Ephemeral ct' = x25519Ephemeral ct" "mlkemCiphertext ct' = mlkemCiphertext ct"
      using rt [OF *(2-4)] by blast
    moreover have "length (Ciphertext_Bytes ct) = 1600"
      using *(2) by (simp add: Ciphertext_Bytes_def kem_sizes)
    ultimately show ?thesis
      using *(1,5) dec [of ct' ct "Some ?kp" "role_peer role"] by simp
  qed
  have "\<exists>r. Encapsulate H K tape (Some ?pk) role = Inr r" if "64 \<le> length tape" for tape
    using v1_Encapsulate [OF assms(1-3) that, of seed role] by blast
  then show ?thesis
    unfolding kem_serves_as_def using enc pk
    by (simp add: sh v1_key_share(2) [OF assms(2) refl] kem_lib_okD(1,3) [OF assms(2)] chkemV1_def kem_sizes)
qed

lemma xwing_serves:
  assumes "kem_lib_ok K" "xwing_DeriveKeyPairPacked K seed = (sk, pk)"
  shows "kem_serves_as role (xwingSuite K) (xwing_kp \<lparr>privateSeed = sk, xw_publicKey = pk\<rparr>)"
proof -
  have l: "length sk = 32" "length pk = 1216"
    and x: "\<And>r. \<exists>ss ct. xwing_Encapsulate K pk r = Some (ss, ct) \<and> length ss = 32 \<and> length ct = 1120 \<and> xwing_Decapsulate K ct sk = ss"
    using kem_lib_okD(8-10) [OF assms(1), of seed] assms(2) by auto
  have "\<exists>r. XWingEncapsulate K tape pk = Inr r" if "64 \<le> length tape" for tape
    using that l x [of "take 64 tape"] by (auto simp: XWingEncapsulate_def SecureRandom_def XWingEncapsulateWithSeed_def kem_sizes)
  moreover have "length ss = 32 \<and> length ct = 1120 \<and> XWingDecapsulate K sk ct = Inr ss"
    if "XWingEncapsulate K tape pk = Inr (ct, ss)" for tape ct ss
    using that l x [of "take 64 tape"]
    by (auto simp: XWingEncapsulate_def SecureRandom_def XWingEncapsulateWithSeed_def XWingDecapsulate_def
        kem_sizes result_simps split: if_splits)
  ultimately show ?thesis
    unfolding kem_serves_as_def using l
    apply (auto simp: xwingSuite_def PublicKey_Bytes_def PublicKey_def xwing_kp_def SuiteXWing_def
        xwing_ParsePublicKey_def ParseXWingPublicKey_def xwingSuite_Encapsulate_def xwingSuite_Decapsulate_def
        xwing_ParseCiphertext_def Ciphertext_Bytes_def kem_sizes result_simps)
    by blast
qed

lemma GenerateKeyPair_iff:
  "GenerateKeyPair K tape = Inr kp \<longleftrightarrow> 96 \<le> length tape \<and>
     kp = v1_key_pair (ecdh_public K (take 32 tape), take 32 tape) (mlkem_derive K (take 64 (drop 32 tape)))"
  by (cases "mlkem_derive K (take 64 (drop 32 tape))") (auto simp: GenerateKeyPair_def GenerateX25519KeyPair_def GenerateMLKEMKeyPair_def result_simps kem_sizes case_prod_beta)

lemma ParseKeyPair_iff:
  "ParseKeyPair K seed = Inr kp \<longleftrightarrow> length seed = 96 \<and>
     kp = v1_key_pair (ecdh_public K (take 32 seed), take 32 seed) (mlkem_derive K (drop 32 seed))"
  by (auto simp: ParseKeyPair_def NewX25519KeyPairFromBytes_def NewMLKEMKeyPairFromSeed_def result_simps kem_sizes case_prod_beta)

lemma chkemV1_correct:
  assumes "hash_lib_ok H" "kem_lib_ok K"
  shows "kem_correct (chkemV1 H K)"
proof -
  have sid [simp]: "KeyPair_Suite (v1_key_pair x ml) = SuiteCHKEMv1" for x ml
    by (simp add: KeyPair_Suite_def v1_key_pair_def)
  have "GenerateKeyPair K tape = Inr kp \<Longrightarrow> kem_serves (chkemV1 H K) kp \<and> KeyPair_Suite kp = SuiteCHKEMv1" for tape kp
    using v1_serves [OF assms] by (auto simp: GenerateKeyPair_iff)
  moreover have "GenerateStaticKeyPair K tape = Inr (kp, seed) \<Longrightarrow>
      kem_serves (chkemV1 H K) kp \<and> length seed = 96 \<and> ParseKeyPair K seed = Inr kp \<and>
      KeyPair_Suite kp = SuiteCHKEMv1 \<and> kem_serves_static (chkemV1 H K) kp" for tape kp seed
    using v1_serves [OF assms]
    by (auto simp: GenerateStaticKeyPair_def SecureRandomBytes_def result_simps ParseKeyPair_iff case_prod_beta)
  ultimately show ?thesis
    unfolding kem_correct_def by (simp add: chkemV1_def GenerateKeyPair_iff kem_sizes)
qed

lemma NewXWingKeyPairFromSeed_iff:
  "NewXWingKeyPairFromSeed K seed = Inr h \<longleftrightarrow> length seed = 32 \<and>
     h = \<lparr>privateSeed = fst (xwing_DeriveKeyPairPacked K seed), xw_publicKey = snd (xwing_DeriveKeyPairPacked K seed)\<rparr>"
  by (auto simp: NewXWingKeyPairFromSeed_def result_simps kem_sizes case_prod_beta)

lemma xwingSuite_correct:
  assumes "kem_lib_ok K"
  shows "kem_correct (xwingSuite K)"
proof -
  have sid: "KeyPair_Suite (xwing_kp h) = SuiteXWing" for h
    by (simp add: KeyPair_Suite_def xwing_kp_def SuiteXWing_def)
  have sv: "kem_serves (xwingSuite K) (xwing_kp h) \<and> KeyPair_Suite (xwing_kp h) = SuiteXWing \<and>
      kem_serves_static (xwingSuite K) (xwing_kp h)"
    if "NewXWingKeyPairFromSeed K seed = Inr h" for seed h
    using that xwing_serves [OF assms surjective_pairing] sid by (simp add: NewXWingKeyPairFromSeed_iff)
  have "kem_serves (xwingSuite K) kp \<and> KeyPair_Suite kp = SuiteXWing" if g: "xwing_GenerateKeyPair K tape = Inr kp" for tape kp
  proof -
    obtain seed h where "NewXWingKeyPairFromSeed K seed = Inr h" "kp = xwing_kp h"
      using g by (auto simp: xwing_GenerateKeyPair_def GenerateXWingKeyPair_def bindR_Inr_iff)
    then show ?thesis
      using sv by simp
  qed
  moreover have "kem_serves (xwingSuite K) kp \<and> length seed = 32 \<and> xwing_ParseKeyPair K seed = Inr kp \<and>
      KeyPair_Suite kp = SuiteXWing \<and> kem_serves_static (xwingSuite K) kp" if g: "xwing_GenerateStaticKeyPair K tape = Inr (kp, seed)" for tape kp seed
  proof -
    obtain h where "NewXWingKeyPairFromSeed K seed = Inr h" "kp = xwing_kp h"
      using g by (auto simp: xwing_GenerateStaticKeyPair_def bindR_Inr_iff)
    then show ?thesis
      using sv by (auto simp: xwing_ParseKeyPair_def dest: NewXWingKeyPairFromSeed_iff [THEN iffD1])
  qed
  moreover have "\<exists>kp. xwing_GenerateKeyPair K tape = Inr kp" if "96 \<le> length tape" for tape
    using that by (simp add: xwing_GenerateKeyPair_def GenerateXWingKeyPair_def NewXWingKeyPairFromSeed_def
        SecureRandom_def kem_sizes case_prod_beta)
  ultimately show ?thesis
    unfolding kem_correct_def by (simp add: xwingSuite_def kem_sizes)
qed

interpretation v1: kem_contract chkemV1 SuiteCHKEMv1
  by unfold_locales (simp_all add: chkemV1_correct, simp add: chkemV1_def)

interpretation xw: kem_contract "\<lambda>_. xwingSuite" SuiteXWing
  by unfold_locales (simp_all add: xwingSuite_correct, simp add: xwingSuite_def)

lemma GetSuite_cases:
  assumes "GetSuite H K sid = Some S"
  obtains "sid = SuiteCHKEMv1" "S = chkemV1 H K" | "sid = SuiteXWing" "S = xwingSuite K"
  using assms by (auto simp: GetSuite_def split: if_splits)

lemma GetSuite_correct:
  assumes "hash_lib_ok H" "kem_lib_ok K" "GetSuite H K sid = Some S"
  shows "kem_correct S \<and> suite_ID S = sid"
  using assms(3) by (cases rule: GetSuite_cases) (auto simp: v1.correct xw.correct [OF assms(1,2)] v1.ident xw.ident assms(1,2))

text \<open>No bytes from the peer make a KEM operation panic.\<close>

lemma X25519_no_panic [simp]: "X25519 K sk pk \<noteq> Inl Panic" "MLKEMDecapsulate K dk ct \<noteq> Inl Panic"
  by (auto simp: X25519_def MLKEMDecapsulate_def result_simps split: option.splits)

lemma DeriveCHKEMSecret_no_panic [simp]: "DeriveCHKEMSecret H a b c \<noteq> Inl Panic"
  by (auto simp: DeriveCHKEMSecret_def result_simps DeriveKeyMultiple_no_panic)

lemma Encapsulate_no_panic: "Encapsulate H K tape pk r \<noteq> Inl Panic" "xwingSuite_Encapsulate K tape pk r \<noteq> Inl Panic"
  by (auto simp: Encapsulate_def xwingSuite_Encapsulate_def XWingEncapsulate_def XWingEncapsulateWithSeed_def MLKEMEncapsulate_def
      MLKEMEncapsulateWithSeed_def GenerateX25519KeyPair_def result_simps Let_def split: option.splits prod.splits)

lemma Decapsulate_no_panic:
  "x25519Public kp \<noteq> None \<Longrightarrow> Decapsulate H K ct (Some kp) r \<noteq> Inl Panic" "xwingSuite_Decapsulate K ct (Some kp) r \<noteq> Inl Panic"
  by (auto simp: Decapsulate_def xwingSuite_Decapsulate_def XWingDecapsulate_def ParseX25519PublicKey_def result_simps
      split: option.splits)

lemma suite_no_panic:
  assumes "GetSuite H K sid = Some S"
  shows "suite_ParsePublicKey S b \<noteq> Inl Panic" "suite_ParseCiphertext S b \<noteq> Inl Panic" "suite_Encapsulate S tape pk r \<noteq> Inl Panic"
    "suite_GenerateKeyPair S tape' = Inr kp \<Longrightarrow> suite_Decapsulate S ct (Some kp) r \<noteq> Inl Panic"
    "suite_GenerateKeyPair S tape \<noteq> Inl Panic"
  using assms
  by (cases rule: GetSuite_cases; auto simp: chkemV1_def xwingSuite_def Encapsulate_no_panic Decapsulate_no_panic ParsePublicKey_def
      ParseX25519PublicKey_def ParseMLKEMPublicKey_def xwing_ParsePublicKey_def ParseXWingPublicKey_def ParseCiphertext_def
      xwing_ParseCiphertext_def GenerateKeyPair_iff v1_key_pair_def result_simps GenerateKeyPair_def GenerateX25519KeyPair_def
      GenerateMLKEMKeyPair_def xwing_GenerateKeyPair_def GenerateXWingKeyPair_def NewXWingKeyPairFromSeed_def Let_def
      split: option.splits prod.splits)+

lemma splitSuiteTag_TagSuite:
  "splitSuiteTag H K (TagSuite sid body) =
     (case GetSuite H K sid of None \<Rightarrow> failR ErrUnsupportedKEMSuite | Some S \<Rightarrow> Inr (S, body))"
  using read_at(1) [of 0 "put_u16 sid @ body" sid body]
  by (cases "GetSuite H K sid") (simp_all add: splitSuiteTag_def TagSuite_def suiteTagSize_def)

section \<open>A concrete library\<close>

text \<open>Toy key exchange that meets the assumptions: keys are padded seeds and secrets are sums or copies.\<close>

definition toy_kem_lib :: kem_lib where
  "toy_kem_lib = \<lparr>ecdh_public = copy_into 32,
     ecdh_ECDH = (\<lambda>a p. Some (map2 (+) (copy_into 32 a) p)),
     mlkem_derive = (\<lambda>seed. (copy_into 1568 seed, seed)), mlkem_Unpack = Some,
     mlkem_EncapsulateTo = (\<lambda>pk r. (copy_into 1568 r, copy_into 32 r)),
     mlkem_DecapsulateTo = (\<lambda>sk ct. take 32 ct),
     xwing_DeriveKeyPairPacked = (\<lambda>seed. (copy_into 32 seed, copy_into 1216 seed)),
     xwing_Encapsulate = (\<lambda>pk r. Some (copy_into 32 r, copy_into 1120 r)),
     xwing_Decapsulate = (\<lambda>ct sk. take 32 ct)\<rparr>"

lemma take_copy_into: "m \<le> n \<Longrightarrow> take m (copy_into n b) = copy_into m b"
  by (auto simp: copy_into_def min_def)

lemma map2_add_commute: "map2 (+) xs ys = map2 (+) ys (xs :: bytes)"
  by (induction xs ys rule: list_induct2') (auto simp: add.commute)

lemma toy_kem_lib_ok: "kem_lib_ok toy_kem_lib"
  by (simp add: kem_lib_ok_def toy_kem_lib_def take_copy_into map2_add_commute)

section \<open>Properties\<close>

text \<open>
  C26: For every registered suite, a generated key share survives the wire and completes the exchange: the
  encoded public key parses back, encapsulating to it (the responder's move) succeeds given 64 random
  bytes, and decapsulating the re-parsed ciphertext (the initiator's move) yields the same 32-byte secret.
\<close>

theorem kem_exchange_agrees:
  assumes "hash_lib_ok H" "kem_lib_ok K" "GetSuite H K sid = Some S"
    "suite_GenerateKeyPair S t1 = Inr kp" "64 \<le> length t2"
  shows "\<exists>b ct ct' ss. PublicKey_Bytes (PublicKey kp) = Inr b \<and> suite_ParsePublicKey S b = Inr (PublicKey kp) \<and>
    suite_Encapsulate S t2 (Some (PublicKey kp)) KemRoleResponder = Inr (ct, ss) \<and>
    suite_ParseCiphertext S (Ciphertext_Bytes ct) = Inr ct' \<and>
    suite_Decapsulate S (Some ct') (Some kp) KemRoleInitiator = Inr ss \<and> length ss = 32"
proof -
  have "kem_serves S kp"
    using GetSuite_correct [OF assms(1-3)] assms(4) by (auto simp: kem_correct_def)
  moreover from this obtain ct ss where "suite_Encapsulate S t2 (Some (PublicKey kp)) KemRoleResponder = Inr (ct, ss)"
    using assms(5) unfolding kem_serves_def by (metis surj_pair)
  ultimately show ?thesis
    unfolding kem_serves_def by blast
qed

theorem kem_exchange_agrees_witness:
  "\<exists>kp. GenerateKeyPair toy_kem_lib (replicate 96 5) = Inr kp \<and>
     (\<exists>ct ss. Encapsulate zero_hash_lib toy_kem_lib (replicate 64 9) (Some (PublicKey kp)) KemRoleResponder = Inr (ct, ss) \<and>
        length ss = 32)"
proof -
  obtain kp where kp: "GenerateKeyPair toy_kem_lib (replicate 96 5) = Inr kp"
    by (simp add: GenerateKeyPair_iff)
  then show ?thesis
    using kem_exchange_agrees [OF zero_hash_lib_ok toy_kem_lib_ok, of SuiteCHKEMv1 "chkemV1 zero_hash_lib toy_kem_lib"
        "replicate 96 5" kp "replicate 64 9"]
    by (auto simp: GetSuite_def chkemV1_def)
qed

text \<open>
  A static identity persists under its suite tag: the tagged seed parses back to the generated key
  pair, the tagged public pin to its public key, both carry the suite they were generated under, and a
  tag of no registered suite is refused.
\<close>

lemma tagged_identity_roundtrip:
  assumes "hash_lib_ok H" "kem_lib_ok K" "GetSuite H K sid = Some S"
    "suite_GenerateStaticKeyPair S tape = Inr (kp, seed)"
  shows "ParseTaggedKeyPair H K (TagSuite sid seed) = Inr kp \<and> KeyPair_Suite kp = sid \<and>
    (\<exists>b. PublicKey_Bytes (PublicKey kp) = Inr b \<and> ParseTaggedPublicKey H K (TagSuite sid b) = Inr (PublicKey kp)) \<and>
    (\<forall>bad. bad \<notin> set SupportedSuites \<longrightarrow>
       ParseTaggedKeyPair H K (TagSuite bad seed) = Inl (Err ErrUnsupportedKEMSuite))"
proof -
  have "kem_serves S kp" "suite_ParseKeyPair S seed = Inr kp" "KeyPair_Suite kp = sid"
    using GetSuite_correct [OF assms(1-3)] assms(4) by (auto simp: kem_correct_def)
  moreover have "GetSuite H K bad = None" if "bad \<notin> set SupportedSuites" for bad
    using that by (simp add: GetSuite_def SupportedSuites_def)
  ultimately show ?thesis
    using assms(3)
    by (auto simp: ParseTaggedKeyPair_def ParseTaggedPublicKey_def splitSuiteTag_TagSuite kem_serves_def failR_def)
qed

end
