(* ===== verification/Session.thy ===== *)
theory Session
  imports Wire Replay Ticket Chkem Float64
begin

text \<open>
  The session of pkg/tunnel/session.go: keys, sequence numbers, replay window and the rekey protocol of
  the stream transport.  A session is a record with the fields of the Go struct; each method is a
  function that returns its result and the session it leaves, also when it fails half way.  The clock
  is an argument (integer nanoseconds), random bytes are a tape, the observer callbacks have no effect
  on the session and are left out.  The byte and packet counters are 64-bit and wrap.

  Shown: the nonces of all successful \<open>Encrypt\<close> calls in any run differ, at most 2^28 records are
  sealed per key, a rekey exchange leaves both ends with the same secret and matching ciphers, records
  cross a rekey in either direction, and what is left of a closed session.
\<close>

section \<open>State\<close>

datatype session_state =
  SessionStateNew | SessionStateHandshaking | SessionStateEstablished | SessionStateRekeying | SessionStateClosed

fun session_state_string :: "session_state \<Rightarrow> string" where
  "session_state_string SessionStateNew = ''New''"
| "session_state_string SessionStateHandshaking = ''Handshaking''"
| "session_state_string SessionStateEstablished = ''Established''"
| "session_state_string SessionStateRekeying = ''Rekeying''"
| "session_state_string SessionStateClosed = ''Closed''"

datatype role = RoleInitiator | RoleResponder

record datagram_epoch =
  ep_epoch :: byte
  ep_sendCipher :: "aead option"
  ep_recvCipher :: "aead option"
  startSeq :: u64
  startedAt :: int
  retireAfter :: int

record datagram_epoch_state =
  es_cur :: "datagram_epoch option"
  es_prev :: "datagram_epoch option"

record session =
  sess_ID :: bytes
  sess_Role :: role
  sess_state :: session_state
  sess_Version :: version
  sess_CipherSuite :: cipher_suite
  kemSuite :: kem_suite
  LocalKeyPair :: "key_pair option"
  RemotePublicKey :: "public_key option"
  StaticKeyPair :: "key_pair option"
  PinnedServerKey :: "public_key option"
  RequireStaticAuth :: bool
  sess_PSK :: "bytes option"
  PSKIdentity :: "bytes option"
  PSKLookup :: "(bytes \<Rightarrow> bytes option) option"
  RequirePSK :: bool
  masterSecret :: "bytes option"
  sendCipher :: "aead option"
  recvCipher :: "aead option"
  sendSeq :: u64
  sendEpochStartSeq :: u64
  replayWindow :: replay_window
  CreatedAt :: int
  EstablishedAt :: int
  LastActivity :: int
  BytesSent :: i64
  BytesReceived :: i64
  PacketsSent :: i64
  PacketsRecv :: i64
  rekeyInProgress :: bool
  pendingRekeyKeyPair :: "key_pair option"
  pendingRekeySecret :: "bytes option"
  rekeyActivationSeq :: u64
  pendingRecvCipher :: "aead option"
  pendingSendCipher :: "aead option"
  sendNoncePrefix :: bytes
  recvNoncePrefix :: bytes
  dgramEpochs :: "datagram_epoch_state option"
  dgramReplay :: "replay_window option"
  lastActivityNanos :: int

text \<open>A nil byte slice has length 0.\<close>

definition nil_bytes :: "bytes option \<Rightarrow> bytes" where
  "nil_bytes b = (case b of None \<Rightarrow> [] | Some x \<Rightarrow> x)"

section \<open>Creation and keys\<close>

definition blank_session :: "bytes \<Rightarrow> role \<Rightarrow> kem_suite \<Rightarrow> key_pair option \<Rightarrow> int \<Rightarrow> session" where
  "blank_session sessionID role suite keyPair now =
     \<lparr>sess_ID = sessionID, sess_Role = role, sess_state = SessionStateNew,
      sess_Version = \<lparr>Major = 0, Minor = 0\<rparr>, sess_CipherSuite = 0, kemSuite = suite,
      LocalKeyPair = keyPair, RemotePublicKey = None, StaticKeyPair = None, PinnedServerKey = None,
      RequireStaticAuth = False, sess_PSK = None, PSKIdentity = None, PSKLookup = None, RequirePSK = False,
      masterSecret = None, sendCipher = None, recvCipher = None, sendSeq = 0, sendEpochStartSeq = 0,
      replayWindow = NewReplayWindow, CreatedAt = now, EstablishedAt = 0, LastActivity = 0,
      BytesSent = 0, BytesReceived = 0, PacketsSent = 0, PacketsRecv = 0,
      rekeyInProgress = False, pendingRekeyKeyPair = None, pendingRekeySecret = None, rekeyActivationSeq = 0,
      pendingRecvCipher = None, pendingSendCipher = None, sendNoncePrefix = [], recvNoncePrefix = [],
      dgramEpochs = None, dgramReplay = None, lastActivityNanos = 0\<rparr>"

definition NewSession :: "hash_lib \<Rightarrow> kem_lib \<Rightarrow> entropy \<Rightarrow> int \<Rightarrow> role \<Rightarrow> session res" where
  "NewSession H K tape now role =
     bindR (SecureRandomBytes SessionIDSize tape) (\<lambda>(sessionID, tape).
     let suite = DefaultSuite H K in
     bindR (if role = RoleInitiator then bindR (suite_GenerateKeyPair suite tape) (\<lambda>kp. Inr (Some kp)) else Inr None) (\<lambda>keyPair.
     Inr (blank_session sessionID role suite keyPair now)))"

definition SetState :: "session_state \<Rightarrow> session \<Rightarrow> session" where
  "SetState st s = s\<lparr>sess_state := st\<rparr>"

text \<open>Which of the two directional values an end sends with and receives with.\<close>

definition by_role :: "role \<Rightarrow> 'a \<times> 'a \<Rightarrow> 'a \<times> 'a" where
  "by_role r p = (if r = RoleInitiator then (fst p, snd p) else (snd p, fst p))"

definition InitializeKeys :: "hash_lib \<Rightarrow> cipher_lib \<Rightarrow> int \<Rightarrow> bytes \<Rightarrow> cipher_suite \<Rightarrow> session \<Rightarrow> unit res \<times> session" where
  "InitializeKeys H L now ms suite s =
     rejectS (sess_state s = SessionStateClosed) ErrTunnelClosed s (
     rejectS (length ms \<noteq> CHKEMSharedSecretSize) ErrInvalidKeySize s (
     let s = s\<lparr>masterSecret := Some ms, sess_CipherSuite := suite\<rparr> in
     tryS s (DeriveTrafficKeys H ms) (\<lambda>keys.
     let (sendKey, recvKey) = by_role (sess_Role s) keys in
     tryS (s\<lparr>sendCipher := None\<rparr>) (NewAEAD L suite sendKey) (\<lambda>c.
     let s = s\<lparr>sendCipher := Some c\<rparr> in
     tryS (s\<lparr>recvCipher := None\<rparr>) (NewAEAD L suite recvKey) (\<lambda>c.
     let s = s\<lparr>recvCipher := Some c\<rparr> in
     tryS s (DeriveStreamNoncePrefixes H ms) (\<lambda>prefixes.
     let (sp, rp) = by_role (sess_Role s) prefixes in
     (Inr (), s\<lparr>sendNoncePrefix := sp, recvNoncePrefix := rp, sendEpochStartSeq := sendSeq s,
        EstablishedAt := now, sess_state := SessionStateEstablished\<rparr>)))))))"

section \<open>Records\<close>

definition buildAEADNonce :: "bytes \<Rightarrow> u64 \<Rightarrow> bytes" where
  "buildAEADNonce prefix sq = copy_into DatagramNoncePrefixSize prefix @ put_u64 sq"

text \<open>
  \<open>Encrypt\<close> draws its sequence number atomically and reads cipher, prefix and epoch start under the lock
  afterwards, so another goroutine can rekey in between; the two steps are separate functions.
\<close>

definition nextSendSeq :: "session \<Rightarrow> u64 \<times> session" where
  "nextSendSeq s = (sendSeq s, s\<lparr>sendSeq := sendSeq s + 1\<rparr>)"

definition Encrypt_with :: "cipher_lib \<Rightarrow> int \<Rightarrow> u64 \<Rightarrow> bytes \<Rightarrow> session \<Rightarrow> (bytes \<times> u64) res \<times> session" where
  "Encrypt_with L now sq plaintext s =
     (case sendCipher s of None \<Rightarrow> (failR ErrInvalidState, s)
      | Some cipher \<Rightarrow>
        rejectS (sq \<ge> sendEpochStartSeq s \<and> sq - sendEpochStartSeq s \<ge> word_of_nat MaxPacketsBeforeRekey)
          ErrNonceExhausted s (
        tryS s (SealWithNonce L cipher (buildAEADNonce (sendNoncePrefix s) sq) plaintext (put_u64 sq)) (\<lambda>ciphertext.
        (Inr (ciphertext, sq), s\<lparr>BytesSent := BytesSent s + word_of_nat (length plaintext),
           PacketsSent := PacketsSent s + 1, LastActivity := now\<rparr>))))"

definition Encrypt :: "cipher_lib \<Rightarrow> int \<Rightarrow> bytes \<Rightarrow> session \<Rightarrow> (bytes \<times> u64) res \<times> session" where
  "Encrypt L now plaintext s = (case nextSendSeq s of (sq, s) \<Rightarrow> Encrypt_with L now sq plaintext s)"

definition promotePendingRecvCipher :: "session \<Rightarrow> session" where
  "promotePendingRecvCipher s =
     (if pendingRecvCipher s = None then s
      else s\<lparr>recvCipher := pendingRecvCipher s, pendingRecvCipher := None\<rparr>)"

definition Decrypt :: "cipher_lib \<Rightarrow> int \<Rightarrow> bytes \<Rightarrow> u64 \<Rightarrow> session \<Rightarrow> bytes res \<times> session" where
  "Decrypt L now ciphertext sq s =
     (case recvCipher s of None \<Rightarrow> (failR ErrInvalidState, s)
      | Some cipher \<Rightarrow>
        (case Check (replayWindow s) sq of (ok, w) \<Rightarrow>
         let s = s\<lparr>replayWindow := w\<rparr> in
         rejectS (\<not> ok) ErrReplayDetected s (
         let nonce = buildAEADNonce (recvNoncePrefix s) sq;
             aad = put_u64 sq;
             r = OpenWithNonce L cipher nonce ciphertext aad;
             (r, s) = (case (r, pendingRecvCipher s) of
                 (Inl (Err e), Some pending) \<Rightarrow>
                   (case OpenWithNonce L pending nonce ciphertext aad of
                      Inr pt \<Rightarrow> (Inr pt, promotePendingRecvCipher s)
                    | Inl Panic \<Rightarrow> (Inl Panic, s)
                    | Inl (Err _) \<Rightarrow> (r, s))
               | _ \<Rightarrow> (r, s))
         in tryS s r (\<lambda>plaintext.
            (Inr plaintext, s\<lparr>BytesReceived := BytesReceived s + word_of_nat (length plaintext),
               PacketsRecv := PacketsRecv s + 1, LastActivity := now\<rparr>)))))"

definition datagramRekeyHighWater :: u64 where
  "datagramRekeyHighWater = word_of_nat (MaxPacketsBeforeRekey * 9 div 10)"

definition NeedsRekey :: "int \<Rightarrow> session \<Rightarrow> bool" where
  "NeedsRekey now s \<longleftrightarrow>
     sendCipher s \<noteq> None \<and>
     (sendSeq s - sendEpochStartSeq s \<ge> datagramRekeyHighWater \<or>
      sint (BytesSent s) \<ge> int MaxBytesBeforeRekey \<or>
      sint (PacketsSent s) \<ge> int MaxPacketsBeforeRekey \<or>
      f64_le (f64_of_int (int MaxSessionDurationSeconds)) (duration_Seconds (time_Sub now (EstablishedAt s))))"

section \<open>Direct rekey, tickets, close\<close>

definition session_Rekey :: "hash_lib \<Rightarrow> cipher_lib \<Rightarrow> int \<Rightarrow> bytes \<Rightarrow> session \<Rightarrow> unit res \<times> session" where
  "session_Rekey H L now ms s =
     rejectS (length ms \<noteq> CHKEMSharedSecretSize) ErrInvalidKeySize s (
     tryS s (DeriveTrafficKeys H ms) (\<lambda>keys.
     let (sendKey, recvKey) = by_role (sess_Role s) keys in
     tryS s (NewAEAD L (sess_CipherSuite s) sendKey) (\<lambda>sc.
     tryS s (NewAEAD L (sess_CipherSuite s) recvKey) (\<lambda>rc.
     (Inr (), s\<lparr>sendCipher := Some sc, recvCipher := Some rc, sendEpochStartSeq := sendSeq s,
        masterSecret := Some ms, replayWindow := NewReplayWindow, EstablishedAt := now\<rparr>)))))"

definition ExportTicket :: "cipher_lib \<Rightarrow> ticket_manager \<Rightarrow> session \<Rightarrow> bytes res" where
  "ExportTicket L tm s =
     guardR (sess_state s \<noteq> SessionStateEstablished) ErrInvalidState (
     case masterSecret s of None \<Rightarrow> failR ErrInvalidState
     | Some ms \<Rightarrow> EncryptTicket L tm \<lparr>tk_Version = 1, tk_CipherSuite = sess_CipherSuite s,
         tk_MasterSecret = ms, tk_CreatedAt = EstablishedAt s\<rparr>)"

definition Resume :: "cipher_lib \<Rightarrow> int \<Rightarrow> bytes \<Rightarrow> ticket_manager \<Rightarrow> session \<Rightarrow> bytes res \<times> session" where
  "Resume L now ticketBytes tm s =
     tryS s (DecryptTicket L now tm ticketBytes) (\<lambda>ticket.
     (Inr (tk_MasterSecret ticket), s\<lparr>sess_CipherSuite := tk_CipherSuite ticket\<rparr>))"

definition session_Close :: "session \<Rightarrow> session" where
  "session_Close s = s\<lparr>sess_state := SessionStateClosed, masterSecret := None, LocalKeyPair := None,
     sendCipher := None, recvCipher := None\<rparr>"

record session_stats =
  st_BytesSent :: i64
  st_BytesReceived :: i64
  st_PacketsSent :: i64
  st_PacketsRecv :: i64
  st_Duration :: int
  st_State :: session_state
  st_CipherSuite :: cipher_suite
  st_FIPSMode :: bool

definition Stats :: "cipher_lib \<Rightarrow> int \<Rightarrow> session \<Rightarrow> session_stats" where
  "Stats L now s = \<lparr>st_BytesSent = BytesSent s, st_BytesReceived = BytesReceived s, st_PacketsSent = PacketsSent s,
     st_PacketsRecv = PacketsRecv s, st_Duration = time_Sub now (CreatedAt s), st_State = sess_state s,
     st_CipherSuite = sess_CipherSuite s, st_FIPSMode = FIPSMode L\<rparr>"

definition IsFIPSCompliant :: "cipher_lib \<Rightarrow> session \<Rightarrow> bool" where
  "IsFIPSCompliant L s \<longleftrightarrow> FIPSMode L \<and> IsFIPSApproved (sess_CipherSuite s)"

section \<open>The rekey protocol\<close>

definition InitiateRekey :: "entropy \<Rightarrow> session \<Rightarrow> (bytes \<times> u64) res \<times> session" where
  "InitiateRekey tape s =
     rejectS (rekeyInProgress s) ErrRekeyInProgress s (
     rejectS (sess_state s \<noteq> SessionStateEstablished) ErrInvalidState s (
     tryS s (suite_GenerateKeyPair (kemSuite s) tape) (\<lambda>kp.
     let activationSeq = sendSeq s + 16;
         s = s\<lparr>rekeyInProgress := True, pendingRekeyKeyPair := Some kp, rekeyActivationSeq := activationSeq,
               sess_state := SessionStateRekeying\<rparr>
     in tryS s (PublicKey_Bytes (PublicKey kp)) (\<lambda>b. (Inr (b, activationSeq), s)))))"

definition PrepareRekeyResponse ::
    "hash_lib \<Rightarrow> cipher_lib \<Rightarrow> entropy \<Rightarrow> bytes \<Rightarrow> u64 \<Rightarrow> session \<Rightarrow> bytes res \<times> session" where
  "PrepareRekeyResponse H L tape pkBytes activationSeq s =
     rejectS (sess_state s \<noteq> SessionStateEstablished \<and> sess_state s \<noteq> SessionStateRekeying) ErrInvalidState s (
     tryS s (suite_ParsePublicKey (kemSuite s) pkBytes) (\<lambda>pk.
     tryS s (suite_Encapsulate (kemSuite s) tape (Some pk) KemRoleResponder) (\<lambda>(ct, freshSecret).
     tryS s (DeriveRekeySecret H (nil_bytes (masterSecret s)) freshSecret) (\<lambda>newSecret.
     tryS s (DeriveTrafficKeys H newSecret) (\<lambda>(initiatorKey, responderKey).
     tryS s (NewAEAD L (sess_CipherSuite s) initiatorKey) (\<lambda>newRecvCipher.
     tryS s (NewAEAD L (sess_CipherSuite s) responderKey) (\<lambda>newSendCipher.
     (Inr (Ciphertext_Bytes ct), s\<lparr>rekeyInProgress := True, rekeyActivationSeq := activationSeq,
        pendingRecvCipher := Some newRecvCipher, pendingSendCipher := Some newSendCipher,
        pendingRekeySecret := Some newSecret, sess_state := SessionStateRekeying\<rparr>))))))))"

definition finalizeRekeyStateLocked :: "int \<Rightarrow> session \<Rightarrow> session" where
  "finalizeRekeyStateLocked now s =
     (let s = (case pendingRekeySecret s of None \<Rightarrow> s
               | Some ms \<Rightarrow> s\<lparr>masterSecret := Some ms, pendingRekeySecret := None\<rparr>)
      in s\<lparr>rekeyInProgress := False, rekeyActivationSeq := 0, EstablishedAt := now,
           sess_state := SessionStateEstablished\<rparr>)"

definition ProcessRekeyResponse ::
    "hash_lib \<Rightarrow> cipher_lib \<Rightarrow> int \<Rightarrow> bytes \<Rightarrow> session \<Rightarrow> unit res \<times> session" where
  "ProcessRekeyResponse H L now ctBytes s =
     rejectS (\<not> rekeyInProgress s \<or> pendingRekeyKeyPair s = None) ErrInvalidState s (
     tryS s (suite_ParseCiphertext (kemSuite s) ctBytes) (\<lambda>ct.
     tryS s (suite_Decapsulate (kemSuite s) (Some ct) (pendingRekeyKeyPair s) KemRoleInitiator) (\<lambda>freshSecret.
     tryS s (DeriveRekeySecret H (nil_bytes (masterSecret s)) freshSecret) (\<lambda>newSecret.
     tryS s (DeriveTrafficKeys H newSecret) (\<lambda>(initiatorKey, responderKey).
     tryS s (NewAEAD L (sess_CipherSuite s) initiatorKey) (\<lambda>newSendCipher.
     tryS s (NewAEAD L (sess_CipherSuite s) responderKey) (\<lambda>newRecvCipher.
     (Inr (), finalizeRekeyStateLocked now (s\<lparr>sendCipher := Some newSendCipher, sendEpochStartSeq := sendSeq s,
        pendingRecvCipher := Some newRecvCipher, pendingRekeySecret := Some newSecret,
        pendingRekeyKeyPair := None\<rparr>)))))))))"

definition ActivatePendingKeys :: "int \<Rightarrow> session \<Rightarrow> session" where
  "ActivatePendingKeys now s =
     (if \<not> rekeyInProgress s then s
      else
        (let s = promotePendingRecvCipher s;
             s = (if pendingSendCipher s = None then s
                  else s\<lparr>sendCipher := pendingSendCipher s, pendingSendCipher := None, sendEpochStartSeq := sendSeq s\<rparr>)
         in finalizeRekeyStateLocked now (s\<lparr>replayWindow := NewReplayWindow\<rparr>)))"

definition ActivateRekeySend :: "int \<Rightarrow> session \<Rightarrow> session" where
  "ActivateRekeySend now s =
     finalizeRekeyStateLocked now
       (if pendingSendCipher s = None then s
        else s\<lparr>sendCipher := pendingSendCipher s, pendingSendCipher := None, sendEpochStartSeq := sendSeq s\<rparr>)"

definition IsRekeyInProgress :: "session \<Rightarrow> bool" where "IsRekeyInProgress s = rekeyInProgress s"
definition GetRekeyActivationSeq :: "session \<Rightarrow> u64" where "GetRekeyActivationSeq s = rekeyActivationSeq s"

section \<open>Sealing and opening one record\<close>

lemma length_buildAEADNonce [simp]: "length (buildAEADNonce p sq) = 12"
  by (simp add: buildAEADNonce_def DatagramNoncePrefixSize_def AESNonceSize_def)

lemma buildAEADNonce_inject: "buildAEADNonce p sq = buildAEADNonce q sq' \<Longrightarrow> sq = sq'"
  by (simp add: buildAEADNonce_def)

text \<open>The record that cipher \<open>c\<close> makes of a plaintext at a sequence number.\<close>

definition sealed_record :: "cipher_lib \<Rightarrow> aead \<Rightarrow> bytes \<Rightarrow> u64 \<Rightarrow> bytes \<Rightarrow> bytes" where
  "sealed_record L c prefix sq pt =
     lib_Seal L (ae_suite c) (ae_key c) (buildAEADNonce prefix sq) pt (put_u64 sq)"

lemma SealWithNonce_record:
  "SealWithNonce L c (buildAEADNonce p sq) pt (put_u64 sq) = Inr (sealed_record L c p sq pt)"
  by (simp add: SealWithNonce_def sealed_record_def AESNonceSize_def)

lemma length_sealed_record: "cipher_lib_ok L \<Longrightarrow> length (sealed_record L c p sq pt) = length pt + 16"
  by (simp add: sealed_record_def cipher_lib_okD)

lemma OpenWithNonce_record:
  assumes "cipher_lib_ok L"
  shows "OpenWithNonce L c (buildAEADNonce p sq) x (put_u64 sq) = Inr pt \<longleftrightarrow> x = sealed_record L c p sq pt"
  using OpenWithNonce_iff [OF assms, of c c "buildAEADNonce p sq" x "put_u64 sq" pt]
  by (auto simp: same_key_def SealWithNonce_record)

lemma sealed_record_same_key: "same_key c d \<Longrightarrow> sealed_record L c p sq pt = sealed_record L d p sq pt"
  by (simp add: sealed_record_def same_key_def)

text \<open>Room under the current key, and the outcome of \<open>Encrypt\<close>.\<close>

definition key_budget :: "u64 \<Rightarrow> session \<Rightarrow> bool" where
  "key_budget sq s \<longleftrightarrow> sq < sendEpochStartSeq s \<or> sq - sendEpochStartSeq s < 268435456"

lemma Encrypt_cases:
  "Encrypt L now pt s =
     (case sendCipher s of
        None \<Rightarrow> (failR ErrInvalidState, s\<lparr>sendSeq := sendSeq s + 1\<rparr>)
      | Some c \<Rightarrow>
        if key_budget (sendSeq s) s
        then (Inr (sealed_record L c (sendNoncePrefix s) (sendSeq s) pt, sendSeq s),
          s\<lparr>sendSeq := sendSeq s + 1, BytesSent := BytesSent s + word_of_nat (length pt), PacketsSent := PacketsSent s + 1, LastActivity := now\<rparr>)
        else (Inl (Err ErrNonceExhausted), s\<lparr>sendSeq := sendSeq s + 1\<rparr>))"
  by (auto simp: Encrypt_def nextSendSeq_def Encrypt_with_def SealWithNonce_record rejectS_def key_budget_def
      MaxPacketsBeforeRekey_def not_le split: option.splits)

text \<open>Opening: what the receive cipher opens is returned; what only the pending cipher opens is returned
  and promotes it.\<close>

definition decrypted :: "int \<Rightarrow> bytes \<Rightarrow> u64 \<Rightarrow> session \<Rightarrow> session" where
  "decrypted now pt sq s = s\<lparr>replayWindow := snd (Check (replayWindow s) sq),
     BytesReceived := BytesReceived s + word_of_nat (length pt), PacketsRecv := PacketsRecv s + 1, LastActivity := now\<rparr>"

lemma Decrypt_current:
  assumes "cipher_lib_ok L" "recvCipher s = Some c" "fst (Check (replayWindow s) sq)"
    "x = sealed_record L c (recvNoncePrefix s) sq pt"
  shows "Decrypt L now x sq s = (Inr pt, decrypted now pt sq s)"
  using assms OpenWithNonce_record [OF assms(1), of c "recvNoncePrefix s" sq x pt]
  by (simp add: Decrypt_def decrypted_def case_prod_beta Let_def)

lemma Decrypt_pending:
  assumes "cipher_lib_ok L" "recvCipher s = Some c" "pendingRecvCipher s = Some q" "fst (Check (replayWindow s) sq)"
    "x = sealed_record L q (recvNoncePrefix s) sq pt" "\<And>t. x \<noteq> sealed_record L c (recvNoncePrefix s) sq t"
  shows "Decrypt L now x sq s = (Inr pt, promotePendingRecvCipher (decrypted now pt sq s))"
proof -
  have "\<exists>e. OpenWithNonce L c (buildAEADNonce (recvNoncePrefix s) sq) x (put_u64 sq) = Inl (Err e)"
    using OpenWithNonce_record [OF assms(1), of c "recvNoncePrefix s" sq x] assms(6)
      OpenWithNonce_no_panic [of L c "buildAEADNonce (recvNoncePrefix s) sq" x "put_u64 sq"]
    by (metis failure.exhaust sum.exhaust)
  moreover have "OpenWithNonce L q (buildAEADNonce (recvNoncePrefix s) sq) x (put_u64 sq) = Inr pt"
    using OpenWithNonce_record [OF assms(1)] assms(5) by blast
  ultimately show ?thesis
    using assms(2-4)
    by (auto simp: Decrypt_def decrypted_def promotePendingRecvCipher_def case_prod_beta Let_def)
qed

text \<open>Soundness: whatever \<open>Decrypt\<close> returns was sealed, at that sequence number, under a key the receiver holds.\<close>

lemma Decrypt_sound:
  assumes "cipher_lib_ok L" "fst (Decrypt L now x sq s) = Inr pt"
  shows "fst (Check (replayWindow s) sq)"
    "\<exists>c. (recvCipher s = Some c \<or> pendingRecvCipher s = Some c) \<and> x = sealed_record L c (recvNoncePrefix s) sq pt"
proof -
  obtain c where c: "recvCipher s = Some c"
    using assms(2) by (auto simp: Decrypt_def split: option.splits)
  show k: "fst (Check (replayWindow s) sq)"
    using assms(2) c by (auto simp: Decrypt_def case_prod_beta Let_def rejectS_def split: if_splits)
  let ?n = "buildAEADNonce (recvNoncePrefix s) sq"
  have "OpenWithNonce L c ?n x (put_u64 sq) = Inr pt \<or>
      (\<exists>q. pendingRecvCipher s = Some q \<and> OpenWithNonce L q ?n x (put_u64 sq) = Inr pt)"
    using assms(2) c k
    by (auto simp: Decrypt_def case_prod_beta Let_def tryS_def split: sum.splits failure.splits option.splits)
  then show "\<exists>c. (recvCipher s = Some c \<or> pendingRecvCipher s = Some c) \<and> x = sealed_record L c (recvNoncePrefix s) sq pt"
    using c OpenWithNonce_record [OF assms(1)] by blast
qed

section \<open>Runs\<close>

text \<open>Every state-changing method of a session as an event.\<close>

datatype session_event =
    EvInitializeKeys bytes cipher_suite
  | EvEncrypt bytes
  | EvDecrypt bytes u64
  | EvRekey bytes
  | EvResume bytes ticket_manager
  | EvInitiateRekey entropy
  | EvPrepareRekeyResponse entropy bytes u64
  | EvProcessRekeyResponse bytes
  | EvActivatePendingKeys
  | EvActivateRekeySend
  | EvSetState session_state
  | EvClose

fun session_step :: "hash_lib \<Rightarrow> cipher_lib \<Rightarrow> int \<Rightarrow> session_event \<Rightarrow> session \<Rightarrow> session" where
  "session_step H L now (EvInitializeKeys ms cs) s = snd (InitializeKeys H L now ms cs s)"
| "session_step H L now (EvEncrypt pt) s = snd (Encrypt L now pt s)"
| "session_step H L now (EvDecrypt x sq) s = snd (Decrypt L now x sq s)"
| "session_step H L now (EvRekey ms) s = snd (session_Rekey H L now ms s)"
| "session_step H L now (EvResume t tm) s = snd (Resume L now t tm s)"
| "session_step H L now (EvInitiateRekey tape) s = snd (InitiateRekey tape s)"
| "session_step H L now (EvPrepareRekeyResponse tape pk sq) s = snd (PrepareRekeyResponse H L tape pk sq s)"
| "session_step H L now (EvProcessRekeyResponse ct) s = snd (ProcessRekeyResponse H L now ct s)"
| "session_step H L now EvActivatePendingKeys s = ActivatePendingKeys now s"
| "session_step H L now EvActivateRekeySend s = ActivateRekeySend now s"
| "session_step H L now (EvSetState st) s = SetState st s"
| "session_step H L now EvClose s = session_Close s"

text \<open>
  The nonces under which records are sealed during a run, as the cipher sees them: \<open>nonce_recorder\<close> is a
  library that puts the nonce it is given in front of its output, and \<open>sealed_nonce\<close> reads it there.
\<close>

definition nonce_recorder :: "cipher_lib \<Rightarrow> cipher_lib" where
  "nonce_recorder L = L\<lparr>lib_Seal := \<lambda>suite key nonce text ad. nonce @ lib_Seal L suite key nonce text ad\<rparr>"

fun sealed_nonce :: "cipher_lib \<Rightarrow> int \<Rightarrow> session_event \<Rightarrow> session \<Rightarrow> bytes list" where
  "sealed_nonce L now (EvEncrypt pt) s =
     (case fst (Encrypt (nonce_recorder L) now pt s) of Inr (x, sq) \<Rightarrow> [take 12 x] | Inl _ \<Rightarrow> [])"
| "sealed_nonce L now _ s = []"

primrec run_nonces :: "hash_lib \<Rightarrow> cipher_lib \<Rightarrow> (int \<times> session_event) list \<Rightarrow> session \<Rightarrow> bytes list" where
  "run_nonces H L [] s = []"
| "run_nonces H L (e # es) s =
     sealed_nonce L (fst e) (snd e) s @ run_nonces H L es (session_step H L (fst e) (snd e) s)"

lemmas session_op_defs = InitializeKeys_def session_Rekey_def Resume_def InitiateRekey_def
  PrepareRekeyResponse_def ProcessRekeyResponse_def ActivatePendingKeys_def ActivateRekeySend_def
  finalizeRekeyStateLocked_def promotePendingRecvCipher_def SetState_def session_Close_def Let_def

text \<open>Frame: no method but \<open>Encrypt\<close> touches the send sequence number.\<close>

lemma sendSeq_tryS:
  "(\<And>x. r = Inr x \<Longrightarrow> sendSeq (snd (k x)) = n) \<Longrightarrow> sendSeq s = n \<Longrightarrow> sendSeq (snd (tryS s r k)) = n"
  by (cases r) auto

lemma sendSeq_rejectS:
  "sendSeq (snd k) = n \<Longrightarrow> sendSeq s = n \<Longrightarrow> sendSeq (snd (rejectS b e s k)) = n"
  by (simp add: rejectS_def)

lemma Decrypt_frame:
  "sendSeq (snd (Decrypt L now x sq s)) = sendSeq s"
  "sendCipher (snd (Decrypt L now x sq s)) = sendCipher s"
  "sendEpochStartSeq (snd (Decrypt L now x sq s)) = sendEpochStartSeq s"
  "sendNoncePrefix (snd (Decrypt L now x sq s)) = sendNoncePrefix s"
  by (auto simp: Decrypt_def case_prod_beta Let_def rejectS_def tryS_def promotePendingRecvCipher_def
      split: option.splits sum.splits failure.splits)

lemma step_sendSeq:
  "sendSeq (session_step H L now e s) = sendSeq s + (case e of EvEncrypt _ \<Rightarrow> 1 | _ \<Rightarrow> 0)"
  by (cases e) (auto simp: session_op_defs Encrypt_cases Decrypt_frame case_prod_beta
      intro!: sendSeq_tryS sendSeq_rejectS split: option.splits)

lemma run_nonces_fresh:
  assumes "unat (sendSeq s) + length es < 2 ^ 64"
  shows "distinct (run_nonces H L es s) \<and>
    (\<forall>n\<in>set (run_nonces H L es s). \<exists>p sq. n = buildAEADNonce p sq \<and> sendSeq s \<le> sq)"
  using assms
proof (induction es arbitrary: s)
  case (Cons e es)
  let ?s = "session_step H L (fst e) (snd e) s"
  have lt: "unat (sendSeq s) + 1 < 2 ^ 64"
    using Cons.prems by simp
  have IH: "distinct (run_nonces H L es ?s)"
    "\<forall>n\<in>set (run_nonces H L es ?s). \<exists>p sq. n = buildAEADNonce p sq \<and> sendSeq ?s \<le> sq"
    if "unat (sendSeq ?s) \<le> unat (sendSeq s) + 1"
    using Cons.IH [of ?s] that Cons.prems by auto
  show ?case
  proof (cases "\<exists>pt. snd e = EvEncrypt pt")
    case True
    then obtain pt where e: "snd e = EvEncrypt pt" by blast
    have sq: "sendSeq ?s = sendSeq s + 1" "unat (sendSeq ?s) = unat (sendSeq s) + 1" "sendSeq s < sendSeq ?s"
      using step_sendSeq [of H L "fst e" "snd e" s] e lt unat_add_lem [of "sendSeq s" 1]
      by (simp_all add: word_less_nat_alt)
    have "set (sealed_nonce L (fst e) (snd e) s) \<subseteq> {buildAEADNonce (sendNoncePrefix s) (sendSeq s)}"
      "distinct (sealed_nonce L (fst e) (snd e) s)"
      using e by (auto simp: Encrypt_cases failR_def sealed_record_def nonce_recorder_def split: option.splits)
    moreover have "buildAEADNonce (sendNoncePrefix s) (sendSeq s) \<notin> set (run_nonces H L es ?s)"
      using IH(2) sq by (fastforce dest: buildAEADNonce_inject)
    moreover have "\<exists>p sq. n = buildAEADNonce p sq \<and> sendSeq s \<le> sq" if n: "n \<in> set (run_nonces H L es ?s)" for n
    proof -
      obtain p q where "n = buildAEADNonce p q" "sendSeq ?s \<le> q"
        using IH(2) sq(2) n by auto
      moreover from this have "sendSeq s \<le> q"
        using sq(3) by simp
      ultimately show ?thesis
        by blast
    qed
    ultimately show ?thesis
      using IH(1) sq(2) by auto
  next
    case False
    then have "sendSeq ?s = sendSeq s" "sealed_nonce L (fst e) (snd e) s = []"
      using step_sendSeq [of H L "fst e" "snd e" s] by (cases "snd e"; auto)+
    then show ?thesis
      using IH by simp
  qed
qed simp

section \<open>Key budget\<close>

primrec encrypt_all :: "cipher_lib \<Rightarrow> int \<Rightarrow> bytes list \<Rightarrow> session \<Rightarrow> (bytes \<times> u64) res list" where
  "encrypt_all L now [] s = []"
| "encrypt_all L now (pt # pts) s = fst (Encrypt L now pt s) # encrypt_all L now pts (snd (Encrypt L now pt s))"

lemma key_budget_offset:
  assumes "k < 2 ^ 64" "unat start + k < 2 ^ 64" "sendEpochStartSeq s = start"
  shows "key_budget (start + word_of_nat k) s \<longleftrightarrow> k < 268435456"
proof -
  have u: "unat (word_of_nat k :: u64) = k"
    using assms(1) by (simp add: unat_of_nat)
  then have "\<not> start + word_of_nat k < start"
    using assms(2) unat_add_lem [of start "word_of_nat k"] by (simp add: word_less_nat_alt)
  then show ?thesis
    using u assms(3) by (simp add: key_budget_def word_less_nat_alt)
qed

lemma encrypt_all_budget:
  assumes "sendCipher s = Some c" "sendEpochStartSeq s = start" "sendSeq s = start + word_of_nat k"
    "unat start + k + length pts < 2 ^ 64"
  shows "encrypt_all L now pts s =
    map (\<lambda>i. if k + i < 268435456
      then Inr (sealed_record L c (sendNoncePrefix s) (start + word_of_nat (k + i)) (pts ! i), start + word_of_nat (k + i))
      else Inl (Err ErrNonceExhausted)) [0..<length pts]"
  using assms
proof (induction pts arbitrary: s k)
  case (Cons pt pts)
  have b: "key_budget (sendSeq s) s \<longleftrightarrow> k < 268435456"
    using key_budget_offset [of k start s] Cons.prems by simp
  let ?s = "snd (Encrypt L now pt s)"
  have s: "sendCipher ?s = Some c" "sendEpochStartSeq ?s = start" "sendSeq ?s = start + word_of_nat (Suc k)"
    "sendNoncePrefix ?s = sendNoncePrefix s"
    using Cons.prems by (simp_all add: Encrypt_cases)
  have "[0..<length (pt # pts)] = 0 # map Suc [0..<length pts]"
    by (simp add: map_Suc_upt upt_conv_Cons del: upt_Suc)
  then show ?case
    using Cons.IH [OF s(1-3)] Cons.prems b s(4) by (simp add: Encrypt_cases del: upt_Suc)
qed simp

section \<open>Rekey exchange\<close>

definition fresh_aead :: "cipher_suite \<Rightarrow> bytes \<Rightarrow> aead" where
  "fresh_aead cs key = \<lparr>ae_suite = cs, ae_key = key, ae_counter = 0, ae_maxSeq = 268435456\<rparr>"

definition suite_usable :: "cipher_lib \<Rightarrow> cipher_suite \<Rightarrow> bool" where
  "suite_usable L cs \<longleftrightarrow> (FIPSMode L \<longrightarrow> IsFIPSApproved cs) \<and> IsSupported cs"

lemma NewAEAD_usable:
  "suite_usable L cs \<Longrightarrow> length key = 32 \<Longrightarrow> NewAEAD L cs key = Inr (fresh_aead cs key)"
  by (simp add: NewAEAD_iff suite_usable_def fresh_aead_def)

text \<open>A ciphertext answers a key share: its holder ratchets the secret \<open>ms\<close> to \<open>ms'\<close>.\<close>

definition rekey_answer :: "hash_lib \<Rightarrow> kem_suite \<Rightarrow> key_pair \<Rightarrow> bytes \<Rightarrow> bytes \<Rightarrow> bytes \<Rightarrow> bool" where
  "rekey_answer H S kp ms ct ms' \<longleftrightarrow>
     (\<exists>c fresh. suite_ParseCiphertext S ct = Inr c \<and> suite_Decapsulate S (Some c) (Some kp) KemRoleInitiator = Inr fresh \<and>
        DeriveRekeySecret H ms fresh = Inr ms')"

lemma DeriveTrafficKeys_total:
  assumes "hash_lib_ok H" "length ms = 32"
  shows "\<exists>ki kr. DeriveTrafficKeys H ms = Inr (ki, kr) \<and> length ki = 32 \<and> length kr = 32"
  using split_derivation_ok [OF assms(1), of ms 32 DomainSeparatorTraffic] assms(2)
  unfolding DeriveTrafficKeys_def by (fastforce simp: constant_defs)

lemma InitiateRekey_ok:
  assumes "kem_correct (kemSuite s)" "sess_state s = SessionStateEstablished" "\<not> rekeyInProgress s"
    "96 \<le> length tape"
  shows "\<exists>kp b. suite_GenerateKeyPair (kemSuite s) tape = Inr kp \<and> kem_serves (kemSuite s) kp \<and>
    PublicKey_Bytes (PublicKey kp) = Inr b \<and> length b = PublicKeySize (kemSuite s) \<and>
    InitiateRekey tape s = (Inr (b, sendSeq s + 16), s\<lparr>rekeyInProgress := True, pendingRekeyKeyPair := Some kp,
      rekeyActivationSeq := sendSeq s + 16, sess_state := SessionStateRekeying\<rparr>)"
proof -
  obtain kp where kp: "suite_GenerateKeyPair (kemSuite s) tape = Inr kp" "kem_serves (kemSuite s) kp"
    using assms(1,4) unfolding kem_correct_def by blast
  then show ?thesis
    using assms(2,3) by (auto simp: InitiateRekey_def kem_serves_def Let_def)
qed

lemma PrepareRekeyResponse_ok:
  assumes "hash_lib_ok H" "kem_serves S kp" "PublicKey_Bytes (PublicKey kp) = Inr b" "64 \<le> length tape"
    and t: "kemSuite t = S" "masterSecret t = Some ms" "length ms = 32" "suite_usable L (sess_CipherSuite t)"
      "sess_state t = SessionStateEstablished \<or> sess_state t = SessionStateRekeying"
  shows "\<exists>ct ms' ki kr. rekey_answer H S kp ms ct ms' \<and> length ct = CiphertextSize S \<and> length ms' = 32 \<and>
    DeriveTrafficKeys H ms' = Inr (ki, kr) \<and> length ki = 32 \<and> length kr = 32 \<and>
    PrepareRekeyResponse H L tape b act t = (Inr ct, t\<lparr>rekeyInProgress := True, rekeyActivationSeq := act,
      pendingRecvCipher := Some (fresh_aead (sess_CipherSuite t) ki),
      pendingSendCipher := Some (fresh_aead (sess_CipherSuite t) kr),
      pendingRekeySecret := Some ms', sess_state := SessionStateRekeying\<rparr>)"
proof -
  obtain ct fresh where e: "suite_Encapsulate S tape (Some (PublicKey kp)) KemRoleResponder = Inr (ct, fresh)"
    using assms(2,4) unfolding kem_serves_def by (metis surj_pair)
  then obtain ct' where ct: "length fresh = 32" "length (Ciphertext_Bytes ct) = CiphertextSize S"
      "suite_ParseCiphertext S (Ciphertext_Bytes ct) = Inr ct'"
      "suite_Decapsulate S (Some ct') (Some kp) KemRoleInitiator = Inr fresh"
    using assms(2) unfolding kem_serves_def by blast
  obtain ms' where ms': "DeriveRekeySecret H ms fresh = Inr ms'" "length ms' = 32"
    using DeriveRekeySecret_total [OF assms(1) t(3), of fresh] ct(1) by auto
  obtain ki kr where k: "DeriveTrafficKeys H ms' = Inr (ki, kr)" "length ki = 32" "length kr = 32"
    using DeriveTrafficKeys_total [OF assms(1) ms'(2)] by blast
  have p: "suite_ParsePublicKey S b = Inr (PublicKey kp)"
    using assms(2,3) unfolding kem_serves_def by auto
  have "rekey_answer H S kp ms (Ciphertext_Bytes ct) ms'"
    using ct ms' unfolding rekey_answer_def by blast
  moreover have "PrepareRekeyResponse H L tape b act t = (Inr (Ciphertext_Bytes ct), t\<lparr>rekeyInProgress := True,
      rekeyActivationSeq := act, pendingRecvCipher := Some (fresh_aead (sess_CipherSuite t) ki),
      pendingSendCipher := Some (fresh_aead (sess_CipherSuite t) kr),
      pendingRekeySecret := Some ms', sess_state := SessionStateRekeying\<rparr>)"
    using t e p ms' k NewAEAD_usable [OF t(4)] by (auto simp: PrepareRekeyResponse_def nil_bytes_def)
  ultimately show ?thesis
    using ct(2) ms'(2) k by blast
qed

lemma ProcessRekeyResponse_ok:
  assumes "rekeyInProgress s" "pendingRekeyKeyPair s = Some kp" "rekey_answer H (kemSuite s) kp ms ct ms'"
    "masterSecret s = Some ms" "DeriveTrafficKeys H ms' = Inr (ki, kr)" "length ki = 32" "length kr = 32"
    "suite_usable L (sess_CipherSuite s)"
  shows "ProcessRekeyResponse H L now ct s = (Inr (), s\<lparr>sendCipher := Some (fresh_aead (sess_CipherSuite s) ki),
    sendEpochStartSeq := sendSeq s, pendingRecvCipher := Some (fresh_aead (sess_CipherSuite s) kr),
    pendingRekeyKeyPair := None, masterSecret := Some ms', pendingRekeySecret := None,
    rekeyInProgress := False, rekeyActivationSeq := 0, EstablishedAt := now, sess_state := SessionStateEstablished\<rparr>)"
  using assms NewAEAD_usable [OF assms(8)]
  by (auto simp: ProcessRekeyResponse_def rekey_answer_def nil_bytes_def finalizeRekeyStateLocked_def)

lemma ActivateRekeySend_ok:
  assumes "pendingSendCipher s = Some c" "pendingRekeySecret s = Some ms"
  shows "ActivateRekeySend now s = s\<lparr>sendCipher := Some c, pendingSendCipher := None, sendEpochStartSeq := sendSeq s,
    masterSecret := Some ms, pendingRekeySecret := None, rekeyInProgress := False, rekeyActivationSeq := 0,
    EstablishedAt := now, sess_state := SessionStateEstablished\<rparr>"
  using assms by (simp add: ActivateRekeySend_def finalizeRekeyStateLocked_def)

section \<open>Send counters\<close>

primrec session_run :: "hash_lib \<Rightarrow> cipher_lib \<Rightarrow> (int \<times> session_event) list \<Rightarrow> session \<Rightarrow> session" where
  "session_run H L [] s = s"
| "session_run H L (e # es) s = session_run H L es (session_step H L (fst e) (snd e) s)"

definition send_counters :: "session \<Rightarrow> i64 \<times> i64" where
  "send_counters s = (BytesSent s, PacketsSent s)"

text \<open>The bytes a run offers for sending.\<close>

primrec run_bytes :: "(int \<times> session_event) list \<Rightarrow> nat" where
  "run_bytes [] = 0"
| "run_bytes (e # es) = (case snd e of EvEncrypt pt \<Rightarrow> length pt | _ \<Rightarrow> 0) + run_bytes es"

lemma send_counters_tryS:
  "(\<And>x. r = Inr x \<Longrightarrow> send_counters (snd (k x)) = n) \<Longrightarrow> send_counters s = n \<Longrightarrow> send_counters (snd (tryS s r k)) = n"
  by (cases r) auto

lemma send_counters_rejectS:
  "send_counters (snd k) = n \<Longrightarrow> send_counters s = n \<Longrightarrow> send_counters (snd (rejectS b e s k)) = n"
  by (simp add: rejectS_def)

lemma Decrypt_counters: "send_counters (snd (Decrypt L now x sq s)) = send_counters s"
  by (auto simp: send_counters_def Decrypt_def case_prod_beta Let_def rejectS_def tryS_def promotePendingRecvCipher_def
      split: option.splits sum.splits failure.splits)

lemma step_counters:
  assumes "\<And>pt. e \<noteq> EvEncrypt pt"
  shows "send_counters (session_step H L now e s) = send_counters s"
  using assms
  by (cases e) (auto simp: session_op_defs Decrypt_counters case_prod_beta
      intro!: send_counters_tryS send_counters_rejectS, auto simp: send_counters_def split: option.splits)

lemma run_counters:
  "\<exists>b p. b \<le> run_bytes es \<and> p \<le> length es \<and> BytesSent (session_run H L es s) = BytesSent s + word_of_nat b \<and>
    PacketsSent (session_run H L es s) = PacketsSent s + word_of_nat p"
proof (induction es arbitrary: s)
  case (Cons e es)
  let ?t = "session_step H L (fst e) (snd e) s"
  obtain b p where IH: "b \<le> run_bytes es" "p \<le> length es" "BytesSent (session_run H L es ?t) = BytesSent ?t + word_of_nat b"
      "PacketsSent (session_run H L es ?t) = PacketsSent ?t + word_of_nat p"
    using Cons.IH by blast
  have "\<exists>b' p'. b' \<le> (case snd e of EvEncrypt pt \<Rightarrow> length pt | _ \<Rightarrow> 0) \<and> p' \<le> 1 \<and>
      BytesSent ?t = BytesSent s + word_of_nat b' \<and> PacketsSent ?t = PacketsSent s + word_of_nat p'"
  proof (cases "\<exists>pt. snd e = EvEncrypt pt")
    case True
    then obtain pt where pt: "snd e = EvEncrypt pt" ..
    have "BytesSent ?t = BytesSent s + word_of_nat (length pt) \<and> PacketsSent ?t = PacketsSent s + word_of_nat 1 \<or>
        BytesSent ?t = BytesSent s + word_of_nat 0 \<and> PacketsSent ?t = PacketsSent s + word_of_nat 0"
      using pt by (auto simp: Encrypt_cases split: option.splits)
    then show ?thesis
      unfolding pt session_event.case by (metis le0 le_refl)
  next
    case False
    then show ?thesis
      using step_counters [of "snd e" H L "fst e" s] by (intro exI [of _ 0]) (simp add: send_counters_def)
  qed
  then obtain b' p' where "b' \<le> (case snd e of EvEncrypt pt \<Rightarrow> length pt | _ \<Rightarrow> 0)" "p' \<le> 1"
      "BytesSent ?t = BytesSent s + word_of_nat b'" "PacketsSent ?t = PacketsSent s + word_of_nat p'"
    by blast
  then show ?case
    using IH by (intro exI [of _ "b' + b"] exI [of _ "p' + p"]) simp
qed simp

text \<open>A counter that does not pass 2^63 counts.\<close>

lemma sint_add_nat:
  fixes a :: i64
  assumes "sint a + int n < 2 ^ 63"
  shows "sint (a + word_of_nat n) = sint a + int n"
proof -
  have a: "a + word_of_nat n = word_of_int (sint a + int n)"
    by simp
  have "- (2 ^ 63) \<le> sint a"
    using sint_ge [of a] by simp
  then have "signed_take_bit 63 (sint a + int n) = sint a + int n"
    using assms by (intro signed_take_bit_int_eq_self) simp_all
  then show ?thesis
    unfolding a sint_sbintrunc' by simp
qed

section \<open>Closed sessions\<close>

lemma session_Close_fields [simp]:
  "sess_state (session_Close s) = SessionStateClosed" "sendCipher (session_Close s) = None"
  "recvCipher (session_Close s) = None" "masterSecret (session_Close s) = None"
  "pendingSendCipher (session_Close s) = pendingSendCipher s" "pendingRecvCipher (session_Close s) = pendingRecvCipher s"
  "pendingRekeySecret (session_Close s) = pendingRekeySecret s" "rekeyInProgress (session_Close s) = rekeyInProgress s"
  "sendSeq (session_Close s) = sendSeq s" "sess_CipherSuite (session_Close s) = sess_CipherSuite s"
  "dgramEpochs (session_Close s) = dgramEpochs s" "dgramReplay (session_Close s) = dgramReplay s"
  by (simp_all add: session_Close_def)

lemma session_Rekey_ok:
  assumes "hash_lib_ok H" "length ms = 32" "suite_usable L (sess_CipherSuite s)"
  obtains sc rc where "session_Rekey H L now ms s = (Inr (), s\<lparr>sendCipher := Some sc, recvCipher := Some rc,
    sendEpochStartSeq := sendSeq s, masterSecret := Some ms, replayWindow := NewReplayWindow, EstablishedAt := now\<rparr>)"
proof -
  obtain ki kr where k: "DeriveTrafficKeys H ms = Inr (ki, kr)" "length ki = 32" "length kr = 32"
    using DeriveTrafficKeys_total assms(1,2) by blast
  obtain x y where r: "by_role (sess_Role s) (ki, kr) = (x, y)" "length x = 32" "length y = 32"
    using k(2,3) by (cases "sess_Role s") (auto simp: by_role_def)
  show ?thesis
    using k(1) r assms(2) NewAEAD_usable [OF assms(3) r(2)] NewAEAD_usable [OF assms(3) r(3)]
    by (intro that) (simp add: session_Rekey_def CHKEMSharedSecretSize_def)
qed

lemma Close_refuses_rekey:
  "\<exists>e. ProcessRekeyResponse H L now ct (session_Close s) = (Inl e, session_Close s)"
  by (auto simp: ProcessRekeyResponse_def nil_bytes_def DeriveRekeySecret_def CHKEMSharedSecretSize_def
      rejectS_def tryS_def split: sum.splits)

section \<open>Properties\<close>

text \<open>
  C13: In every run of session methods, in any order and with any arguments, rekeys, failures and a
  second key setup included, no two records are sealed under the same nonce, as long as the 64-bit
  sequence number does not wrap.  The nonces are those the cipher library is called with.
\<close>

theorem stream_nonces_unique:
  assumes "unat (sendSeq s) + length es < 2 ^ 64"
  shows "distinct (run_nonces H L es s)"
  using run_nonces_fresh [OF assms] by blast

lemma NewSession_ok:
  assumes "112 \<le> length tape"
  shows "\<exists>kp. NewSession H K tape now RoleInitiator =
      Inr (blank_session (take 16 tape) RoleInitiator (chkemV1 H K) (Some kp) now)"
    "NewSession H K tape now RoleResponder = Inr (blank_session (take 16 tape) RoleResponder (chkemV1 H K) None now)"
proof -
  obtain kp where "GenerateKeyPair K (drop 16 tape) = Inr kp"
    using assms by (simp add: GenerateKeyPair_iff)
  then have "suite_GenerateKeyPair (chkemV1 H K) (drop 16 tape) = Inr kp"
    by (simp add: chkemV1_def)
  then show "\<exists>kp. NewSession H K tape now RoleInitiator =
      Inr (blank_session (take 16 tape) RoleInitiator (chkemV1 H K) (Some kp) now)"
    "NewSession H K tape now RoleResponder = Inr (blank_session (take 16 tape) RoleResponder (chkemV1 H K) None now)"
    using assms by (auto simp: NewSession_def SecureRandomBytes_def SecureRandom_def DefaultSuite_def SessionIDSize_def)
qed

theorem stream_nonces_unique_witness:
  "\<exists>s. NewSession zero_hash_lib toy_kem_lib (replicate 112 3) 0 RoleInitiator = Inr s \<and>
     distinct (run_nonces zero_hash_lib tag_cipher_lib
       [(1, EvInitializeKeys (replicate 32 7) CipherSuiteAES256GCM), (2, EvEncrypt [1]), (3, EvEncrypt [1]),
        (4, EvRekey (replicate 32 8)), (5, EvEncrypt [1])] s)"
proof -
  obtain s where s: "NewSession zero_hash_lib toy_kem_lib (replicate 112 3) 0 RoleInitiator = Inr s" "sendSeq s = 0"
    using NewSession_ok(1) [of "replicate 112 3" zero_hash_lib toy_kem_lib 0] by (auto simp: blank_session_def)
  then show ?thesis
    using stream_nonces_unique [of s "[(1, EvInitializeKeys (replicate 32 7) CipherSuiteAES256GCM), (2, EvEncrypt [1]),
        (3, EvEncrypt [1]), (4, EvRekey (replicate 32 8)), (5, EvEncrypt [1])]"] by auto
qed

text \<open>
  From the moment a send cipher takes over (the epoch starts at the current sequence number), exactly
  the first 2^28 records are sealed, under consecutive sequence numbers, and every later one is refused
  with \<open>ErrNonceExhausted\<close>.
\<close>

theorem stream_key_budget:
  assumes "sendCipher s = Some c" "sendEpochStartSeq s = sendSeq s" "unat (sendSeq s) + length pts < 2 ^ 64"
  shows "encrypt_all L now pts s =
    map (\<lambda>i. if i < 2 ^ 28
      then Inr (sealed_record L c (sendNoncePrefix s) (sendSeq s + word_of_nat i) (pts ! i), sendSeq s + word_of_nat i)
      else Inl (Err ErrNonceExhausted)) [0..<length pts]"
  using encrypt_all_budget [OF assms(1,2), of 0 pts L now] assms(3) by simp

lemma InitializeKeys_ok:
  assumes "hash_lib_ok H" "length ms = 32" "suite_usable L cs" "sess_state s \<noteq> SessionStateClosed"
  shows "\<exists>ki kr pi pr. DeriveTrafficKeys H ms = Inr (ki, kr) \<and> DeriveStreamNoncePrefixes H ms = Inr (pi, pr) \<and>
    length ki = 32 \<and> length kr = 32 \<and>
    InitializeKeys H L now ms cs s = (Inr (), s\<lparr>masterSecret := Some ms, sess_CipherSuite := cs,
      sendCipher := Some (fresh_aead cs (fst (by_role (sess_Role s) (ki, kr)))),
      recvCipher := Some (fresh_aead cs (snd (by_role (sess_Role s) (ki, kr)))),
      sendNoncePrefix := fst (by_role (sess_Role s) (pi, pr)), recvNoncePrefix := snd (by_role (sess_Role s) (pi, pr)),
      sendEpochStartSeq := sendSeq s, EstablishedAt := now, sess_state := SessionStateEstablished\<rparr>)"
proof -
  obtain ki kr where k: "DeriveTrafficKeys H ms = Inr (ki, kr)" "length ki = 32" "length kr = 32"
    using DeriveTrafficKeys_total [OF assms(1,2)] by blast
  obtain pi pr where p: "DeriveStreamNoncePrefixes H ms = Inr (pi, pr)"
    using split_derivation_ok [OF assms(1), of ms 4 DomainSeparatorStreamNonce] assms(2)
    unfolding DeriveStreamNoncePrefixes_def by (fastforce simp: constant_defs)
  obtain sk rk sp rp where r: "by_role (sess_Role s) (ki, kr) = (sk, rk)" "by_role (sess_Role s) (pi, pr) = (sp, rp)"
    by fastforce
  then have n: "NewAEAD L cs sk = Inr (fresh_aead cs sk)" "NewAEAD L cs rk = Inr (fresh_aead cs rk)"
    using k(2,3) NewAEAD_usable [OF assms(3)] by (auto simp: by_role_def split: if_splits)
  have "InitializeKeys H L now ms cs s = (Inr (), s\<lparr>masterSecret := Some ms, sess_CipherSuite := cs,
      sendCipher := Some (fresh_aead cs sk), recvCipher := Some (fresh_aead cs rk),
      sendNoncePrefix := sp, recvNoncePrefix := rp,
      sendEpochStartSeq := sendSeq s, EstablishedAt := now, sess_state := SessionStateEstablished\<rparr>)"
    using assms(2,4) by (simp add: InitializeKeys_def k p r n CHKEMSharedSecretSize_def)
  then show ?thesis
    using k p r by (intro exI [of _ ki] exI [of _ kr] exI [of _ pi] exI [of _ pr]) simp
qed

text \<open>A concrete established session for the examples.\<close>

definition sample_session :: "role \<Rightarrow> session" where
  "sample_session r = snd (InitializeKeys zero_hash_lib tag_cipher_lib 1 (replicate 32 7) CipherSuiteAES256GCM
     (blank_session [] r (chkemV1 zero_hash_lib toy_kem_lib) None 0))"

lemma tag_suite_usable: "suite_usable tag_cipher_lib CipherSuiteAES256GCM"
  by (simp add: suite_usable_def tag_cipher_lib_def IsSupported_def)

lemma sample_session_eq:
  "\<exists>ki kr pi pr. length ki = 32 \<and> length kr = 32 \<and>
    DeriveTrafficKeys zero_hash_lib (replicate 32 7) = Inr (ki, kr) \<and>
    DeriveStreamNoncePrefixes zero_hash_lib (replicate 32 7) = Inr (pi, pr) \<and>
    sample_session r = (blank_session [] r (chkemV1 zero_hash_lib toy_kem_lib) None 0)
     \<lparr>masterSecret := Some (replicate 32 7), sess_CipherSuite := CipherSuiteAES256GCM,
      sendCipher := Some (fresh_aead CipherSuiteAES256GCM (fst (by_role r (ki, kr)))),
      recvCipher := Some (fresh_aead CipherSuiteAES256GCM (snd (by_role r (ki, kr)))),
      sendNoncePrefix := fst (by_role r (pi, pr)), recvNoncePrefix := snd (by_role r (pi, pr)),
      sendEpochStartSeq := 0, EstablishedAt := 1, sess_state := SessionStateEstablished\<rparr>"
proof -
  have b: "sess_state (blank_session [] r S kp 0) \<noteq> SessionStateClosed" "sess_Role (blank_session [] r S kp 0) = r"
      "sendSeq (blank_session [] r S kp 0) = 0" for S kp
    by (simp_all add: blank_session_def)
  have l: "length (replicate 32 7 :: bytes) = 32"
    by simp
  note k = InitializeKeys_ok [OF zero_hash_lib_ok l tag_suite_usable b(1) [of "chkemV1 zero_hash_lib toy_kem_lib" None],
      where now = 1, unfolded b(2,3)]
  show ?thesis
    unfolding sample_session_def using k by (elim exE conjE) (rule exI conjI | assumption | simp only: snd_conv)+
qed

lemma sample_session_fields:
  "sess_state (sample_session r) = SessionStateEstablished" "sendSeq (sample_session r) = 0"
  "sendEpochStartSeq (sample_session r) = 0" "masterSecret (sample_session r) = Some (replicate 32 7)"
  "sess_CipherSuite (sample_session r) = CipherSuiteAES256GCM" "\<not> rekeyInProgress (sample_session r)"
  "kemSuite (sample_session r) = chkemV1 zero_hash_lib toy_kem_lib" "sess_Role (sample_session r) = r"
  "\<exists>c. sendCipher (sample_session r) = Some c" "replayWindow (sample_session r) = NewReplayWindow"
  using sample_session_eq [of r] by (auto simp: blank_session_def)

theorem stream_key_budget_witness:
  "\<exists>c. sendCipher (sample_session RoleInitiator) = Some c \<and>
     encrypt_all tag_cipher_lib 0 [[1], [2]] (sample_session RoleInitiator) ! 1 =
       Inr (sealed_record tag_cipher_lib c (sendNoncePrefix (sample_session RoleInitiator)) 1 [2], 1)"
proof -
  obtain c where c: "sendCipher (sample_session RoleInitiator) = Some c"
    using sample_session_fields(9) by blast
  then show ?thesis
    using stream_key_budget [OF c, of "[[1], [2]]" tag_cipher_lib 0] by (simp add: sample_session_fields(2,3))
qed

text \<open>
  C14: A rekey exchange agrees.  When two sessions with the same secret, suites and a correct KEM run it
  (the request may cross any number of records, which do not touch these fields), the responder's
  answer is accepted, both ends adopt the same new 32-byte secret and are established again, and each
  end's new send cipher is the other end's pending receive cipher.
\<close>

theorem rekey_agreement:
  assumes "hash_lib_ok H" "kem_correct (kemSuite a)" "kemSuite b = kemSuite a"
    "masterSecret a = Some ms" "masterSecret b = Some ms" "length ms = 32"
    "suite_usable L (sess_CipherSuite a)" "sess_CipherSuite b = sess_CipherSuite a"
    "sess_state a = SessionStateEstablished" "\<not> rekeyInProgress a" "sess_state b = SessionStateEstablished"
    "96 \<le> length tape" "64 \<le> length tape'"
  shows "\<exists>pk act a1 ct b1 a2 ms'. InitiateRekey tape a = (Inr (pk, act), a1) \<and>
    PrepareRekeyResponse H L tape' pk act b = (Inr ct, b1) \<and>
    ProcessRekeyResponse H L now ct a1 = (Inr (), a2) \<and> length ms' = 32 \<and>
    masterSecret a2 = Some ms' \<and> masterSecret (ActivateRekeySend now b1) = Some ms' \<and>
    sess_state a2 = SessionStateEstablished \<and> sess_state (ActivateRekeySend now b1) = SessionStateEstablished \<and>
    sendCipher a2 \<noteq> None \<and> sendCipher a2 = pendingRecvCipher (ActivateRekeySend now b1) \<and>
    sendCipher (ActivateRekeySend now b1) \<noteq> None \<and> sendCipher (ActivateRekeySend now b1) = pendingRecvCipher a2"
proof -
  obtain kp pk where i: "kem_serves (kemSuite a) kp" "PublicKey_Bytes (PublicKey kp) = Inr pk"
      "InitiateRekey tape a = (Inr (pk, sendSeq a + 16), a\<lparr>rekeyInProgress := True, pendingRekeyKeyPair := Some kp,
        rekeyActivationSeq := sendSeq a + 16, sess_state := SessionStateRekeying\<rparr>)"
    using InitiateRekey_ok [OF assms(2,9,10,12)] by blast
  have u: "suite_usable L (sess_CipherSuite b)"
    using assms(7,8) by simp
  obtain ct ms' ki kr where p: "rekey_answer H (kemSuite a) kp ms ct ms'" "length ms' = 32"
      "DeriveTrafficKeys H ms' = Inr (ki, kr)" "length ki = 32" "length kr = 32"
      "PrepareRekeyResponse H L tape' pk (sendSeq a + 16) b = (Inr ct, b\<lparr>rekeyInProgress := True,
        rekeyActivationSeq := sendSeq a + 16, pendingRecvCipher := Some (fresh_aead (sess_CipherSuite b) ki),
        pendingSendCipher := Some (fresh_aead (sess_CipherSuite b) kr),
        pendingRekeySecret := Some ms', sess_state := SessionStateRekeying\<rparr>)"
    using PrepareRekeyResponse_ok [OF assms(1) i(1,2) assms(13,3,5,6) u] assms(11) by blast
  let ?a = "a\<lparr>rekeyInProgress := True, pendingRekeyKeyPair := Some kp, rekeyActivationSeq := sendSeq a + 16,
    sess_state := SessionStateRekeying\<rparr>"
  have "ProcessRekeyResponse H L now ct ?a = (Inr (), ?a\<lparr>sendCipher := Some (fresh_aead (sess_CipherSuite a) ki),
    sendEpochStartSeq := sendSeq a, pendingRecvCipher := Some (fresh_aead (sess_CipherSuite a) kr),
    pendingRekeyKeyPair := None, masterSecret := Some ms', pendingRekeySecret := None,
    rekeyInProgress := False, rekeyActivationSeq := 0, EstablishedAt := now, sess_state := SessionStateEstablished\<rparr>)"
    using ProcessRekeyResponse_ok [of ?a kp H ms ct ms' ki kr L now] p assms(4,7) by simp
  then show ?thesis
    using i(3) p(2,6) assms(8) by (simp add: ActivateRekeySend_ok)
qed

theorem rekey_agreement_witness:
  "\<exists>pk act a1 ct b1 a2. InitiateRekey (replicate 96 4) (sample_session RoleInitiator) = (Inr (pk, act), a1) \<and>
     PrepareRekeyResponse zero_hash_lib tag_cipher_lib (replicate 64 9) pk act (sample_session RoleResponder) = (Inr ct, b1) \<and>
     ProcessRekeyResponse zero_hash_lib tag_cipher_lib 5 ct a1 = (Inr (), a2) \<and>
     masterSecret a2 = masterSecret (ActivateRekeySend 5 b1)"
proof -
  have c: "kem_correct (kemSuite (sample_session RoleInitiator))"
    by (simp add: sample_session_fields chkemV1_correct zero_hash_lib_ok toy_kem_lib_ok)
  show ?thesis
    using rekey_agreement [OF zero_hash_lib_ok c, of "sample_session RoleResponder" "replicate 32 7" tag_cipher_lib
        "replicate 96 4" "replicate 64 9" 5]
    by (fastforce simp: sample_session_fields tag_suite_usable)
qed

text \<open>
  C32: What each method does to a closed session.  \<open>Encrypt\<close> fails and only burns a sequence number;
  \<open>Decrypt\<close>, \<open>InitializeKeys\<close>, \<open>PrepareRekeyResponse\<close>, \<open>InitiateRekey\<close> and \<open>ProcessRekeyResponse\<close> fail and
  change nothing, \<open>ExportTicket\<close> fails, no rekey is asked for, \<open>Resume\<close> changes at most the cipher suite.  The
  methods that do not look at the state still act: \<open>Rekey\<close> installs new ciphers while the session stays
  closed, \<open>ActivateRekeySend\<close> marks it established with the pending cipher and secret, and so does
  \<open>ActivatePendingKeys\<close> while a rekey is in progress.  \<open>Close\<close> keeps the datagram epochs.
\<close>

theorem closed_session_behaviour:
  assumes "hash_lib_ok H" "length ms = 32" "suite_usable L (sess_CipherSuite s)"
  shows "let c = session_Close s in
    Encrypt L now pt c = (Inl (Err ErrInvalidState), c\<lparr>sendSeq := sendSeq s + 1\<rparr>) \<and>
    Decrypt L now x sq c = (Inl (Err ErrInvalidState), c) \<and>
    InitializeKeys H L now k cs c = (Inl (Err ErrTunnelClosed), c) \<and>
    PrepareRekeyResponse H L tape pk act c = (Inl (Err ErrInvalidState), c) \<and>
    InitiateRekey tape c = (Inl (Err (if rekeyInProgress s then ErrRekeyInProgress else ErrInvalidState)), c) \<and>
    (\<exists>e. ProcessRekeyResponse H L now ct c = (Inl e, c)) \<and>
    ExportTicket L tm c = Inl (Err ErrInvalidState) \<and> \<not> NeedsRekey now c \<and>
    (\<exists>cs. snd (Resume L now t tm c) = c\<lparr>sess_CipherSuite := cs\<rparr>) \<and>
    (\<exists>sc rc. session_Rekey H L now ms c = (Inr (), c\<lparr>sendCipher := Some sc, recvCipher := Some rc,
       sendEpochStartSeq := sendSeq s, masterSecret := Some ms, replayWindow := NewReplayWindow, EstablishedAt := now\<rparr>)) \<and>
    (let a = ActivateRekeySend now c in sess_state a = SessionStateEstablished \<and>
       sendCipher a = pendingSendCipher s \<and> recvCipher a = None \<and> masterSecret a = pendingRekeySecret s) \<and>
    (let a = ActivatePendingKeys now c in if rekeyInProgress s
       then sess_state a = SessionStateEstablished \<and> sendCipher a = pendingSendCipher s \<and>
         recvCipher a = pendingRecvCipher s \<and> masterSecret a = pendingRekeySecret s
       else a = c) \<and>
    dgramEpochs c = dgramEpochs s \<and> dgramReplay c = dgramReplay s"
proof -
  define c where "c = session_Close s"
  have r: "\<exists>cs. snd (Resume L now t tm c) = c\<lparr>sess_CipherSuite := cs\<rparr>"
    by (cases "DecryptTicket L now tm t") (auto simp: Resume_def intro: exI [of _ "sess_CipherSuite c"])
  have k: "\<exists>sc rc. session_Rekey H L now ms c = (Inr (), c\<lparr>sendCipher := Some sc, recvCipher := Some rc,
       sendEpochStartSeq := sendSeq s, masterSecret := Some ms, replayWindow := NewReplayWindow, EstablishedAt := now\<rparr>)"
  proof -
    have u: "suite_usable L (sess_CipherSuite c)" "sendSeq c = sendSeq s"
      using assms(3) by (simp_all add: c_def)
    show ?thesis
      using session_Rekey_ok [OF assms(1,2) u(1), of now] unfolding u(2) by metis
  qed
  have e: "Encrypt L now pt c = (Inl (Err ErrInvalidState), c\<lparr>sendSeq := sendSeq s + 1\<rparr>)"
    "Decrypt L now x sq c = (Inl (Err ErrInvalidState), c)"
    "InitializeKeys H L now k cs c = (Inl (Err ErrTunnelClosed), c)"
    "PrepareRekeyResponse H L tape pk act c = (Inl (Err ErrInvalidState), c)"
    "InitiateRekey tape c = (Inl (Err (if rekeyInProgress s then ErrRekeyInProgress else ErrInvalidState)), c)"
    "ExportTicket L tm c = Inl (Err ErrInvalidState)" "\<not> NeedsRekey now c"
    by (simp_all add: c_def Encrypt_cases Decrypt_def InitializeKeys_def PrepareRekeyResponse_def InitiateRekey_def
        ExportTicket_def NeedsRekey_def failR_def guardR_def rejectS_def)
  have a: "let a = ActivateRekeySend now c in sess_state a = SessionStateEstablished \<and>
       sendCipher a = pendingSendCipher s \<and> recvCipher a = None \<and> masterSecret a = pendingRekeySecret s"
    by (simp add: c_def ActivateRekeySend_def finalizeRekeyStateLocked_def split: option.splits)
  have p: "let a = ActivatePendingKeys now c in if rekeyInProgress s
       then sess_state a = SessionStateEstablished \<and> sendCipher a = pendingSendCipher s \<and>
         recvCipher a = pendingRecvCipher s \<and> masterSecret a = pendingRekeySecret s
       else a = c"
    by (simp add: c_def ActivatePendingKeys_def finalizeRekeyStateLocked_def promotePendingRecvCipher_def Let_def
        split: option.splits)
  show ?thesis
    using e r k a p Close_refuses_rekey [of H L now ct s] unfolding c_def Let_def by simp
qed

theorem closed_session_behaviour_witness:
  "\<exists>pk act a1 ct b1. InitiateRekey (replicate 96 4) (sample_session RoleInitiator) = (Inr (pk, act), a1) \<and>
     PrepareRekeyResponse zero_hash_lib tag_cipher_lib (replicate 64 9) pk act (sample_session RoleResponder) = (Inr ct, b1) \<and>
     fst (Encrypt tag_cipher_lib 1 [1] (session_Close b1)) = Inl (Err ErrInvalidState) \<and>
     fst (session_Rekey zero_hash_lib tag_cipher_lib 1 (replicate 32 5) (session_Close b1)) = Inr () \<and>
     sendCipher (ActivatePendingKeys 1 (session_Close b1)) \<noteq> None"
proof -
  let ?a = "sample_session RoleInitiator" and ?b = "sample_session RoleResponder"
  have c: "kem_correct (kemSuite ?a)"
    by (simp add: sample_session_fields chkemV1_correct zero_hash_lib_ok toy_kem_lib_ok)
  obtain kp pk a1 where i: "kem_serves (kemSuite ?a) kp" "PublicKey_Bytes (PublicKey kp) = Inr pk"
      "InitiateRekey (replicate 96 4) ?a = (Inr (pk, 16), a1)"
    using InitiateRekey_ok [OF c, of "replicate 96 4"] by (auto simp: sample_session_fields)
  obtain ct b1 where p: "PrepareRekeyResponse zero_hash_lib tag_cipher_lib (replicate 64 9) pk 16 ?b = (Inr ct, b1)"
      "pendingSendCipher b1 \<noteq> None" "rekeyInProgress b1" "sess_CipherSuite b1 = CipherSuiteAES256GCM"
    using PrepareRekeyResponse_ok [OF zero_hash_lib_ok i(1,2), of "replicate 64 9" ?b "replicate 32 7" tag_cipher_lib 16]
    by (auto simp: sample_session_fields tag_suite_usable)
  have u: "suite_usable tag_cipher_lib (sess_CipherSuite b1)" "length (replicate 32 5 :: bytes) = 32"
    by (simp_all add: p(4) tag_suite_usable)
  have "fst (Encrypt tag_cipher_lib 1 [1] (session_Close b1)) = Inl (Err ErrInvalidState) \<and>
     fst (session_Rekey zero_hash_lib tag_cipher_lib 1 (replicate 32 5) (session_Close b1)) = Inr () \<and>
     sendCipher (ActivatePendingKeys 1 (session_Close b1)) \<noteq> None"
    using closed_session_behaviour [OF zero_hash_lib_ok u(2,1), of 1 "[1]" "[]" 0 "[]" 0 "[]" "[]" 0 "[]" sample_manager "[]"]
      p(2,3) by (auto simp: Let_def)
  then show ?thesis
    using i(3) p(1) by blast
qed

text \<open>
  C33: \<open>NeedsRekey\<close> sticks.  Once a session has sent 2^36 bytes or 2^28 packets, no sequence of methods, a
  completed rekey included, makes \<open>NeedsRekey\<close> false again while the session has a send cipher and the
  64-bit counter does not overflow: the counters it compares are never reset.
\<close>

theorem needs_rekey_sticks:
  assumes "sint (BytesSent s) \<ge> 2 ^ 36 \<and> sint (BytesSent s) + int (run_bytes es) < 2 ^ 63 \<or>
      sint (PacketsSent s) \<ge> 2 ^ 28 \<and> sint (PacketsSent s) + int (length es) < 2 ^ 63"
    and "sendCipher (session_run H L es s) \<noteq> None"
  shows "NeedsRekey now (session_run H L es s)"
proof -
  obtain b p where r: "b \<le> run_bytes es" "p \<le> length es" "BytesSent (session_run H L es s) = BytesSent s + word_of_nat b"
      "PacketsSent (session_run H L es s) = PacketsSent s + word_of_nat p"
    using run_counters by blast
  have "sint (BytesSent (session_run H L es s)) \<ge> 2 ^ 36 \<or> sint (PacketsSent (session_run H L es s)) \<ge> 2 ^ 28"
    using assms(1) r sint_add_nat [of "BytesSent s" b] sint_add_nat [of "PacketsSent s" p] by auto
  then show ?thesis
    using assms(2) by (auto simp: NeedsRekey_def MaxBytesBeforeRekey_def MaxPacketsBeforeRekey_def)
qed

theorem needs_rekey_sticks_witness:
  "NeedsRekey 5 (session_run zero_hash_lib tag_cipher_lib [(5, EvRekey (replicate 32 8))]
     (sample_session RoleInitiator\<lparr>BytesSent := 2 ^ 36\<rparr>))"
proof -
  let ?s = "sample_session RoleInitiator\<lparr>BytesSent := 2 ^ 36\<rparr>"
  obtain c where c: "sendCipher ?s = Some c"
    using sample_session_fields(9) by auto
  have "sendCipher (snd (session_Rekey zero_hash_lib tag_cipher_lib 5 (replicate 32 8) ?s)) \<noteq> None"
    using c by (auto simp: session_Rekey_def Let_def case_prod_beta rejectS_def tryS_def split: sum.splits)
  then have "sendCipher (session_run zero_hash_lib tag_cipher_lib [(5, EvRekey (replicate 32 8))] ?s) \<noteq> None"
    by simp
  then show ?thesis
    by (intro needs_rekey_sticks) simp_all
qed

end
