(* ===== verification/Transport.thy ===== *)
theory Transport
  imports Session
begin

text \<open>
  The stream transport: pkg/tunnel/transport.go, from \<open>NewTransport\<close> to \<open>CheckAndRekey\<close>.  The connection is
  the bytes that have arrived and are not yet read, the bytes written, and whether writing fails;
  deadlines are left out.  One iteration of the \<open>Receive\<close> loop is \<open>receive_one\<close>; the loop is a total
  function because every iteration that continues consumes a frame.  The random bytes of successive
  KEM operations are a list of tapes.
\<close>

section \<open>State\<close>

record transport =
  t_session :: session
  t_closed :: bool
  readBuf :: bytes
  conn_in :: bytes
  conn_out :: bytes
  conn_down :: "qerror option"
  t_rand :: "entropy list"

definition NewTransport :: "session \<Rightarrow> bytes \<Rightarrow> entropy list \<Rightarrow> transport res" where
  "NewTransport s input rand =
     guardR (sess_state s \<noteq> SessionStateEstablished) ErrInvalidState (
     Inr \<lparr>t_session = s, t_closed = False, readBuf = [], conn_in = input, conn_out = [], conn_down = None,
       t_rand = rand\<rparr>)"

definition on_session :: "(session \<Rightarrow> 'a res \<times> session) \<Rightarrow> transport \<Rightarrow> 'a res \<times> transport" where
  "on_session f t = (case f (t_session t) of (r, s) \<Rightarrow> (r, t\<lparr>t_session := s\<rparr>))"

definition nextTape :: "transport \<Rightarrow> entropy \<times> transport" where
  "nextTape t = (case t_rand t of [] \<Rightarrow> ([], t) | tape # rest \<Rightarrow> (tape, t\<lparr>t_rand := rest\<rparr>))"

section \<open>Writing\<close>

definition writeLocked :: "bytes \<Rightarrow> transport \<Rightarrow> unit res \<times> transport" where
  "writeLocked msg t =
     (case conn_down t of Some e \<Rightarrow> (failR e, t) | None \<Rightarrow> (Inr (), t\<lparr>conn_out := conn_out t @ msg\<rparr>))"

definition writeFrame :: "bytes \<Rightarrow> transport \<Rightarrow> unit res \<times> transport" where
  "writeFrame msg t = writeLocked msg t"

definition sealAndWrite :: "cipher_lib \<Rightarrow> int \<Rightarrow> bytes \<Rightarrow> transport \<Rightarrow> unit res \<times> transport" where
  "sealAndWrite L now d t =
     bindS (on_session (Encrypt L now d) t) (\<lambda>(ciphertext, sq) t.
     tryS t (EncodeData sq ciphertext) (\<lambda>msg.
     writeLocked msg t))"

text \<open>The first half of \<open>SendRekey\<close> and \<open>sendRekeyResponse\<close> differ only in where the payload comes from.\<close>

definition sendRekeyRecord :: "cipher_lib \<Rightarrow> int \<Rightarrow> bytes \<Rightarrow> u64 \<Rightarrow> transport \<Rightarrow> unit res \<times> transport" where
  "sendRekeyRecord L now payload activationSeq t =
     tryS t (EncodeRekeyPayload payload activationSeq) (\<lambda>innerPayload.
     bindS (on_session (Encrypt L now innerPayload) t) (\<lambda>(ciphertext, sq) t.
     tryS t (EncodeRekey sq ciphertext) (\<lambda>msg.
     writeFrame msg t)))"

definition sendRekeyResponse :: "cipher_lib \<Rightarrow> int \<Rightarrow> bytes \<Rightarrow> u64 \<Rightarrow> transport \<Rightarrow> unit res \<times> transport" where
  "sendRekeyResponse L now responseCT activationSeq t = sendRekeyRecord L now responseCT activationSeq t"

definition SendRekey :: "cipher_lib \<Rightarrow> int \<Rightarrow> transport \<Rightarrow> unit res \<times> transport" where
  "SendRekey L now t =
     rejectS (t_closed t) ErrTunnelClosed t (
     case nextTape t of (tape, t) \<Rightarrow>
     bindS (on_session (InitiateRekey tape) t) (\<lambda>(newPublicKey, activationSeq) t.
     sendRekeyRecord L now newPublicKey activationSeq t))"

definition CheckAndRekey :: "cipher_lib \<Rightarrow> int \<Rightarrow> transport \<Rightarrow> unit res \<times> transport" where
  "CheckAndRekey L now t =
     (if sess_Role (t_session t) \<noteq> RoleInitiator then (Inr (), t)
      else if IsRekeyInProgress (t_session t) then (Inr (), t)
      else if NeedsRekey now (t_session t) then SendRekey L now t
      else (Inr (), t))"

definition transport_Send :: "cipher_lib \<Rightarrow> int \<Rightarrow> bytes \<Rightarrow> transport \<Rightarrow> unit res \<times> transport" where
  "transport_Send L now d t =
     rejectS (t_closed t) ErrTunnelClosed t (
     rejectS (length d > MaxPayloadSize) ErrMessageTooLarge t (
     bindS (sealAndWrite L now d t) (\<lambda>_ t.
     case CheckAndRekey L now t of (Inl Panic, t) \<Rightarrow> (Inl Panic, t) | (_, t) \<Rightarrow> (Inr (), t))))"

definition encodePing :: bytes where
  "encodePing = [MessageTypePing] @ put_u32 0"

definition encodePong :: bytes where
  "encodePong = [MessageTypePong] @ put_u32 0"

definition SendPing :: "transport \<Rightarrow> unit res \<times> transport" where
  "SendPing t = rejectS (t_closed t) ErrTunnelClosed t (writeFrame encodePing t)"

definition sendPong :: "transport \<Rightarrow> unit res \<times> transport" where
  "sendPong t = writeFrame encodePong t"

definition sendAlert :: "byte \<Rightarrow> byte \<Rightarrow> bytes \<Rightarrow> transport \<Rightarrow> unit res \<times> transport" where
  "sendAlert level code desc t = writeLocked (EncodeAlert level code desc) t"

section \<open>Reading\<close>

definition checkClosed :: "transport \<Rightarrow> unit res" where
  "checkClosed t = guardR (t_closed t) ErrTunnelClosed (Inr ())"

definition readMessage :: "transport \<Rightarrow> (bytes \<times> byte) res \<times> transport" where
  "readMessage t =
     (case ReadMessageInto (conn_in t) (readBuf t) of
        (Inl (Err ErrEOF), rest, _) \<Rightarrow> (failR ErrTunnelClosed, t\<lparr>conn_in := rest\<rparr>)
      | (Inl e, rest, _) \<Rightarrow> (Inl e, t\<lparr>conn_in := rest\<rparr>)
      | (Inr msg, rest, buf) \<Rightarrow>
          let t = t\<lparr>conn_in := rest, readBuf := buf\<rparr> in
          tryS t (GetMessageType msg) (\<lambda>msgType. (Inr (msg, msgType), t)))"

definition markClosed :: "transport \<Rightarrow> transport" where
  "markClosed t = t\<lparr>t_closed := True\<rparr>"

text \<open>A malformed alert leaves Go's zero values in level, code and text.\<close>

definition handleAlert :: "bytes \<Rightarrow> transport \<Rightarrow> bytes res \<times> transport" where
  "handleAlert msg t =
     (case DecodeAlert msg of
        Inl Panic \<Rightarrow> (Inl Panic, t)
      | r \<Rightarrow>
        let al = (case r of Inr al \<Rightarrow> al | Inl _ \<Rightarrow> \<lparr>al_Level = 0, al_Code = 0, al_Description = []\<rparr>) in
        if al_Code al = AlertCodeCloseNotify then (failR ErrTunnelClosed, markClosed t)
        else (failR (ProtocolError ''alert'' (AlertError (al_Level al) (al_Code al) (al_Description al))), t))"

definition handleData :: "cipher_lib \<Rightarrow> int \<Rightarrow> bytes \<Rightarrow> transport \<Rightarrow> bytes res \<times> transport" where
  "handleData L now msg t =
     tryS t (DecodeData msg) (\<lambda>(sq, ciphertext).
     on_session (Decrypt L now ciphertext sq) t)"

definition handleRekey :: "hash_lib \<Rightarrow> cipher_lib \<Rightarrow> int \<Rightarrow> bytes \<Rightarrow> transport \<Rightarrow> unit res \<times> transport" where
  "handleRekey H L now msg t =
     tryS t (DecodeRekey msg) (\<lambda>(sq, ciphertext).
     bindS (on_session (Decrypt L now ciphertext sq) t) (\<lambda>plaintext t.
     tryS t (DecodeRekeyPayload plaintext) (\<lambda>(newPublicKey, activationSeq).
     if sess_Role (t_session t) = RoleResponder \<and> \<not> IsRekeyInProgress (t_session t) then
       (case nextTape t of (tape, t) \<Rightarrow>
        bindS (on_session (PrepareRekeyResponse H L tape newPublicKey activationSeq) t) (\<lambda>responseCT t.
        bindS (sendRekeyResponse L now responseCT activationSeq t) (\<lambda>_ t.
        (Inr (), t\<lparr>t_session := ActivateRekeySend now (t_session t)\<rparr>))))
     else if sess_Role (t_session t) = RoleInitiator \<and> IsRekeyInProgress (t_session t) then
       on_session (ProcessRekeyResponse H L now newPublicKey) t
     else (Inr (), t))))"

text \<open>One iteration of the receive loop: a result, or \<open>None\<close> to go on.\<close>

definition receive_one :: "hash_lib \<Rightarrow> cipher_lib \<Rightarrow> int \<Rightarrow> transport \<Rightarrow> bytes res option \<times> transport" where
  "receive_one H L now t =
     (case checkClosed t of Inl e \<Rightarrow> (Some (Inl e), t)
      | Inr _ \<Rightarrow>
     (case readMessage t of (Inl e, t) \<Rightarrow> (Some (Inl e), t)
      | (Inr (msg, msgType), t) \<Rightarrow>
        if msgType = MessageTypeData then
          (case handleData L now msg t of (r, t) \<Rightarrow> (Some r, t))
        else if msgType = MessageTypePing then
          (case sendPong t of (Inl e, t) \<Rightarrow> (Some (Inl e), t) | (Inr _, t) \<Rightarrow> (None, t))
        else if msgType = MessageTypePong then (None, t)
        else if msgType = MessageTypeClose then (Some (failR ErrTunnelClosed), markClosed t)
        else if msgType = MessageTypeRekey then
          (case handleRekey H L now msg t of (Inl e, t) \<Rightarrow> (Some (Inl e), t) | (Inr _, t) \<Rightarrow> (None, t))
        else if msgType = MessageTypeAlert then
          (case handleAlert msg t of (r, t) \<Rightarrow> (Some r, t))
        else (Some (failR ErrInvalidMessage), t)))"

text \<open>Every iteration that reaches the peer's message consumes it, at least a header.\<close>

lemma conn_in_tryS: "(\<And>x. r = Inr x \<Longrightarrow> conn_in (snd (k x)) = n) \<Longrightarrow> conn_in t = n \<Longrightarrow> conn_in (snd (tryS t r k)) = n"
  by (cases r) auto

lemma conn_in_bindS:
  "(\<And>x t. m = (Inr x, t) \<Longrightarrow> conn_in t = n \<Longrightarrow> conn_in (snd (k x t)) = n) \<Longrightarrow> conn_in (snd m) = n \<Longrightarrow>
   conn_in (snd (bindS m k)) = n"
  by (cases m; cases "fst m") auto

lemma conn_in_simps [simp]:
  "conn_in (snd (on_session f t)) = conn_in t" "conn_in (snd (writeLocked m t)) = conn_in t"
  "conn_in (snd (nextTape t)) = conn_in t"
  by (auto simp: on_session_def writeLocked_def nextTape_def split: prod.splits option.splits list.splits)

lemma conn_in_sendRekeyRecord [simp]: "conn_in (snd (sendRekeyRecord L now p act t)) = conn_in t"
  by (auto simp: sendRekeyRecord_def writeFrame_def case_prod_beta intro!: conn_in_tryS conn_in_bindS)

lemma conn_in_handleRekey [simp]: "conn_in (snd (handleRekey H L now msg t)) = conn_in t"
  by (auto simp: handleRekey_def sendRekeyResponse_def case_prod_beta intro!: conn_in_tryS conn_in_bindS)

lemma readMessage_consumes:
  assumes "readMessage t = (Inr (msg, ty), t')"
  shows "conn_in t = msg @ conn_in t'" "wf_frame msg" "t' = t\<lparr>conn_in := conn_in t', readBuf := readBuf t'\<rparr>" "u8_at msg 0 = Inr ty"
proof -
  obtain r rest buf where r: "ReadMessageInto (conn_in t) (readBuf t) = (r, rest, buf)"
    by (metis surj_pair)
  then have m: "r = Inr msg" "t' = t\<lparr>conn_in := rest, readBuf := buf\<rparr>" "u8_at msg 0 = Inr ty"
    using assms by (auto simp: readMessage_def Let_def result_simps GetMessageType_def split: sum.splits failure.splits qerror.splits)
  then have "ReadMessage (conn_in t) = (Inr msg, rest)"
    using ReadMessageInto_eq [of "conn_in t" "readBuf t"] r by (metis fst_conv prod.collapse snd_conv)
  then show "conn_in t = msg @ conn_in t'" "wf_frame msg" "t' = t\<lparr>conn_in := conn_in t', readBuf := readBuf t'\<rparr>" "u8_at msg 0 = Inr ty"
    using ReadMessage_wf m by auto
qed

lemma receive_one_consumes:
  assumes "receive_one H L now t = (None, t')"
  shows "length (conn_in t') + HeaderSize \<le> length (conn_in t)"
proof -
  obtain msg ty t1 where r: "readMessage t = (Inr (msg, ty), t1)"
    using assms by (auto simp: receive_one_def split: prod.splits sum.splits)
  have "HeaderSize \<le> length msg" "length (conn_in t) = length msg + length (conn_in t1)"
    using readMessage_consumes(1,2) [OF r] by (auto simp: wf_frame_def HeaderSize_def)
  moreover have "handleRekey H L now msg t1 = (x, t2) \<Longrightarrow> conn_in t2 = conn_in t1"
      "writeLocked encodePong t1 = (x, t2) \<Longrightarrow> conn_in t2 = conn_in t1" for x t2
    by (metis conn_in_handleRekey snd_conv, metis conn_in_simps(2) snd_conv)
  then have "conn_in t' = conn_in t1"
    using assms r by (auto simp: receive_one_def sendPong_def writeFrame_def split: prod.splits sum.splits if_splits)
  ultimately show ?thesis
    by simp
qed

function Receive :: "hash_lib \<Rightarrow> cipher_lib \<Rightarrow> int \<Rightarrow> transport \<Rightarrow> bytes res \<times> transport" where
  "Receive H L now t =
     (case receive_one H L now t of (Some r, t') \<Rightarrow> (r, t') | (None, t') \<Rightarrow> Receive H L now t')"
  by pat_completeness auto
termination
  by (relation "measure (\<lambda>(H, L, now, t). length (conn_in t))") (auto simp: HeaderSize_def dest!: receive_one_consumes [OF sym])

declare Receive.simps [simp del]

section \<open>Close\<close>

definition transport_Close :: "transport \<Rightarrow> transport" where
  "transport_Close t =
     (if t_closed t then t
      else
        (let t = t\<lparr>t_closed := True\<rparr>;
             t = (if sess_state (t_session t) = SessionStateEstablished
                  then snd (writeLocked (EncodeAlert AlertLevelWarning AlertCodeCloseNotify (string_bytes ''connection closed'')) t)
                  else t)
         in t\<lparr>t_session := session_Close (t_session t), conn_down := Some (ErrText ''use of closed network connection'')\<rparr>))"

section \<open>No panic on any input\<close>

text \<open>A session over a registered KEM suite whose pending rekey key pair came from that suite.\<close>

definition session_sane :: "hash_lib \<Rightarrow> kem_lib \<Rightarrow> session \<Rightarrow> bool" where
  "session_sane H K s \<longleftrightarrow> (\<exists>sid. GetSuite H K sid = Some (kemSuite s)) \<and>
     (\<forall>kp. pendingRekeyKeyPair s = Some kp \<longrightarrow> (\<exists>tape. suite_GenerateKeyPair (kemSuite s) tape = Inr kp))"

definition safe :: "hash_lib \<Rightarrow> kem_lib \<Rightarrow> 'a res \<times> transport \<Rightarrow> bool" where
  "safe H K m \<longleftrightarrow> fst m \<noteq> Inl Panic \<and> session_sane H K (t_session (snd m))"

lemma safe_tryS:
  "r \<noteq> Inl Panic \<Longrightarrow> session_sane H K (t_session t) \<Longrightarrow> (\<And>x. r = Inr x \<Longrightarrow> safe H K (k x)) \<Longrightarrow> safe H K (tryS t r k)"
  by (cases r) (auto simp: safe_def)

lemma safe_bindS:
  "safe H K m \<Longrightarrow> (\<And>x t. m = (Inr x, t) \<Longrightarrow> session_sane H K (t_session t) \<Longrightarrow> safe H K (k x t)) \<Longrightarrow> safe H K (bindS m k)"
  by (cases m; cases "fst m") (auto simp: safe_def)

text \<open>Session methods as safe operations: no panic, and KEM suite and pending key pair are kept sane.\<close>

definition sane_op :: "hash_lib \<Rightarrow> kem_lib \<Rightarrow> 'a res \<times> session \<Rightarrow> bool" where
  "sane_op H K m \<longleftrightarrow> fst m \<noteq> Inl Panic \<and> session_sane H K (snd m)"

lemma sane_op_tryS:
  "r \<noteq> Inl Panic \<Longrightarrow> session_sane H K s \<Longrightarrow> (\<And>x. r = Inr x \<Longrightarrow> sane_op H K (k x)) \<Longrightarrow> sane_op H K (tryS s r k)"
  by (cases r) (auto simp: sane_op_def)

lemma sane_op_rejectS: "session_sane H K s \<Longrightarrow> (\<not> b \<Longrightarrow> sane_op H K k) \<Longrightarrow> sane_op H K (rejectS b e s k)"
  by (auto simp: sane_op_def rejectS_def failR_def)

lemma safe_on_session: "sane_op H K (f (t_session t)) \<Longrightarrow> safe H K (on_session f t)"
  by (auto simp: safe_def sane_op_def on_session_def split: prod.splits)

lemma session_sane_cong:
  "session_sane H K s \<Longrightarrow> kemSuite s' = kemSuite s \<Longrightarrow> pendingRekeyKeyPair s' \<in> {None, pendingRekeyKeyPair s} \<Longrightarrow> session_sane H K s'"
  by (auto simp: session_sane_def)

lemma DeriveRekeySecret_no_panic: "DeriveRekeySecret H a b \<noteq> Inl Panic"
  by (auto simp: DeriveRekeySecret_def result_simps DeriveKeyMultiple_no_panic)

lemma DeriveTrafficKeys_no_panic: "hash_lib_ok H \<Longrightarrow> DeriveTrafficKeys H ms \<noteq> Inl Panic"
  by (simp add: DeriveTrafficKeys_def split_derivation_no_panic)

lemma NewAEAD_no_panic: "NewAEAD L cs key \<noteq> Inl Panic"
  by (simp add: result_simps)

lemma Encrypt_sane: "session_sane H K s \<Longrightarrow> sane_op H K (Encrypt L now pt s)"
  by (auto simp: sane_op_def Encrypt_cases failR_def elim!: session_sane_cong split: option.splits)

lemma Decrypt_sane:
  assumes "session_sane H K s"
  shows "sane_op H K (Decrypt L now x sq s)"
proof -
  have "kemSuite (snd (Decrypt L now x sq s)) = kemSuite s \<and> pendingRekeyKeyPair (snd (Decrypt L now x sq s)) = pendingRekeyKeyPair s
      \<and> fst (Decrypt L now x sq s) \<noteq> Inl Panic"
    by (auto simp: Decrypt_def case_prod_beta Let_def rejectS_def tryS_def failR_def promotePendingRecvCipher_def
        split: option.splits sum.splits failure.splits)
  then show ?thesis
    using assms by (auto simp: sane_op_def elim!: session_sane_cong)
qed

lemma PrepareRekeyResponse_sane:
  assumes "hash_lib_ok H" "session_sane H K s"
  shows "sane_op H K (PrepareRekeyResponse H L tape pk act s)"
proof -
  obtain sid where g: "GetSuite H K sid = Some (kemSuite s)"
    using assms(2) by (auto simp: session_sane_def)
  show ?thesis
    unfolding PrepareRekeyResponse_def
    using assms suite_no_panic(1,3) [OF g] DeriveRekeySecret_no_panic DeriveTrafficKeys_no_panic [OF assms(1)] NewAEAD_no_panic
    by (auto intro!: sane_op_tryS sane_op_rejectS simp: case_prod_beta)
      (auto simp: sane_op_def elim!: session_sane_cong)
qed

lemma ProcessRekeyResponse_sane:
  assumes "hash_lib_ok H" "session_sane H K s"
  shows "sane_op H K (ProcessRekeyResponse H L now ct s)"
proof (cases "pendingRekeyKeyPair s")
  case None
  then show ?thesis
    using assms(2) by (auto simp: ProcessRekeyResponse_def sane_op_def rejectS_def failR_def)
next
  case (Some kp)
  obtain sid tape where g: "GetSuite H K sid = Some (kemSuite s)" "suite_GenerateKeyPair (kemSuite s) tape = Inr kp"
    using assms(2) Some by (auto simp: session_sane_def)
  show ?thesis
    unfolding ProcessRekeyResponse_def Some
    using assms suite_no_panic(2) [OF g(1)] suite_no_panic(4) [OF g] DeriveRekeySecret_no_panic
      DeriveTrafficKeys_no_panic [OF assms(1)] NewAEAD_no_panic
    by (auto intro!: sane_op_tryS sane_op_rejectS simp: case_prod_beta)
      (auto simp: sane_op_def finalizeRekeyStateLocked_def elim!: session_sane_cong)
qed

lemma sendRekeyRecord_safe:
  assumes "session_sane H K (t_session t)"
  shows "safe H K (sendRekeyRecord L now p act t)"
proof -
  have w: "session_sane H K (t_session t) \<Longrightarrow> safe H K (writeFrame m t)" for m t
    by (auto simp: safe_def writeFrame_def writeLocked_def failR_def split: option.splits)
  have e: "EncodeRekeyPayload p act \<noteq> Inl Panic" "EncodeRekey sq c \<noteq> Inl Panic" for sq c
    by (auto simp: EncodeRekeyPayload_def EncodeRekey_def result_simps)
  show ?thesis
    unfolding sendRekeyRecord_def using assms e
    by (auto intro!: safe_tryS safe_bindS safe_on_session Encrypt_sane w simp: case_prod_beta)
qed

lemma decoders_no_panic:
  "DecodeData d \<noteq> Inl Panic" "DecodeRekey d \<noteq> Inl Panic" "DecodeAlert d \<noteq> Inl Panic" "DecodeRekeyPayload d \<noteq> Inl Panic"
  by (auto simp: DecodeData_def DecodeRekey_def decode_record_def DecodeAlert_def DecodeRekeyPayload_def HeaderSize_def Let_def
      result_simps)

lemma readMessage_Inl:
  assumes "ReadMessageInto (conn_in t) (readBuf t) = (Inl e, rest, buf)"
  shows "readMessage t = (Inl (if e = Err ErrEOF then Err ErrTunnelClosed else e), t\<lparr>conn_in := rest\<rparr>)"
proof (cases e)
  case (Err x)
  then show ?thesis
    using assms by (cases x) (simp_all add: readMessage_def failR_def)
qed (use assms in \<open>simp add: readMessage_def\<close>)

lemma readMessage_safe:
  assumes "readMessage t = (q, u)"
  shows "q \<noteq> Inl Panic \<and> t_session u = t_session t"
proof -
  obtain r rest buf where r: "ReadMessageInto (conn_in t) (readBuf t) = (r, rest, buf)"
    by (metis surj_pair)
  have p: "r \<noteq> Inl Panic"
    using r by (auto simp: ReadMessageInto_def ReadFull_def failR_def Let_def split: prod.splits sum.splits if_splits)
  show ?thesis
  proof (cases r)
    case (Inl e)
    then show ?thesis
      using readMessage_Inl [of t e rest buf] r p assms by auto
  next
    case (Inr m)
    then show ?thesis
      using r assms by (auto simp: readMessage_def GetMessageType_def u8_at_def guardR_def failR_def Let_def tryS_def split: sum.splits if_splits)
  qed
qed

lemma handleRekey_safe:
  assumes "hash_lib_ok H" "session_sane H K (t_session t)"
  shows "safe H K (handleRekey H L now msg t)"
proof -
  have a: "session_sane H K s \<Longrightarrow> session_sane H K (ActivateRekeySend now s)" for s
    by (auto simp: ActivateRekeySend_def finalizeRekeyStateLocked_def Let_def elim!: session_sane_cong split: option.splits)
  have n: "t_session (snd (nextTape t)) = t_session t" for t
    by (auto simp: nextTape_def split: list.splits)
  have m: "safe H K (Inr (), t)" if "session_sane H K (t_session t)" for t
    using that by (simp add: safe_def)
  show ?thesis
    unfolding handleRekey_def sendRekeyResponse_def
    using assms decoders_no_panic
    by (auto simp: case_prod_beta n intro!: safe_tryS safe_bindS safe_on_session Decrypt_sane PrepareRekeyResponse_sane
        ProcessRekeyResponse_sane sendRekeyRecord_safe m a)
qed

lemma receive_one_safe:
  assumes "hash_lib_ok H" "session_sane H K (t_session t)" "receive_one H L now t = (r, t')"
  shows "r \<noteq> Some (Inl Panic) \<and> session_sane H K (t_session t')"
proof -
  have h: "handleRekey H L now msg u = (q, v) \<Longrightarrow> q \<noteq> Inl Panic \<and> session_sane H K (t_session v)"
    if "t_session u = t_session t" for msg u q v
    using handleRekey_safe [OF assms(1), of K u L now msg] assms(2) that by (auto simp: safe_def)
  have d: "handleData L now msg u = (q, v) \<Longrightarrow> q \<noteq> Inl Panic \<and> session_sane H K (t_session v)"
    if "t_session u = t_session t" for msg u q v
  proof -
    assume "handleData L now msg u = (q, v)"
    moreover have "safe H K (handleData L now msg u)"
      unfolding handleData_def using assms(2) decoders_no_panic that
      by (auto simp: case_prod_beta intro!: safe_tryS safe_on_session Decrypt_sane)
    ultimately show ?thesis
      by (simp add: safe_def)
  qed
  have al: "handleAlert msg u = (q, v) \<Longrightarrow> q \<noteq> Inl Panic \<and> t_session v = t_session u" for msg u q v
    using decoders_no_panic(3) [of msg]
    by (auto simp: handleAlert_def markClosed_def failR_def Let_def split: sum.splits failure.splits if_splits)
  have po: "sendPong u = (q, v) \<Longrightarrow> q \<noteq> Inl Panic \<and> t_session v = t_session u" for u q v
    by (auto simp: sendPong_def writeFrame_def writeLocked_def failR_def split: option.splits)
  obtain q u where q: "readMessage t = (q, u)" "q \<noteq> Inl Panic" "t_session u = t_session t"
    using readMessage_safe [of t] by (metis surj_pair)
  have cl: "checkClosed t = Inl e \<Longrightarrow> e \<noteq> Panic" for e
    by (auto simp: checkClosed_def guardR_def failR_def split: if_splits)
  show ?thesis
  proof (cases q)
    case (Inl e)
    then show ?thesis
      using assms(2,3) q cl by (auto simp: receive_one_def split: sum.splits)
  next
    case (Inr m)
    obtain msg ty where m: "m = (msg, ty)"
      by fastforce
    obtain dq dv rq rv aq av pq pv where o: "handleData L now msg u = (dq, dv)" "handleRekey H L now msg u = (rq, rv)"
        "handleAlert msg u = (aq, av)" "sendPong u = (pq, pv)"
      by (metis surj_pair)
    have s: "session_sane H K (t_session u)" "session_sane H K (t_session av)" "session_sane H K (t_session pv)"
      using assms(2) q(3) al [OF o(3)] po [OF o(4)] by simp_all
    show ?thesis
      using assms(2,3) s q(1) Inr m cl o d [OF q(3) o(1)] h [OF q(3) o(2)] al [OF o(3)] po [OF o(4)]
      by (auto simp: receive_one_def markClosed_def failR_def split: sum.splits if_splits)
  qed
qed

lemma Receive_safe:
  assumes "hash_lib_ok H"
  shows "session_sane H K (t_session t) \<Longrightarrow> fst (Receive H L now t) \<noteq> Inl Panic \<and> session_sane H K (t_session (snd (Receive H L now t)))"
  using assms
proof (induction H L now t rule: Receive.induct)
  case (1 H L now t)
  obtain r t' where one: "receive_one H L now t = (r, t')"
    by fastforce
  note s = receive_one_safe [OF 1(3,2) one]
  show ?case
  proof (cases r)
    case None
    then show ?thesis
      using 1(1) [OF one [symmetric] None] s 1(3) one by (simp add: Receive.simps [of H L now t])
  next
    case (Some x)
    then show ?thesis
      using s one by (auto simp: Receive.simps [of H L now t])
  qed
qed

section \<open>The loop as written\<close>

text \<open>The \<open>for\<close> loop of \<open>Receive\<close> with a bound on its iterations.\<close>

fun receive_loop :: "hash_lib \<Rightarrow> cipher_lib \<Rightarrow> int \<Rightarrow> nat \<Rightarrow> transport \<Rightarrow> (bytes res \<times> transport) option" where
  "receive_loop H L now 0 t = None"
| "receive_loop H L now (Suc k) t =
     (case receive_one H L now t of (Some r, t') \<Rightarrow> Some (r, t') | (None, t') \<Rightarrow> receive_loop H L now k t')"

lemma receive_loop_enough: "length (conn_in t) < HeaderSize * k \<Longrightarrow> receive_loop H L now k t = Some (Receive H L now t)"
proof (induction k arbitrary: t)
  case (Suc k)
  obtain r t' where one: "receive_one H L now t = (r, t')"
    by fastforce
  show ?case
  proof (cases r)
    case None
    then show ?thesis
      using Suc receive_one_consumes [of H L now t t'] one by (simp add: Receive.simps [of H L now t])
  qed (simp add: one Receive.simps [of H L now t])
qed simp

section \<open>Properties\<close>

text \<open>
  C16: No byte stream from the network makes \<open>Receive\<close> panic, whatever the state of the transport, as long
  as the session uses a registered KEM suite and any pending rekey key pair was generated by it; and
  the session it leaves is again such a session.
\<close>

theorem receive_never_panics:
  assumes "hash_lib_ok H" "session_sane H K (t_session t)" "Receive H L now t = (r, t')"
  shows "r \<noteq> Inl Panic \<and> session_sane H K (t_session t')"
  using Receive_safe [OF assms(1,2), of L now] assms(3) by simp

theorem receive_never_panics_witness:
  "\<exists>t r t'. t_session t = sample_session RoleResponder \<and> conn_in t = [0x11, 0, 0, 0, 3, 1, 2, 3] \<and>
     Receive zero_hash_lib tag_cipher_lib 5 t = (r, t') \<and> r \<noteq> Inl Panic"
proof -
  have "pendingRekeyKeyPair (sample_session RoleResponder) = None"
    using sample_session_eq [of RoleResponder] by (auto simp: blank_session_def)
  then have s: "session_sane zero_hash_lib toy_kem_lib (sample_session RoleResponder)"
    by (auto simp: session_sane_def sample_session_fields GetSuite_def intro: exI [of _ SuiteCHKEMv1])
  define t where "t = \<lparr>t_session = sample_session RoleResponder, t_closed = False, readBuf = [],
    conn_in = [0x11, 0, 0, 0, 3, 1, 2, 3], conn_out = [], conn_down = None, t_rand = []\<rparr>"
  obtain r t' where r: "Receive zero_hash_lib tag_cipher_lib 5 t = (r, t')"
    by fastforce
  have "r \<noteq> Inl Panic"
    using receive_never_panics [OF zero_hash_lib_ok _ r] s by (simp add: t_def)
  then show ?thesis
    using r by (intro exI [of _ t]) (simp add: t_def)
qed

text \<open>
  C17: The receive loop ends: on a connection with \<open>n\<close> bytes to read it returns within 1 + n/5 iterations
  (each iteration that goes on consumes at least a header), however many control messages the peer
  sends, and its result is that of \<open>Receive\<close>.
\<close>

theorem receive_loop_terminates:
  "receive_loop H L now (Suc (length (conn_in t) div 5)) t = Some (Receive H L now t)"
  by (rule receive_loop_enough, unfold HeaderSize_def) presburger

end
