(* ===== verification/Stream_Net.thy ===== *)
theory Stream_Net
  imports Transport
begin

text \<open>
  Two transports joined by a reliable in-order byte stream in each direction: the initiator end A and the
  responder end B.  A step is one call at one end (\<open>Send\<close>, \<open>SendPing\<close>, \<open>SendRekey\<close>) or one iteration of its
  receive loop; what it writes is appended to what the other end will read.  Shown: in every reachable
  state, through any interleaving of data, keepalives and rekeys, no receive fails and each end
  has received a prefix of what the other sent, the rest being in flight (the abstract
  specification is a pair of queues).

  A record that opens under two different keys of the receiver is the one event excluded (a premise
  of the receive step); for an authenticated cipher it amounts to a forgery.
\<close>

section \<open>The system\<close>

record stream_net =
  endA :: transport
  endB :: transport
  sentA :: "bytes list"
  sentB :: "bytes list"
  gotA :: "bytes list"
  gotB :: "bytes list"
  faults :: "failure list"

definition flushA :: "stream_net \<Rightarrow> stream_net" where
  "flushA n = n\<lparr>endA := (endA n)\<lparr>conn_out := []\<rparr>, endB := (endB n)\<lparr>conn_in := conn_in (endB n) @ conn_out (endA n)\<rparr>\<rparr>"

definition flushB :: "stream_net \<Rightarrow> stream_net" where
  "flushB n = n\<lparr>endB := (endB n)\<lparr>conn_out := []\<rparr>, endA := (endA n)\<lparr>conn_in := conn_in (endA n) @ conn_out (endB n)\<rparr>\<rparr>"

text \<open>Room for more records under the current key, and random bytes for one KEM operation.\<close>

definition room :: "nat \<Rightarrow> session \<Rightarrow> bool" where
  "room k s \<longleftrightarrow> sendEpochStartSeq s \<le> sendSeq s \<and> unat (sendSeq s) + k < 2 ^ 64 \<and>
     unat (sendSeq s) + k \<le> unat (sendEpochStartSeq s) + 2 ^ 28"

definition has_room :: "transport \<Rightarrow> bool" where
  "has_room t \<longleftrightarrow> room 2 (t_session t)"

definition has_entropy :: "transport \<Rightarrow> bool" where
  "has_entropy t \<longleftrightarrow> (\<exists>tape rest. t_rand t = tape # rest \<and> 96 \<le> length tape)"

definition unambiguous :: "cipher_lib \<Rightarrow> transport \<Rightarrow> bool" where
  "unambiguous L t \<longleftrightarrow>
     (\<forall>msg rest sq x c q pt pt'. ReadMessage (conn_in t) = (Inr msg, rest) \<longrightarrow>
        DecodeData msg = Inr (sq, x) \<or> DecodeRekey msg = Inr (sq, x) \<longrightarrow>
        recvCipher (t_session t) = Some c \<longrightarrow> pendingRecvCipher (t_session t) = Some q \<longrightarrow>
        OpenWithNonce L c (buildAEADNonce (recvNoncePrefix (t_session t)) sq) x (put_u64 sq) = Inr pt \<longrightarrow>
        OpenWithNonce L q (buildAEADNonce (recvNoncePrefix (t_session t)) sq) x (put_u64 sq) = Inr pt' \<longrightarrow> c = q)"

definition received :: "bytes res option \<Rightarrow> bytes list" where
  "received r = (case r of Some (Inr d) \<Rightarrow> [d] | _ \<Rightarrow> [])"

definition receive_errors :: "bytes res option \<Rightarrow> failure list" where
  "receive_errors r = (case r of Some (Inl e) \<Rightarrow> [e] | _ \<Rightarrow> [])"

definition accepted :: "unit res \<Rightarrow> bytes \<Rightarrow> bytes list" where
  "accepted r d = (case r of Inr _ \<Rightarrow> [d] | Inl _ \<Rightarrow> [])"

inductive net_step :: "hash_lib \<Rightarrow> cipher_lib \<Rightarrow> stream_net \<Rightarrow> stream_net \<Rightarrow> bool" for H L where
  send_A: "transport_Send L now d (endA n) = (r, t) \<Longrightarrow> has_room (endA n) \<Longrightarrow> has_entropy (endA n) \<Longrightarrow>
    net_step H L n (flushA (n\<lparr>endA := t, sentA := sentA n @ accepted r d\<rparr>))"
| send_B: "transport_Send L now d (endB n) = (r, t) \<Longrightarrow> has_room (endB n) \<Longrightarrow>
    net_step H L n (flushB (n\<lparr>endB := t, sentB := sentB n @ accepted r d\<rparr>))"
| rekey_A: "SendRekey L now (endA n) = (r, t) \<Longrightarrow> has_room (endA n) \<Longrightarrow> has_entropy (endA n) \<Longrightarrow>
    net_step H L n (flushA (n\<lparr>endA := t\<rparr>))"
| ping_A: "SendPing (endA n) = (r, t) \<Longrightarrow> net_step H L n (flushA (n\<lparr>endA := t\<rparr>))"
| ping_B: "SendPing (endB n) = (r, t) \<Longrightarrow> net_step H L n (flushB (n\<lparr>endB := t\<rparr>))"
| recv_A: "receive_one H L now (endA n) = (r, t) \<Longrightarrow> conn_in (endA n) \<noteq> [] \<Longrightarrow> unambiguous L (endA n) \<Longrightarrow>
    net_step H L n (flushA (n\<lparr>endA := t, gotA := gotA n @ received r, faults := faults n @ receive_errors r\<rparr>))"
| recv_B: "receive_one H L now (endB n) = (r, t) \<Longrightarrow> conn_in (endB n) \<noteq> [] \<Longrightarrow> unambiguous L (endB n) \<Longrightarrow>
    has_room (endB n) \<Longrightarrow> has_entropy (endB n) \<Longrightarrow>
    net_step H L n (flushB (n\<lparr>endB := t, gotB := gotB n @ received r, faults := faults n @ receive_errors r\<rparr>))"

inductive net_reachable :: "hash_lib \<Rightarrow> cipher_lib \<Rightarrow> stream_net \<Rightarrow> stream_net \<Rightarrow> bool" for H L n0 where
  start: "net_reachable H L n0 n0"
| step: "net_reachable H L n0 n \<Longrightarrow> net_step H L n m \<Longrightarrow> net_reachable H L n0 m"

section \<open>Records in flight\<close>

datatype item = IData u64 aead bytes | IRekey u64 aead bytes u64 | IPing | IPong

definition rekey_payload :: "bytes \<Rightarrow> u64 \<Rightarrow> bytes" where
  "rekey_payload b act = be_bytes 2 (length b) @ b @ put_u64 act"

fun item_cipher :: "item \<Rightarrow> aead option" where
  "item_cipher (IData sq k pt) = Some k"
| "item_cipher (IRekey sq k b act) = Some k"
| "item_cipher _ = None"

fun item_seq :: "item \<Rightarrow> u64 list" where
  "item_seq (IData sq k pt) = [sq]"
| "item_seq (IRekey sq k b act) = [sq]"
| "item_seq _ = []"

fun item_data :: "item \<Rightarrow> bytes list" where
  "item_data (IData sq k pt) = [pt]"
| "item_data _ = []"

fun is_rekey :: "item \<Rightarrow> bool" where
  "is_rekey (IRekey sq k b act) = True"
| "is_rekey _ = False"

fun item_frame :: "cipher_lib \<Rightarrow> bytes \<Rightarrow> item \<Rightarrow> bytes" where
  "item_frame L p (IData sq k pt) =
     header MessageTypeData (8 + length (sealed_record L k p sq pt)) @ put_u64 sq @ sealed_record L k p sq pt"
| "item_frame L p (IRekey sq k b act) =
     header MessageTypeRekey (8 + length (sealed_record L k p sq (rekey_payload b act))) @ put_u64 sq
     @ sealed_record L k p sq (rekey_payload b act)"
| "item_frame L p IPing = encodePing"
| "item_frame L p IPong = encodePong"

fun item_fits :: "item \<Rightarrow> bool" where
  "item_fits (IData sq k pt) \<longleftrightarrow> length pt + 16 \<le> MaxPayloadSize"
| "item_fits (IRekey sq k b act) \<longleftrightarrow> 0 < length b \<and> length b + 26 \<le> MaxPayloadSize"
| "item_fits _ \<longleftrightarrow> True"

definition seqs :: "item list \<Rightarrow> u64 list" where "seqs xs = concat (map item_seq xs)"
definition data_of :: "item list \<Rightarrow> bytes list" where "data_of xs = concat (map item_data xs)"

text \<open>
  A receiver with receive cipher \<open>c\<close> and pending cipher \<open>p\<close> keeps up with the records in flight, and ends
  able to open what the sender seals under \<open>sc\<close>.  A rekey record installs the pending cipher \<open>np\<close>;
  with \<open>np = None\<close> it installs one nobody uses yet, so the rest must be under the same key.
\<close>

fun tracks :: "aead option \<Rightarrow> aead \<Rightarrow> aead option \<Rightarrow> item list \<Rightarrow> aead \<Rightarrow> bool" where
  "tracks np c p [] sc \<longleftrightarrow> sc = c \<or> p = Some sc"
| "tracks np c p (x # xs) sc \<longleftrightarrow>
     (case item_cipher x of
        None \<Rightarrow> tracks np c p xs sc
      | Some k \<Rightarrow> (k = c \<or> p = Some k) \<and>
          (if is_rekey x then
             (case np of
                None \<Rightarrow> (\<forall>y\<in>set xs. item_cipher y \<in> {None, Some k}) \<and> sc = k
              | Some q \<Rightarrow> tracks np k (Some q) xs sc)
           else tracks np k (if k = c then p else None) xs sc))"

lemma tracks_append_data:
  "tracks np c p xs sc \<Longrightarrow> item_cipher x \<in> {None, Some sc} \<Longrightarrow> \<not> is_rekey x \<Longrightarrow> tracks np c p (xs @ [x]) sc"
  by (induction np c p xs sc rule: tracks.induct) (auto split: option.splits if_splits)

lemma tracks_append_request:
  "tracks None c p xs sc \<Longrightarrow> item_cipher x = Some sc \<Longrightarrow> tracks None c p (xs @ [x]) sc"
  by (induction "None :: aead option" c p xs sc rule: tracks.induct) (auto split: option.splits if_splits)

lemma tracks_no_rekey:
  "tracks np c p xs sc \<Longrightarrow> list_all (\<lambda>x. \<not> is_rekey x) xs \<Longrightarrow> tracks np' c p xs sc"
  by (induction np c p xs sc rule: tracks.induct) (auto split: option.splits if_splits)

lemma tracks_append_response:
  "tracks None c p xs sc \<Longrightarrow> list_all (\<lambda>x. \<not> is_rekey x) xs \<Longrightarrow> item_cipher x = Some sc \<Longrightarrow> is_rekey x \<Longrightarrow>
   tracks (Some q) c p (xs @ [x]) q"
  by (induction "None :: aead option" c p xs sc rule: tracks.induct) (auto split: option.splits if_splits)

lemma tracks_flat:
  "list_all (\<lambda>x. item_cipher x \<in> {None, Some c} \<and> \<not> is_rekey x) xs \<Longrightarrow> tracks np c (Some q) xs q"
  by (induction xs) (auto split: option.splits)

lemma tracks_all_same:
  "list_all (\<lambda>x. item_cipher x \<in> {None, Some c} \<and> \<not> is_rekey x) xs \<Longrightarrow> tracks np c p xs c"
  by (induction xs) (auto split: option.splits)

section \<open>One direction of the connection\<close>

text \<open>Sequence numbers in flight increase and are above everything the receiver has accepted.\<close>

definition seqs_ahead :: "replay_window \<Rightarrow> item list \<Rightarrow> u64 \<Rightarrow> bool" where
  "seqs_ahead w xs next \<longleftrightarrow> (\<exists>S. window_rel 1024 w S \<and> sorted_wrt (<) (seqs xs) \<and>
     (\<forall>t\<in>S. \<forall>q\<in>set (seqs xs). t < q) \<and> (\<forall>q\<in>S \<union> set (seqs xs). q < next))"

definition link :: "session \<Rightarrow> session \<Rightarrow> item list \<Rightarrow> aead option \<Rightarrow> bool" where
  "link s r xs np \<longleftrightarrow> (\<exists>c sc. recvCipher r = Some c \<and> sendCipher s = Some sc \<and>
     tracks np c (pendingRecvCipher r) xs sc \<and> recvNoncePrefix r = sendNoncePrefix s \<and>
     seqs_ahead (replayWindow r) xs (sendSeq s) \<and> list_all item_fits xs)"

definition core :: "session \<Rightarrow> role \<times> session_state \<times> cipher_suite \<times> kem_suite \<times> bytes option \<times> bool \<times> key_pair option" where
  "core s = (sess_Role s, sess_state s, sess_CipherSuite s, kemSuite s, masterSecret s, rekeyInProgress s, pendingRekeyKeyPair s)"

definition send_side :: "session \<Rightarrow> aead option \<times> u64 \<times> u64 \<times> bytes" where
  "send_side s = (sendCipher s, sendSeq s, sendEpochStartSeq s, sendNoncePrefix s)"

definition recv_side :: "session \<Rightarrow> aead option \<times> aead option \<times> replay_window \<times> bytes" where
  "recv_side s = (recvCipher s, pendingRecvCipher s, replayWindow s, recvNoncePrefix s)"

lemmas sides = core_def send_side_def recv_side_def

lemma seqs_simps [simp]: "seqs [] = []" "seqs (x # xs) = item_seq x @ seqs xs" "seqs (xs @ ys) = seqs xs @ seqs ys"
  by (simp_all add: seqs_def)

lemma seqs_ahead_send:
  assumes "seqs_ahead w xs n" "n \<le> n'" "item_seq x = [] \<or> item_seq x = [q] \<and> n \<le> q \<and> q < n'"
  shows "seqs_ahead w (xs @ [x]) n'"
proof -
  obtain S where S: "window_rel 1024 w S" "sorted_wrt (<) (seqs xs)" "\<forall>t\<in>S. \<forall>q\<in>set (seqs xs). t < q"
      "\<forall>t\<in>S \<union> set (seqs xs). t < n"
    using assms(1) by (auto simp: seqs_ahead_def)
  have "\<forall>t\<in>S \<union> set (seqs xs). t < n' \<and> (n \<le> q \<longrightarrow> t < q)"
    using S(4) assms(2) by (meson less_le_trans)
  then show ?thesis
    using S(1-3) assms(3) unfolding seqs_ahead_def by (intro exI [of _ S]) (auto simp: sorted_wrt_append)
qed

lemma seqs_ahead_more: "seqs_ahead w xs n \<Longrightarrow> n \<le> n' \<Longrightarrow> seqs_ahead w xs n'"
  unfolding seqs_ahead_def by (meson less_le_trans)

lemma seqs_ahead_accept:
  assumes "seqs_ahead w (x # xs) n" "item_seq x = [q]"
  shows "fst (Check w q)" "seqs_ahead (snd (Check w q)) xs n"
proof -
  obtain S where s: "window_rel 1024 w S" "sorted_wrt (<) (q # seqs xs)" "\<forall>t\<in>S. \<forall>q'\<in>set (q # seqs xs). t < q'"
      "\<forall>q'\<in>S \<union> set (q # seqs xs). q' < n"
    using assms by (auto simp: seqs_ahead_def)
  have f: "fresh 1024 S q"
    using s(3) by (auto simp: fresh_def word_less_nat_alt intro: trans_less_add1)
  show "fst (Check w q)"
    using window.check_decides [OF s(1)] f by simp
  have "window_rel 1024 (snd (Check w q)) (insert q S)"
    using check_rel_window [OF s(1), of q] f by simp
  then show "seqs_ahead (snd (Check w q)) xs n"
    using s unfolding seqs_ahead_def by (intro exI [of _ "insert q S"]) auto
qed

lemma seqs_ahead_control: "seqs_ahead w (x # xs) n \<Longrightarrow> item_seq x = [] \<Longrightarrow> seqs_ahead w xs n"
  by (auto simp: seqs_ahead_def)

lemma link_send:
  assumes "link s r xs np" "sendNoncePrefix s' = sendNoncePrefix s" "sendSeq s \<le> sendSeq s'" "item_fits x"
    "item_seq x = [] \<or> item_seq x = [sendSeq s] \<and> sendSeq s < sendSeq s'" "sendCipher s' = Some sc'"
    "\<And>c sc. sendCipher s = Some sc \<Longrightarrow> tracks np c (pendingRecvCipher r) xs sc \<Longrightarrow> tracks np' c (pendingRecvCipher r) (xs @ [x]) sc'"
  shows "link s' r (xs @ [x]) np'"
proof -
  obtain c sc where l: "recvCipher r = Some c" "sendCipher s = Some sc" "tracks np c (pendingRecvCipher r) xs sc"
      "recvNoncePrefix r = sendNoncePrefix s" "seqs_ahead (replayWindow r) xs (sendSeq s)" "list_all item_fits xs"
    using assms(1) by (auto simp: link_def)
  have "seqs_ahead (replayWindow r) (xs @ [x]) (sendSeq s')"
    using seqs_ahead_send [OF l(5) assms(3), of x "sendSeq s"] assms(5) by auto
  then show ?thesis
    using l assms(2,4,6,7) unfolding link_def by auto
qed

lemma link_cong:
  "link s r xs np \<Longrightarrow> send_side s' = send_side s \<Longrightarrow> recv_side r' = recv_side r \<Longrightarrow> link s' r' xs np"
  by (simp add: link_def sides)

lemma link_skip:
  "link s r xs np \<Longrightarrow> sendNoncePrefix s' = sendNoncePrefix s \<Longrightarrow> sendSeq s \<le> sendSeq s' \<Longrightarrow> sendCipher s' = sendCipher s \<Longrightarrow>
   recv_side r' = recv_side r \<Longrightarrow> link s' r' xs np"
  unfolding link_def sides by (metis Pair_inject seqs_ahead_more)

lemma decrypted_sides:
  "core (decrypted now pt sq r) = core r" "send_side (decrypted now pt sq r) = send_side r"
  "recv_side (decrypted now pt sq r) = (recvCipher r, pendingRecvCipher r, snd (Check (replayWindow r) sq), recvNoncePrefix r)"
  by (simp_all add: sides decrypted_def)

lemma promote_sides:
  "core (promotePendingRecvCipher r) = core r" "send_side (promotePendingRecvCipher r) = send_side r"
  "pendingRecvCipher r = Some q \<Longrightarrow> recv_side (promotePendingRecvCipher r) = (Some q, None, replayWindow r, recvNoncePrefix r)"
  by (simp_all add: sides promotePendingRecvCipher_def)

text \<open>The next record in flight opens, and the receiver is left tracking the rest.\<close>

lemma link_receive:
  assumes "cipher_lib_ok L" "link s r (x # xs) np" "item_cipher x = Some k" "item_seq x = [sq]"
    "ct = sealed_record L k (sendNoncePrefix s) sq pt"
    "\<And>c t. recvCipher r = Some c \<Longrightarrow> pendingRecvCipher r = Some k \<Longrightarrow> ct = sealed_record L c (recvNoncePrefix r) sq t \<Longrightarrow> c = k"
  shows "\<exists>r'. Decrypt L now ct sq r = (Inr pt, r') \<and> core r' = core r \<and> send_side r' = send_side r \<and>
    recvCipher r' = Some k \<and> pendingRecvCipher r' = (if recvCipher r = Some k then pendingRecvCipher r else None) \<and>
    recvNoncePrefix r' = sendNoncePrefix s \<and> seqs_ahead (replayWindow r') xs (sendSeq s)"
proof -
  obtain c where l: "recvCipher r = Some c" "recvNoncePrefix r = sendNoncePrefix s" "k = c \<or> pendingRecvCipher r = Some k"
      "seqs_ahead (replayWindow r) (x # xs) (sendSeq s)"
    using assms(2,3) by (auto simp: link_def)
  note w = seqs_ahead_accept [OF l(4) assms(4)]
  show ?thesis
  proof (cases "k = c")
    case True
    then have "Decrypt L now ct sq r = (Inr pt, decrypted now pt sq r)"
      using Decrypt_current [OF assms(1) l(1) w(1), of ct pt now] assms(5) l(2) by simp
    then show ?thesis
      using True l(1,2) w(2) decrypted_sides [of now pt sq r] by (simp add: recv_side_def)
  next
    case False
    then have q: "pendingRecvCipher r = Some k" "\<And>t. ct \<noteq> sealed_record L c (recvNoncePrefix r) sq t"
      using l assms(6) by blast+
    then have "Decrypt L now ct sq r = (Inr pt, promotePendingRecvCipher (decrypted now pt sq r))"
      using Decrypt_pending [OF assms(1) l(1) q(1) w(1)] assms(5) l(2) by simp
    moreover have "pendingRecvCipher (decrypted now pt sq r) = Some k"
      using q(1) by (simp add: decrypted_def)
    note p = promote_sides(1,2) [of "decrypted now pt sq r"] promote_sides(3) [OF this]
    ultimately show ?thesis
      using False l(1,2) w(2) p decrypted_sides [of now pt sq r]
      by (intro exI [of _ "promotePendingRecvCipher (decrypted now pt sq r)"]) (simp add: recv_side_def)
  qed
qed

lemma link_received_data:
  assumes "link s r (x # xs) np" "item_cipher x = Some k" "\<not> is_rekey x" "recvCipher r' = Some k"
    "pendingRecvCipher r' = (if recvCipher r = Some k then pendingRecvCipher r else None)"
    "recvNoncePrefix r' = sendNoncePrefix s" "seqs_ahead (replayWindow r') xs (sendSeq s)"
  shows "link s r' xs np"
  using assms unfolding link_def by (auto split: if_splits)

lemma link_received_control:
  "link s r (x # xs) np \<Longrightarrow> item_cipher x = None \<Longrightarrow> item_seq x = [] \<Longrightarrow> link s r xs np"
  by (auto simp: link_def dest: seqs_ahead_control)

section \<open>Transport operations on an open connection\<close>

fun item_type :: "item \<Rightarrow> byte" where
  "item_type (IData sq k pt) = MessageTypeData"
| "item_type (IRekey sq k b act) = MessageTypeRekey"
| "item_type IPing = MessageTypePing"
| "item_type IPong = MessageTypePong"

lemma item_frame_header:
  assumes "cipher_lib_ok L" "item_fits x"
  shows "\<exists>body. item_frame L p x = header (item_type x) (length body) @ body \<and> length body \<le> 65536"
proof (cases x)
  case (IRekey sq k b act)
  then show ?thesis
    using assms by (intro exI [of _ "put_u64 sq @ sealed_record L k p sq (rekey_payload b act)"])
      (simp add: length_sealed_record rekey_payload_def MaxPayloadSize_def)
next
  case (IData sq k pt)
  then show ?thesis
    using assms by (intro exI [of _ "put_u64 sq @ sealed_record L k p sq pt"])
      (simp add: length_sealed_record MaxPayloadSize_def)
qed (auto simp: encodePing_def encodePong_def header_def put_u32_def intro: exI [of _ "[]"])

lemma item_frame_wf:
  assumes "cipher_lib_ok L" "item_fits x"
  shows "wf_frame (item_frame L p x)" "u8_at (item_frame L p x) 0 = Inr (item_type x)"
proof -
  obtain body where b: "item_frame L p x = header (item_type x) (length body) @ body" "length body \<le> 65536"
    using item_frame_header [OF assms] by blast
  then show "wf_frame (item_frame L p x)"
    using wf_frame_header [of "length body" body] by (simp add: MaxMessageSize_def)
  show "u8_at (item_frame L p x) 0 = Inr (item_type x)"
    by (simp add: b(1) header_def u8_at_def)
qed

lemma readMessage_item:
  assumes "cipher_lib_ok L" "item_fits x" "conn_in t = item_frame L p x @ rest"
  shows "ReadMessage (conn_in t) = (Inr (item_frame L p x), rest)"
    "\<exists>buf. readMessage t = (Inr (item_frame L p x, item_type x), t\<lparr>conn_in := rest, readBuf := buf\<rparr>)"
proof -
  note wf = item_frame_wf [OF assms(1,2), of p]
  show r: "ReadMessage (conn_in t) = (Inr (item_frame L p x), rest)"
    using ReadMessage_frame [OF wf(1)] assms(3) by simp
  obtain buf where i: "ReadMessageInto (conn_in t) (readBuf t) = (Inr (item_frame L p x), rest, buf)"
    using ReadMessageInto_eq [of "conn_in t" "readBuf t"] r by (metis fst_conv prod.collapse snd_conv)
  have "item_frame L p x \<noteq> []"
    using wf(1) by (auto simp: wf_frame_def HeaderSize_def)
  then show "\<exists>buf. readMessage t = (Inr (item_frame L p x, item_type x), t\<lparr>conn_in := rest, readBuf := buf\<rparr>)"
    using i wf(2) by (auto simp: readMessage_def GetMessageType_def)
qed

definition sent :: "int \<Rightarrow> bytes \<Rightarrow> session \<Rightarrow> session" where
  "sent now pt s = s\<lparr>sendSeq := sendSeq s + 1, BytesSent := BytesSent s + word_of_nat (length pt),
     PacketsSent := PacketsSent s + 1, LastActivity := now\<rparr>"

lemma sent_sides:
  "core (sent now pt s) = core s" "recv_side (sent now pt s) = recv_side s"
  "send_side (sent now pt s) = (sendCipher s, sendSeq s + 1, sendEpochStartSeq s, sendNoncePrefix s)"
  "pendingSendCipher (sent now pt s) = pendingSendCipher s" "pendingRekeySecret (sent now pt s) = pendingRekeySecret s"
  by (simp_all add: sides sent_def)

lemma room_send:
  assumes "room (Suc k) s" "sendSeq s' = sendSeq s + 1" "sendEpochStartSeq s' = sendEpochStartSeq s"
  shows "key_budget (sendSeq s) s" "sendSeq s < sendSeq s'" "room k s'"
proof -
  have u: "unat (sendSeq s + 1) = unat (sendSeq s) + 1"
    using assms(1) unat_add_lem [of "sendSeq s" 1] by (simp add: room_def)
  show "key_budget (sendSeq s) s"
    using assms(1) unat_sub_le [of "sendEpochStartSeq s" "sendSeq s"]
    by (auto simp: room_def key_budget_def word_less_nat_alt)
  show "sendSeq s < sendSeq s'"
    using u assms(2) by (simp add: word_less_nat_alt)
  show "room k s'"
    using assms u by (simp add: room_def word_le_nat_alt)
qed

lemma Encrypt_room:
  assumes "sendCipher s = Some c" "room (Suc k) s"
  shows "Encrypt L now pt s = (Inr (sealed_record L c (sendNoncePrefix s) (sendSeq s) pt, sendSeq s), sent now pt s)"
  using assms room_send(1) [OF assms(2), of "sent now pt s"] by (simp add: Encrypt_cases sent_def)

lemma sealAndWrite_open:
  assumes "cipher_lib_ok L" "sendCipher (t_session t) = Some c" "room (Suc k) (t_session t)" "conn_down t = None"
  shows "sealAndWrite L now d t =
    (let s = t_session t; x = IData (sendSeq s) c d; t' = t\<lparr>t_session := sent now d s\<rparr> in
     if item_fits x then (Inr (), t'\<lparr>conn_out := conn_out t @ item_frame L (sendNoncePrefix s) x\<rparr>)
     else (Inl (Err ErrMessageTooLarge), t'))"
  using assms(4)
  by (simp add: sealAndWrite_def on_session_def Encrypt_room [OF assms(2,3)] EncodeData_def guardR_def Let_def
      writeLocked_def length_sealed_record [OF assms(1)])

lemma sendRekeyRecord_open:
  assumes "cipher_lib_ok L" "sendCipher (t_session t) = Some c" "room (Suc k) (t_session t)" "conn_down t = None"
    "item_fits (IRekey sq c b act)" "sq = sendSeq (t_session t)"
  shows "sendRekeyRecord L now b act t =
    (Inr (), t\<lparr>t_session := sent now (rekey_payload b act) (t_session t),
       conn_out := conn_out t @ item_frame L (sendNoncePrefix (t_session t)) (IRekey sq c b act)\<rparr>)"
  using assms(4,5,6)
  by (simp add: sendRekeyRecord_def on_session_def Encrypt_room [OF assms(2,3)] EncodeRekey_def EncodeRekeyPayload_def
      guardR_def rekey_payload_def writeLocked_def writeFrame_def MaxPayloadSize_def MaxMessageSize_def)

definition requested :: "key_pair \<Rightarrow> session \<Rightarrow> session" where
  "requested kp s = s\<lparr>rekeyInProgress := True, pendingRekeyKeyPair := Some kp, rekeyActivationSeq := sendSeq s + 16,
     sess_state := SessionStateRekeying\<rparr>"

lemma requested_sides:
  "send_side (requested kp s) = send_side s" "recv_side (requested kp s) = recv_side s" "room k (requested kp s) = room k s"
  "core (requested kp s) = (sess_Role s, SessionStateRekeying, sess_CipherSuite s, kemSuite s, masterSecret s, True, Some kp)"
  by (simp_all add: sides requested_def room_def)

definition suite_fits :: "kem_suite \<Rightarrow> bool" where
  "suite_fits S \<longleftrightarrow> kem_correct S \<and> 0 < PublicKeySize S \<and> PublicKeySize S + 26 \<le> MaxPayloadSize \<and>
     0 < CiphertextSize S \<and> CiphertextSize S + 26 \<le> MaxPayloadSize"

lemma SendRekey_open:
  assumes "cipher_lib_ok L" "suite_fits (kemSuite s)" "sendCipher s = Some c" "room (Suc k) s" "s = t_session t"
    "conn_down t = None" "\<not> t_closed t" "has_entropy t" "\<not> rekeyInProgress s" "sess_state s = SessionStateEstablished"
  shows "\<exists>kp b act rand. kem_serves (kemSuite s) kp \<and> PublicKey_Bytes (PublicKey kp) = Inr b \<and> item_fits (IRekey (sendSeq s) c b act) \<and>
    SendRekey L now t = (Inr (), t\<lparr>t_rand := rand, t_session := sent now (rekey_payload b act) (requested kp s),
      conn_out := conn_out t @ item_frame L (sendNoncePrefix s) (IRekey (sendSeq s) c b act)\<rparr>)"
proof -
  obtain tape rest where tape: "t_rand t = tape # rest" "96 \<le> length tape"
    using assms(8) by (auto simp: has_entropy_def)
  have kc: "kem_correct (kemSuite s)"
    using assms(2) by (simp add: suite_fits_def)
  obtain kp b where i: "kem_serves (kemSuite s) kp" "PublicKey_Bytes (PublicKey kp) = Inr b" "length b = PublicKeySize (kemSuite s)"
      "InitiateRekey tape s = (Inr (b, sendSeq s + 16), requested kp s)"
    using InitiateRekey_ok [OF kc assms(10,9) tape(2)] unfolding requested_def by blast
  have fit: "item_fits (IRekey (sendSeq s) c b (sendSeq s + 16))"
    using assms(2) i(3) by (simp add: suite_fits_def)
  define t1 where "t1 = t\<lparr>t_rand := rest, t_session := requested kp s\<rparr>"
  have t1: "t_session t1 = requested kp s" "conn_down t1 = None" "conn_out t1 = conn_out t"
    using assms(6) by (simp_all add: t1_def)
  have r: "sendCipher (requested kp s) = Some c" "sendSeq (requested kp s) = sendSeq s" "sendNoncePrefix (requested kp s) = sendNoncePrefix s"
    using assms(3) by (simp_all add: requested_def)
  have "SendRekey L now t = sendRekeyRecord L now b (sendSeq s + 16) t1"
    unfolding t1_def using assms(7) tape(1) i(4) [unfolded assms(5)] by (simp add: SendRekey_def nextTape_def on_session_def assms(5))
  also have "\<dots> = (Inr (), t1\<lparr>t_session := sent now (rekey_payload b (sendSeq s + 16)) (requested kp s),
      conn_out := conn_out t @ item_frame L (sendNoncePrefix s) (IRekey (sendSeq s) c b (sendSeq s + 16))\<rparr>)"
    using sendRekeyRecord_open [of L t1 c k "sendSeq s" b "sendSeq s + 16" now, OF assms(1) _ _ _ fit, unfolded t1 r requested_sides(3)]
      assms(4) by blast
  finally show ?thesis
    by (intro exI [of _ kp] exI [of _ b] exI [of _ "sendSeq s + 16"] exI [of _ rest] conjI i fit) (simp add: t1_def)
qed

section \<open>Receiving one item\<close>

lemmas message_types = MessageTypeData_def MessageTypePing_def MessageTypePong_def MessageTypeRekey_def
  MessageTypeClose_def MessageTypeAlert_def

lemma receive_data:
  assumes "cipher_lib_ok L" "item_fits (IData sq k pt)" "\<not> t_closed t" "conn_in t = item_frame L p (IData sq k pt) @ rest"
    "Decrypt L now (sealed_record L k p sq pt) sq (t_session t) = (Inr pt, s')"
  shows "\<exists>buf. receive_one H L now t = (Some (Inr pt), t\<lparr>conn_in := rest, readBuf := buf, t_session := s'\<rparr>)"
proof -
  obtain buf where r: "readMessage t = (Inr (item_frame L p (IData sq k pt), MessageTypeData), t\<lparr>conn_in := rest, readBuf := buf\<rparr>)"
    using readMessage_item(2) [OF assms(1,2,4)] by auto
  have "DecodeData (item_frame L p (IData sq k pt)) = Inr (sq, sealed_record L k p sq pt)"
    unfolding DecodeData_def by (rule decode_record_put) simp
  then have "receive_one H L now t = (Some (Inr pt), t\<lparr>conn_in := rest, readBuf := buf, t_session := s'\<rparr>)"
    using r assms(3,5) by (simp add: receive_one_def checkClosed_def handleData_def on_session_def del: item_frame.simps)
  then show ?thesis ..
qed

lemma receive_control:
  assumes "cipher_lib_ok L" "x = IPing \<or> x = IPong" "\<not> t_closed t" "conn_down t = None" "conn_in t = item_frame L p x @ rest"
  shows "\<exists>buf. receive_one H L now t = (None, t\<lparr>conn_in := rest, readBuf := buf,
    conn_out := conn_out t @ (if x = IPing then item_frame L q IPong else [])\<rparr>)"
proof -
  have "item_fits x"
    using assms(2) by auto
  then obtain buf where "readMessage t = (Inr (item_frame L p x, item_type x), t\<lparr>conn_in := rest, readBuf := buf\<rparr>)"
    using readMessage_item(2) [OF assms(1) _ assms(5)] by blast
  then show ?thesis
    using assms(2,3,4)
    by (auto simp: receive_one_def checkClosed_def sendPong_def writeFrame_def writeLocked_def message_types)
qed

lemma DecodeRekeyPayload_put:
  assumes "0 < length b" "length b < 65536"
  shows "DecodeRekeyPayload (rekey_payload b act) = Inr (b, act)"
proof -
  have n: "be_at 2 (rekey_payload b act) 0 = Inr (length b)"
    using assms(2) by (simp add: be_at_def rekey_payload_def be_nat_be_bytes)
  have "drop (2 + length b) (rekey_payload b act) = put_u64 act @ []"
    by (simp add: rekey_payload_def)
  from read_at(3) [OF this] show ?thesis
    using n by (simp add: DecodeRekeyPayload_def slice_at_def rekey_payload_def)
qed

text \<open>A rekey record reaches the session with its payload: the responder answers it, the initiator takes it as
  the answer.\<close>

definition answer_request :: "hash_lib \<Rightarrow> cipher_lib \<Rightarrow> int \<Rightarrow> bytes \<Rightarrow> u64 \<Rightarrow> transport \<Rightarrow> unit res \<times> transport" where
  "answer_request H L now b act t =
     (case nextTape t of (tape, t) \<Rightarrow>
      bindS (on_session (PrepareRekeyResponse H L tape b act) t) (\<lambda>responseCT t.
      bindS (sendRekeyResponse L now responseCT act t) (\<lambda>_ t.
      (Inr (), t\<lparr>t_session := ActivateRekeySend now (t_session t)\<rparr>))))"

definition take_rekey :: "hash_lib \<Rightarrow> cipher_lib \<Rightarrow> int \<Rightarrow> bytes \<Rightarrow> u64 \<Rightarrow> transport \<Rightarrow> unit res \<times> transport" where
  "take_rekey H L now b act t =
     (if sess_Role (t_session t) = RoleResponder \<and> \<not> rekeyInProgress (t_session t) then answer_request H L now b act t
      else if sess_Role (t_session t) = RoleInitiator \<and> rekeyInProgress (t_session t) then on_session (ProcessRekeyResponse H L now b) t
      else (Inr (), t))"

lemma receive_rekey:
  assumes "cipher_lib_ok L" "item_fits (IRekey sq k b act)" "\<not> t_closed t"
    "conn_in t = item_frame L p (IRekey sq k b act) @ rest"
    "Decrypt L now (sealed_record L k p sq (rekey_payload b act)) sq (t_session t) = (Inr (rekey_payload b act), s1)"
  obtains buf where "receive_one H L now t =
    (case take_rekey H L now b act (t\<lparr>conn_in := rest, readBuf := buf, t_session := s1\<rparr>)
     of (Inl e, t) \<Rightarrow> (Some (Inl e), t) | (Inr _, t) \<Rightarrow> (None, t))"
proof -
  obtain buf where r: "readMessage t = (Inr (item_frame L p (IRekey sq k b act), MessageTypeRekey), t\<lparr>conn_in := rest, readBuf := buf\<rparr>)"
    using readMessage_item(2) [OF assms(1,2,4)] by auto
  have d: "DecodeRekey (item_frame L p (IRekey sq k b act)) = Inr (sq, sealed_record L k p sq (rekey_payload b act))"
    unfolding DecodeRekey_def by (rule decode_record_put) simp
  have y: "DecodeRekeyPayload (rekey_payload b act) = Inr (b, act)"
    using assms(2) by (intro DecodeRekeyPayload_put) (auto simp: MaxPayloadSize_def)
  have "MessageTypeRekey \<notin> {MessageTypeData, MessageTypePing, MessageTypePong, MessageTypeClose}"
    by (simp add: message_types)
  then show ?thesis
    using that [of buf] r d y assms(3,5)
    by (simp add: receive_one_def checkClosed_def handleRekey_def take_rekey_def answer_request_def on_session_def IsRekeyInProgress_def del: item_frame.simps)
qed

definition prepared :: "u64 \<Rightarrow> aead \<Rightarrow> aead \<Rightarrow> bytes \<Rightarrow> session \<Rightarrow> session" where
  "prepared act rc sc ms s = s\<lparr>rekeyInProgress := True, rekeyActivationSeq := act, pendingRecvCipher := Some rc,
     pendingSendCipher := Some sc, pendingRekeySecret := Some ms, sess_state := SessionStateRekeying\<rparr>"

lemma prepared_sides:
  "send_side (prepared act rc sc ms s) = send_side s" "room k (prepared act rc sc ms s) = room k s"
  "recv_side (prepared act rc sc ms s) = (recvCipher s, Some rc, replayWindow s, recvNoncePrefix s)"
  "pendingSendCipher (prepared act rc sc ms s) = Some sc" "pendingRekeySecret (prepared act rc sc ms s) = Some ms"
  "core (prepared act rc sc ms s) = (sess_Role s, SessionStateRekeying, sess_CipherSuite s, kemSuite s, masterSecret s, True, pendingRekeyKeyPair s)"
  by (simp_all add: sides prepared_def room_def)

lemma ActivateRekeySend_sides:
  assumes "pendingSendCipher s = Some c" "pendingRekeySecret s = Some ms"
  shows "core (ActivateRekeySend now s) = (sess_Role s, SessionStateEstablished, sess_CipherSuite s, kemSuite s, Some ms, False, pendingRekeyKeyPair s)"
    "send_side (ActivateRekeySend now s) = (Some c, sendSeq s, sendSeq s, sendNoncePrefix s)"
    "recv_side (ActivateRekeySend now s) = recv_side s"
  using assms by (simp_all add: ActivateRekeySend_ok sides)

lemma respond_open:
  assumes "hash_lib_ok H" "cipher_lib_ok L" "suite_fits S" "kem_serves S kp" "PublicKey_Bytes (PublicKey kp) = Inr b"
    and s: "s = t_session t" "kemSuite s = S" "masterSecret s = Some ms" "length ms = 32" "suite_usable L (sess_CipherSuite s)"
      "sess_state s = SessionStateEstablished" "sendCipher s = Some sc" "room (Suc k) s"
    and t: "conn_down t = None" "has_entropy t"
  shows "\<exists>ct ms' ki kr rand s'. rekey_answer H S kp ms ct ms' \<and> length ms' = 32 \<and> DeriveTrafficKeys H ms' = Inr (ki, kr) \<and>
    length ki = 32 \<and> length kr = 32 \<and> item_fits (IRekey (sendSeq s) sc ct act) \<and>
    core s' = (sess_Role s, SessionStateEstablished, sess_CipherSuite s, S, Some ms', False, pendingRekeyKeyPair s) \<and>
    send_side s' = (Some (fresh_aead (sess_CipherSuite s) kr), sendSeq s + 1, sendSeq s + 1, sendNoncePrefix s) \<and>
    recv_side s' = (recvCipher s, Some (fresh_aead (sess_CipherSuite s) ki), replayWindow s, recvNoncePrefix s) \<and>
    answer_request H L now b act t =
    (Inr (), t\<lparr>t_rand := rand, t_session := s',
      conn_out := conn_out t @ item_frame L (sendNoncePrefix s) (IRekey (sendSeq s) sc ct act)\<rparr>)"
proof -
  obtain tape rest where tape: "t_rand t = tape # rest" "64 \<le> length tape"
    using t(2) by (auto simp: has_entropy_def)
  have st: "sess_state s = SessionStateEstablished \<or> sess_state s = SessionStateRekeying"
    using s(6) by simp
  obtain ct ms' ki kr where p: "rekey_answer H S kp ms ct ms'" "length ct = CiphertextSize S" "length ms' = 32"
      "DeriveTrafficKeys H ms' = Inr (ki, kr)" "length ki = 32" "length kr = 32"
      "PrepareRekeyResponse H L tape b act s = (Inr ct, prepared act (fresh_aead (sess_CipherSuite s) ki) (fresh_aead (sess_CipherSuite s) kr) ms' s)"
    using PrepareRekeyResponse_ok [OF assms(1,4,5) tape(2) s(2-5) st, where act = act] unfolding prepared_def by blast
  define s1 where "s1 = prepared act (fresh_aead (sess_CipherSuite s) ki) (fresh_aead (sess_CipherSuite s) kr) ms' s"
  define s2 where "s2 = sent now (rekey_payload ct act) s1"
  define t1 where "t1 = t\<lparr>t_rand := rest, t_session := s1\<rparr>"
  note f = prepared_sides [where act = act and rc = "fresh_aead (sess_CipherSuite s) ki" and sc = "fresh_aead (sess_CipherSuite s) kr"
      and ms = ms' and s = s, folded s1_def]
  note g = sent_sides [of now "rekey_payload ct act" s1, folded s2_def]
  have pend: "pendingSendCipher s2 = Some (fresh_aead (sess_CipherSuite s) kr)" "pendingRekeySecret s2 = Some ms'"
    using f(4,5) g(4,5) by simp_all
  note h = ActivateRekeySend_sides [OF pend, of now]
  have fit: "item_fits (IRekey (sendSeq s) sc ct act)"
    using assms(3) p(2) by (simp add: suite_fits_def)
  have t1: "t_session t1 = s1" "conn_down t1 = None" "conn_out t1 = conn_out t" "sendCipher s1 = Some sc"
      "sendSeq s1 = sendSeq s" "sendNoncePrefix s1 = sendNoncePrefix s"
    using t(1) f(1) s(7) by (simp_all add: t1_def send_side_def)
  have r: "sendRekeyResponse L now ct act t1 = (Inr (), t1\<lparr>t_session := s2,
      conn_out := conn_out t @ item_frame L (sendNoncePrefix s) (IRekey (sendSeq s) sc ct act)\<rparr>)"
    unfolding sendRekeyResponse_def s2_def
    using sendRekeyRecord_open [of L t1 sc k "sendSeq s" ct act now, OF assms(2) _ _ _ fit, unfolded t1 f(2)] s(8) by blast
  have "on_session (PrepareRekeyResponse H L tape b act) (t\<lparr>t_rand := rest\<rparr>) = (Inr ct, t1)"
    using p(7) by (simp add: on_session_def s(1) t1_def s1_def)
  then have "answer_request H L now b act t =
    (Inr (), t\<lparr>t_rand := rest, t_session := ActivateRekeySend now s2,
      conn_out := conn_out t @ item_frame L (sendNoncePrefix s) (IRekey (sendSeq s) sc ct act)\<rparr>)"
    using tape(1) r by (simp add: answer_request_def nextTape_def t1_def del: item_frame.simps)
  moreover have "core (ActivateRekeySend now s2) = (sess_Role s, SessionStateEstablished, sess_CipherSuite s, S, Some ms', False, pendingRekeyKeyPair s)"
      "send_side (ActivateRekeySend now s2) = (Some (fresh_aead (sess_CipherSuite s) kr), sendSeq s + 1, sendSeq s + 1, sendNoncePrefix s)"
      "recv_side (ActivateRekeySend now s2) = (recvCipher s, Some (fresh_aead (sess_CipherSuite s) ki), replayWindow s, recvNoncePrefix s)"
    using f(1,3,6) g(1-3) h s(2) by (auto simp: sides)
  ultimately show ?thesis
    using p(1,3-6) fit by blast
qed

lemma complete_open:
  assumes "rekeyInProgress s" "pendingRekeyKeyPair s = Some kp" "rekey_answer H (kemSuite s) kp ms ct ms'"
    "masterSecret s = Some ms" "DeriveTrafficKeys H ms' = Inr (ki, kr)" "length ki = 32" "length kr = 32"
    "suite_usable L (sess_CipherSuite s)" "s = t_session t"
  shows "\<exists>s'. on_session (ProcessRekeyResponse H L now ct) t = (Inr (), t\<lparr>t_session := s'\<rparr>) \<and>
    core s' = (sess_Role s, SessionStateEstablished, sess_CipherSuite s, kemSuite s, Some ms', False, None) \<and>
    send_side s' = (Some (fresh_aead (sess_CipherSuite s) ki), sendSeq s, sendSeq s, sendNoncePrefix s) \<and>
    recv_side s' = (recvCipher s, Some (fresh_aead (sess_CipherSuite s) kr), replayWindow s, recvNoncePrefix s)"
  using ProcessRekeyResponse_ok [OF assms(1-8), of now] assms(9)
  by (auto simp: on_session_def sides)

end
