(* ===== verification/Stream_Delivery.thy ===== *)
theory Stream_Delivery
  imports Stream_Net
begin

text \<open>
  The invariant of two connected transports and the proof that it holds in every reachable state.  The
  rekey protocol has three phases: idle, request in flight or unanswered, response in flight.  Records
  of both directions flow in every phase, under the keys \<open>tracks\<close> predicts.
\<close>

section \<open>Invariant\<close>

definition rekeys :: "item list \<Rightarrow> item list" where "rekeys xs = filter is_rekey xs"

definition under :: "aead \<Rightarrow> item list \<Rightarrow> bool" where
  "under c xs \<longleftrightarrow> list_all (\<lambda>x. item_cipher x \<in> {None, Some c}) xs"

definition paired :: "cipher_lib \<Rightarrow> session \<Rightarrow> session \<Rightarrow> bool" where
  "paired L a b \<longleftrightarrow> sess_Role a = RoleInitiator \<and> sess_Role b = RoleResponder \<and>
     sess_state b = SessionStateEstablished \<and> \<not> rekeyInProgress b \<and>
     kemSuite b = kemSuite a \<and> suite_fits (kemSuite a) \<and>
     sess_CipherSuite b = sess_CipherSuite a \<and> suite_usable L (sess_CipherSuite a) \<and>
     (\<exists>ms. masterSecret b = Some ms \<and> length ms = 32)"

definition idle :: "session \<Rightarrow> session \<Rightarrow> item list \<Rightarrow> item list \<Rightarrow> bool" where
  "idle a b AB BA \<longleftrightarrow> \<not> rekeyInProgress a \<and> sess_state a = SessionStateEstablished \<and>
     masterSecret a = masterSecret b \<and> rekeys AB = [] \<and> rekeys BA = []"

definition asked :: "session \<Rightarrow> session \<Rightarrow> item list \<Rightarrow> item list \<Rightarrow> bool" where
  "asked a b AB BA \<longleftrightarrow> rekeyInProgress a \<and> masterSecret a = masterSecret b \<and> rekeys BA = [] \<and>
     (\<exists>kp sq k pk act. pendingRekeyKeyPair a = Some kp \<and> kem_serves (kemSuite a) kp \<and>
        PublicKey_Bytes (PublicKey kp) = Inr pk \<and> rekeys AB = [IRekey sq k pk act])"

definition answered :: "hash_lib \<Rightarrow> session \<Rightarrow> session \<Rightarrow> item list \<Rightarrow> item list \<Rightarrow> aead \<Rightarrow> bool" where
  "answered H a b AB BA q \<longleftrightarrow> rekeyInProgress a \<and> rekeys AB = [] \<and>
     (\<exists>c. sendCipher a = Some c \<and> recvCipher b = Some c \<and> under c AB) \<and>
     (\<exists>kp ms ms' ct ki kr sq k act. pendingRekeyKeyPair a = Some kp \<and> masterSecret a = Some ms \<and>
        masterSecret b = Some ms' \<and> rekey_answer H (kemSuite a) kp ms ct ms' \<and> rekeys BA = [IRekey sq k ct act] \<and>
        DeriveTrafficKeys H ms' = Inr (ki, kr) \<and> length ki = 32 \<and> length kr = 32 \<and>
        q = fresh_aead (sess_CipherSuite a) kr \<and> pendingRecvCipher b = Some (fresh_aead (sess_CipherSuite a) ki))"

definition phase :: "hash_lib \<Rightarrow> session \<Rightarrow> session \<Rightarrow> item list \<Rightarrow> item list \<Rightarrow> aead option \<Rightarrow> bool" where
  "phase H a b AB BA np \<longleftrightarrow>
     (case np of None \<Rightarrow> idle a b AB BA \<or> asked a b AB BA | Some q \<Rightarrow> answered H a b AB BA q)"

definition open_conn :: "transport \<Rightarrow> bool" where
  "open_conn t \<longleftrightarrow> \<not> t_closed t \<and> conn_down t = None \<and> conn_out t = []"

definition frames :: "cipher_lib \<Rightarrow> bytes \<Rightarrow> item list \<Rightarrow> bytes" where
  "frames L p xs = concat (map (item_frame L p) xs)"

definition ends_ok :: "hash_lib \<Rightarrow> cipher_lib \<Rightarrow> session \<Rightarrow> session \<Rightarrow> item list \<Rightarrow> item list \<Rightarrow> aead option \<Rightarrow> bool" where
  "ends_ok H L a b AB BA np \<longleftrightarrow> link a b AB None \<and> link b a BA np \<and> paired L a b \<and> phase H a b AB BA np"

definition inv_at :: "hash_lib \<Rightarrow> cipher_lib \<Rightarrow> transport \<Rightarrow> transport \<Rightarrow> item list \<Rightarrow> item list \<Rightarrow> aead option \<Rightarrow> bool" where
  "inv_at H L tA tB AB BA np \<longleftrightarrow>
     (let a = t_session tA; b = t_session tB in
      open_conn tA \<and> open_conn tB \<and>
      conn_in tB = frames L (sendNoncePrefix a) AB \<and> conn_in tA = frames L (sendNoncePrefix b) BA \<and>
      ends_ok H L a b AB BA np)"

definition net_inv :: "hash_lib \<Rightarrow> cipher_lib \<Rightarrow> stream_net \<Rightarrow> bool" where
  "net_inv H L n \<longleftrightarrow> (\<exists>AB BA np. inv_at H L (endA n) (endB n) AB BA np \<and>
     sentA n = gotB n @ data_of AB \<and> sentB n = gotA n @ data_of BA \<and> faults n = [])"

lemma rekeys_simps [simp]:
  "rekeys [] = []" "rekeys (x # xs) = (if is_rekey x then x # rekeys xs else rekeys xs)" "rekeys (xs @ ys) = rekeys xs @ rekeys ys"
  by (simp_all add: rekeys_def)

lemma under_simps [simp]:
  "under c []" "under c (x # xs) \<longleftrightarrow> item_cipher x \<in> {None, Some c} \<and> under c xs" "under c (xs @ ys) \<longleftrightarrow> under c xs \<and> under c ys"
  by (simp_all add: under_def)

lemma data_of_simps [simp]:
  "data_of [] = []" "data_of (x # xs) = item_data x @ data_of xs" "data_of (xs @ ys) = data_of xs @ data_of ys"
  by (simp_all add: data_of_def)

lemma frames_simps [simp]:
  "frames L p [] = []" "frames L p (x # xs) = item_frame L p x @ frames L p xs" "frames L p (xs @ ys) = frames L p xs @ frames L p ys"
  by (simp_all add: frames_def)

lemma rekeys_empty: "rekeys xs = [] \<longleftrightarrow> list_all (\<lambda>x. \<not> is_rekey x) xs"
  by (simp add: rekeys_def filter_empty_conv list_all_iff)

section \<open>Preservation of the phase\<close>

lemma paired_cong: "paired L a b \<Longrightarrow> core a' = core a \<Longrightarrow> core b' = core b \<Longrightarrow> paired L a' b'"
  by (simp add: paired_def core_def)

lemma phase_cong:
  assumes "phase H a b AB BA np" "core a' = core a" "core b' = core b" "sendCipher a' = sendCipher a"
    "rekeys AB' = rekeys AB" "rekeys BA' = rekeys BA"
    "\<And>q c. np = Some q \<Longrightarrow> sendCipher a = Some c \<Longrightarrow> recvCipher b = Some c \<Longrightarrow> under c AB \<Longrightarrow>
       recvCipher b' = recvCipher b \<and> pendingRecvCipher b' = pendingRecvCipher b \<and> under c AB'"
  shows "phase H a' b' AB' BA' np"
proof (cases np)
  case None
  then show ?thesis
    using assms(1-6) by (simp add: phase_def idle_def asked_def core_def)
next
  case (Some q)
  then have a: "answered H a b AB BA q"
    using assms(1) by (simp add: phase_def)
  then obtain c where "sendCipher a = Some c" "recvCipher b = Some c" "under c AB"
    by (auto simp: answered_def)
  with assms(7) [OF Some] have "recvCipher b' = recvCipher b" "pendingRecvCipher b' = pendingRecvCipher b" "under c AB'"
      "sendCipher a = Some c" "recvCipher b = Some c"
    by auto
  then show ?thesis
    using Some a assms(2-6) by (simp add: phase_def answered_def core_def)
qed

section \<open>Sending\<close>

text \<open>Sending data, by either end, keeps the ends in step, also when the record is too long to be written.\<close>

lemma sent_data:
  assumes "ends_ok H L a b AB BA np"
  shows "sendCipher a = Some c \<Longrightarrow> room (Suc k) a \<Longrightarrow> item_fits (IData (sendSeq a) c d) \<Longrightarrow>
      ends_ok H L (sent now d a) b (AB @ [IData (sendSeq a) c d]) BA np"
    "room (Suc k) a \<Longrightarrow> ends_ok H L (sent now d a) b AB BA np"
    "sendCipher b = Some c \<Longrightarrow> room (Suc k) b \<Longrightarrow> item_fits (IData (sendSeq b) c d) \<Longrightarrow>
      ends_ok H L a (sent now d b) AB (BA @ [IData (sendSeq b) c d]) np"
    "room (Suc k) b \<Longrightarrow> ends_ok H L a (sent now d b) AB BA np"
proof -
  have f: "core (sent now d s) = core s" "recv_side (sent now d s) = recv_side s" "sendCipher (sent now d s) = sendCipher s"
      "sendNoncePrefix (sent now d s) = sendNoncePrefix s" "sendSeq (sent now d s) = sendSeq s + 1"
      "sendEpochStartSeq (sent now d s) = sendEpochStartSeq s"
      "recvCipher (sent now d s) = recvCipher s" "pendingRecvCipher (sent now d s) = pendingRecvCipher s" for s
    using sent_sides [of now d s] by (simp_all add: sides)
  have lt: "room (Suc k) s \<Longrightarrow> sendSeq s < sendSeq (sent now d s)" for s
    using room_send(2) [of k s "sent now d s"] f by simp
  note e = assms [unfolded ends_ok_def]
  show "ends_ok H L (sent now d a) b (AB @ [IData (sendSeq a) c d]) BA np"
    if "sendCipher a = Some c" "room (Suc k) a" "item_fits (IData (sendSeq a) c d)"
    unfolding ends_ok_def using e that lt [OF that(2)] f [of a]
    by (auto intro!: link_send [of a b AB None] tracks_append_data elim!: link_cong [of b a BA np] paired_cong phase_cong
        simp: send_side_def recv_side_def less_imp_le)
  show "ends_ok H L (sent now d a) b AB BA np" if "room (Suc k) a"
    unfolding ends_ok_def using e lt [OF that] f [of a]
    by (auto elim!: link_skip [of a b AB None] link_cong [of b a BA np] paired_cong phase_cong simp: less_imp_le send_side_def)
  show "ends_ok H L a (sent now d b) AB (BA @ [IData (sendSeq b) c d]) np"
    if "sendCipher b = Some c" "room (Suc k) b" "item_fits (IData (sendSeq b) c d)"
    unfolding ends_ok_def using e that lt [OF that(2)] f [of b]
    by (auto intro!: link_send [of b a BA np] tracks_append_data elim!: link_cong [of a b AB None] paired_cong phase_cong
        simp: send_side_def recv_side_def less_imp_le)
  show "ends_ok H L a (sent now d b) AB BA np" if "room (Suc k) b"
    unfolding ends_ok_def using e lt [OF that] f [of b]
    by (auto elim!: link_skip [of b a BA np] link_cong [of a b AB None] paired_cong phase_cong simp: less_imp_le send_side_def)
qed

lemma sent_control:
  assumes "ends_ok H L a b AB BA np" "x = IPing \<or> x = IPong"
  shows "ends_ok H L a b (AB @ [x]) BA np" "ends_ok H L a b AB (BA @ [x]) np"
proof -
  note e = assms(1) [unfolded ends_ok_def]
  obtain ca cb where c: "sendCipher a = Some ca" "sendCipher b = Some cb"
    using e by (auto simp: link_def)
  have "link a b (AB @ [x]) None" "link b a (BA @ [x]) np"
    using e c assms(2) by (auto intro!: link_send [of a b AB None] link_send [of b a BA np] tracks_append_data)
  moreover have "phase H a b (AB @ [x]) BA np" "phase H a b AB (BA @ [x]) np"
    using e assms(2) by (auto elim!: phase_cong)
  ultimately show "ends_ok H L a b (AB @ [x]) BA np" "ends_ok H L a b AB (BA @ [x]) np"
    using e by (auto simp: ends_ok_def)
qed

lemma sent_request:
  assumes "ends_ok H L a b AB BA np" "\<not> rekeyInProgress a" "sendCipher a = Some c" "room (Suc k) a"
    "kem_serves (kemSuite a) kp" "PublicKey_Bytes (PublicKey kp) = Inr pk" "item_fits (IRekey (sendSeq a) c pk act)"
  shows "ends_ok H L (sent now pl (requested kp a)) b (AB @ [IRekey (sendSeq a) c pk act]) BA None"
proof -
  note e = assms(1) [unfolded ends_ok_def]
  define a' where "a' = sent now pl (requested kp a)"
  have i: "np = None" "idle a b AB BA"
    using e assms(2) by (auto simp: phase_def asked_def answered_def split: option.splits)
  have f: "send_side a' = (sendCipher a, sendSeq a + 1, sendEpochStartSeq a, sendNoncePrefix a)" "recv_side a' = recv_side a"
      "core a' = (sess_Role a, SessionStateRekeying, sess_CipherSuite a, kemSuite a, masterSecret a, True, Some kp)"
    unfolding a'_def using sent_sides [of now pl "requested kp a"] requested_sides [where kp = kp and s = a] by (simp_all add: send_side_def)
  have lt: "sendSeq a < sendSeq a'"
    using room_send(2) [OF assms(4), of a'] f(1) by (simp add: send_side_def)
  have "link a' b (AB @ [IRekey (sendSeq a) c pk act]) None"
    using e assms(3,7) lt f(1) by (auto intro!: link_send [of a b AB None] tracks_append_request simp: send_side_def)
  moreover have "link b a' BA None"
    using e i(1) f(2) by (auto elim: link_cong)
  moreover have "paired L a' b"
    using e f(3) by (simp add: paired_def core_def)
  moreover have "phase H a' b (AB @ [IRekey (sendSeq a) c pk act]) BA None"
    using i(2) f(3) assms(5,6) by (simp add: phase_def asked_def idle_def core_def)
  ultimately show ?thesis
    by (simp add: ends_ok_def a'_def)
qed

section \<open>Receiving\<close>

definition clear_of_collision :: "cipher_lib \<Rightarrow> session \<Rightarrow> u64 \<Rightarrow> bytes \<Rightarrow> bool" where
  "clear_of_collision L r sq ct \<longleftrightarrow> (\<forall>c q u v. recvCipher r = Some c \<longrightarrow> pendingRecvCipher r = Some q \<longrightarrow>
     ct = sealed_record L c (recvNoncePrefix r) sq u \<longrightarrow> ct = sealed_record L q (recvNoncePrefix r) sq v \<longrightarrow> c = q)"

lemma link_receive_clear:
  assumes "cipher_lib_ok L" "link s r (x # xs) np" "item_cipher x = Some k" "item_seq x = [sq]"
    "ct = sealed_record L k (sendNoncePrefix s) sq pt" "clear_of_collision L r sq ct"
  obtains r' where "Decrypt L now ct sq r = (Inr pt, r')" "core r' = core r" "send_side r' = send_side r"
    "recvCipher r' = Some k" "pendingRecvCipher r' = (if recvCipher r = Some k then pendingRecvCipher r else None)"
    "recvNoncePrefix r' = sendNoncePrefix s" "seqs_ahead (replayWindow r') xs (sendSeq s)"
proof -
  have p: "recvNoncePrefix r = sendNoncePrefix s"
    using assms(2) by (auto simp: link_def)
  have "\<exists>r'. Decrypt L now ct sq r = (Inr pt, r') \<and> core r' = core r \<and> send_side r' = send_side r \<and>
    recvCipher r' = Some k \<and> pendingRecvCipher r' = (if recvCipher r = Some k then pendingRecvCipher r else None) \<and>
    recvNoncePrefix r' = sendNoncePrefix s \<and> seqs_ahead (replayWindow r') xs (sendSeq s)"
    using assms(5,6) p by (intro link_receive [OF assms(1-5)]) (metis clear_of_collision_def)
  then show ?thesis
    using that by blast
qed

lemma received_data_B:
  assumes "cipher_lib_ok L" "ends_ok H L a b (IData sq k pt # AB) BA np"
    "ct = sealed_record L k (sendNoncePrefix a) sq pt" "clear_of_collision L b sq ct"
  obtains b' where "Decrypt L now ct sq b = (Inr pt, b')" "sendNoncePrefix b' = sendNoncePrefix b" "ends_ok H L a b' AB BA np"
proof -
  note e = assms(2) [unfolded ends_ok_def]
  obtain b' where b: "Decrypt L now ct sq b = (Inr pt, b')" "core b' = core b" "send_side b' = send_side b"
      "recvCipher b' = Some k" "pendingRecvCipher b' = (if recvCipher b = Some k then pendingRecvCipher b else None)"
      "recvNoncePrefix b' = sendNoncePrefix a" "seqs_ahead (replayWindow b') AB (sendSeq a)"
    using link_receive_clear [of L a b "IData sq k pt" AB None k sq ct pt now] e assms(1,3,4) by auto
  have "link a b' AB None"
    using link_received_data [OF _ _ _ b(4-7), of "IData sq k pt" None] e by simp
  moreover have "link b' a BA np"
    using e b(3) by (auto elim: link_cong)
  moreover have "phase H a b' AB BA np"
    using e b(2,4,5) by (auto elim!: phase_cong)
  ultimately show ?thesis
    using that [of b'] b e paired_cong [of L a b a b'] by (auto simp: ends_ok_def send_side_def)
qed

lemma received_data_A:
  assumes "cipher_lib_ok L" "ends_ok H L a b AB (IData sq k pt # BA) np"
    "ct = sealed_record L k (sendNoncePrefix b) sq pt" "clear_of_collision L a sq ct"
  obtains a' where "Decrypt L now ct sq a = (Inr pt, a')" "sendNoncePrefix a' = sendNoncePrefix a" "ends_ok H L a' b AB BA np"
proof -
  note e = assms(2) [unfolded ends_ok_def]
  obtain a' where b: "Decrypt L now ct sq a = (Inr pt, a')" "core a' = core a" "send_side a' = send_side a"
      "recvCipher a' = Some k" "pendingRecvCipher a' = (if recvCipher a = Some k then pendingRecvCipher a else None)"
      "recvNoncePrefix a' = sendNoncePrefix b" "seqs_ahead (replayWindow a') BA (sendSeq b)"
    using link_receive_clear [of L b a "IData sq k pt" BA np k sq ct pt now] e assms(1,3,4) by auto
  have "link b a' BA np"
    using link_received_data [OF _ _ _ b(4-7), of "IData sq k pt" np] e by simp
  moreover have "link a' b AB None"
    using e b(3) by (auto elim: link_cong)
  moreover have "phase H a' b AB BA np"
    using e b(2,3) by (auto elim!: phase_cong simp: send_side_def)
  ultimately show ?thesis
    using that [of a'] b e paired_cong [of L a b a' b] by (auto simp: ends_ok_def send_side_def)
qed

lemma received_control:
  assumes "x = IPing \<or> x = IPong"
  shows "ends_ok H L a b (x # AB) BA np \<Longrightarrow> ends_ok H L a b AB BA np"
    "ends_ok H L a b AB (x # BA) np \<Longrightarrow> ends_ok H L a b AB BA np"
  using assms unfolding ends_ok_def
  by (auto elim!: link_received_control phase_cong)

lemma received_request_B:
  assumes "hash_lib_ok H" "cipher_lib_ok L" "ends_ok H L a b (IRekey sq k pk act # AB) BA np"
    "ct = sealed_record L k (sendNoncePrefix a) sq (rekey_payload pk act)" "clear_of_collision L b sq ct" "room (Suc n) b"
  obtains b1 kp ms sc where "Decrypt L now ct sq b = (Inr (rekey_payload pk act), b1)"
    "kem_serves (kemSuite b1) kp" "PublicKey_Bytes (PublicKey kp) = Inr pk" "masterSecret b1 = Some ms" "length ms = 32"
    "core b1 = core b" "send_side b1 = send_side b" "sendCipher b1 = Some sc"
    "\<And>rt ms' ki kr b2. rekey_answer H (kemSuite b1) kp ms rt ms' \<Longrightarrow> length ms' = 32 \<Longrightarrow> DeriveTrafficKeys H ms' = Inr (ki, kr) \<Longrightarrow>
      length ki = 32 \<Longrightarrow> length kr = 32 \<Longrightarrow> item_fits (IRekey (sendSeq b1) sc rt act) \<Longrightarrow>
      core b2 = (sess_Role b1, SessionStateEstablished, sess_CipherSuite b1, kemSuite b1, Some ms', False, pendingRekeyKeyPair b1) \<Longrightarrow>
      send_side b2 = (Some (fresh_aead (sess_CipherSuite b1) kr), sendSeq b1 + 1, sendSeq b1 + 1, sendNoncePrefix b1) \<Longrightarrow>
      recv_side b2 = (recvCipher b1, Some (fresh_aead (sess_CipherSuite b1) ki), replayWindow b1, recvNoncePrefix b1) \<Longrightarrow>
      ends_ok H L a b2 AB (BA @ [IRekey (sendSeq b1) sc rt act]) (Some (fresh_aead (sess_CipherSuite b1) kr))"
proof -
  note e = assms(3) [unfolded ends_ok_def]
  obtain b1 where b: "Decrypt L now ct sq b = (Inr (rekey_payload pk act), b1)" "core b1 = core b" "send_side b1 = send_side b"
      "recvCipher b1 = Some k" "recvNoncePrefix b1 = sendNoncePrefix a" "seqs_ahead (replayWindow b1) AB (sendSeq a)"
    using link_receive_clear [of L a b "IRekey sq k pk act" AB None k sq ct "rekey_payload pk act" now] e assms(2,4,5) by auto
  have q: "np = None" "asked a b (IRekey sq k pk act # AB) BA"
    using e by (auto simp: phase_def idle_def answered_def split: option.splits)
  then obtain kp where kp: "pendingRekeyKeyPair a = Some kp" "kem_serves (kemSuite a) kp" "PublicKey_Bytes (PublicKey kp) = Inr pk"
      "rekeys AB = []" "rekeys BA = []" "rekeyInProgress a" "masterSecret a = masterSecret b"
    by (auto simp: asked_def)
  obtain ms where ms: "masterSecret b = Some ms" "length ms = 32"
    using e by (auto simp: paired_def)
  obtain sc where sc: "sendCipher b = Some sc"
    using e by (auto simp: link_def)
  have flat: "sendCipher a = Some k" "under k AB" "list_all item_fits AB"
    using e by (auto simp: link_def under_def list_all_iff)
  have c: "kemSuite b1 = kemSuite a" "sess_CipherSuite b1 = sess_CipherSuite a" "masterSecret b1 = Some ms" "sess_Role b1 = RoleResponder"
    using b(2) e ms(1) by (auto simp: core_def paired_def)
  have sd: "sendSeq b1 = sendSeq b" "sendNoncePrefix b1 = sendNoncePrefix b" "sendCipher b1 = Some sc"
    using b(3) sc by (auto simp: send_side_def)
  have lt: "sendSeq b < sendSeq b + 1"
    using room_send(2) [OF assms(6), of "b\<lparr>sendSeq := sendSeq b + 1\<rparr>"] by simp
  show ?thesis
  proof (rule that [OF b(1) _ kp(3) c(3) ms(2) b(2,3) sd(3)])
    show "kem_serves (kemSuite b1) kp"
      using kp(2) c(1) by simp
    fix rt ms' ki kr b2
    assume r: "rekey_answer H (kemSuite b1) kp ms rt ms'" "length ms' = 32" "DeriveTrafficKeys H ms' = Inr (ki, kr)"
      "length ki = 32" "length kr = 32" "item_fits (IRekey (sendSeq b1) sc rt act)"
      and f: "core b2 = (sess_Role b1, SessionStateEstablished, sess_CipherSuite b1, kemSuite b1, Some ms', False, pendingRekeyKeyPair b1)"
      "send_side b2 = (Some (fresh_aead (sess_CipherSuite b1) kr), sendSeq b1 + 1, sendSeq b1 + 1, sendNoncePrefix b1)"
      "recv_side b2 = (recvCipher b1, Some (fresh_aead (sess_CipherSuite b1) ki), replayWindow b1, recvNoncePrefix b1)"
    have "link a b2 AB None"
      using f(3) b(4-6) flat kp(4) tracks_all_same [of k AB]
      by (auto simp: link_def recv_side_def under_def rekeys_empty list_all_iff)
    moreover have "link b2 a (BA @ [IRekey (sendSeq b1) sc rt act]) (Some (fresh_aead (sess_CipherSuite b1) kr))"
      using e q(1) f(2) sd r(6) lt sc kp(5)
      by (auto intro!: link_send [of b a BA None] tracks_append_response simp: send_side_def rekeys_empty less_imp_le)
    moreover have "paired L a b2"
      using e f(1) c r(2) by (auto simp: paired_def core_def)
    moreover have "answered H a b2 AB (BA @ [IRekey (sendSeq b1) sc rt act]) (fresh_aead (sess_CipherSuite b1) kr)"
      using kp r f(1,3) b(4) flat c(1,2) ms(1) by (simp add: answered_def core_def recv_side_def)
    ultimately show "ends_ok H L a b2 AB (BA @ [IRekey (sendSeq b1) sc rt act]) (Some (fresh_aead (sess_CipherSuite b1) kr))"
      by (simp add: ends_ok_def phase_def)
  qed
qed

lemma received_response_A:
  assumes "cipher_lib_ok L" "ends_ok H L a b AB (IRekey sq k rt act # BA) np"
    "ct = sealed_record L k (sendNoncePrefix b) sq (rekey_payload rt act)" "clear_of_collision L a sq ct"
  obtains a1 where "Decrypt L now ct sq a = (Inr (rekey_payload rt act), a1)" "sess_Role a1 = RoleInitiator" "rekeyInProgress a1"
    "\<And>t. t_session t = a1 \<Longrightarrow> \<exists>a2. on_session (ProcessRekeyResponse H L now rt) t = (Inr (), t\<lparr>t_session := a2\<rparr>) \<and>
      sendNoncePrefix a2 = sendNoncePrefix a \<and> ends_ok H L a2 b AB BA None"
proof -
  note e = assms(2) [unfolded ends_ok_def]
  obtain a1 where b: "Decrypt L now ct sq a = (Inr (rekey_payload rt act), a1)" "core a1 = core a" "send_side a1 = send_side a"
      "recvCipher a1 = Some k" "recvNoncePrefix a1 = sendNoncePrefix b" "seqs_ahead (replayWindow a1) BA (sendSeq b)"
    using link_receive_clear [of L b a "IRekey sq k rt act" BA np k sq ct "rekey_payload rt act" now] e assms(1,3,4) by auto
  obtain q where q: "np = Some q" "answered H a b AB (IRekey sq k rt act # BA) q"
    using e by (auto simp: phase_def idle_def asked_def split: option.splits)
  then obtain kp ms ms' ki kr c where w: "pendingRekeyKeyPair a = Some kp" "masterSecret a = Some ms" "masterSecret b = Some ms'"
      "rekey_answer H (kemSuite a) kp ms rt ms'" "rekeys BA = []" "DeriveTrafficKeys H ms' = Inr (ki, kr)" "length ki = 32" "length kr = 32"
      "q = fresh_aead (sess_CipherSuite a) kr" "pendingRecvCipher b = Some (fresh_aead (sess_CipherSuite a) ki)"
      "rekeyInProgress a" "rekeys AB = []" "sendCipher a = Some c" "recvCipher b = Some c" "under c AB"
    by (auto simp: answered_def)
  have c1: "rekeyInProgress a1" "pendingRekeyKeyPair a1 = Some kp" "kemSuite a1 = kemSuite a" "masterSecret a1 = Some ms"
      "sess_CipherSuite a1 = sess_CipherSuite a" "sess_Role a1 = RoleInitiator" "suite_usable L (sess_CipherSuite a1)"
    using b(2) w e by (auto simp: core_def paired_def)
  have "\<exists>a2. on_session (ProcessRekeyResponse H L now rt) t = (Inr (), t\<lparr>t_session := a2\<rparr>) \<and>
      sendNoncePrefix a2 = sendNoncePrefix a \<and> ends_ok H L a2 b AB BA None" if t: "t_session t = a1" for t
  proof -
    obtain a2 where a2: "on_session (ProcessRekeyResponse H L now rt) t = (Inr (), t\<lparr>t_session := a2\<rparr>)"
        "core a2 = (sess_Role a1, SessionStateEstablished, sess_CipherSuite a1, kemSuite a1, Some ms', False, None)"
        "send_side a2 = (Some (fresh_aead (sess_CipherSuite a1) ki), sendSeq a1, sendSeq a1, sendNoncePrefix a1)"
        "recv_side a2 = (recvCipher a1, Some (fresh_aead (sess_CipherSuite a1) kr), replayWindow a1, recvNoncePrefix a1)"
      using complete_open [OF c1(1,2) w(4) [folded c1(3)] c1(4) w(6-8) c1(7) t [symmetric], of now] by blast
    have "link a2 b AB None"
      using e a2(3) b(3) c1(5) w(10,12,14,15) tracks_flat [of c AB]
      by (auto simp: link_def send_side_def under_def rekeys_empty list_all_iff)
    moreover have "tracks None k (Some q) BA (the (sendCipher b))"
      using e q(1) w(5) tracks_no_rekey [of "Some q" k "Some q" BA _ None] by (auto simp: link_def rekeys_empty)
    then have "link b a2 BA None"
      using e a2(4) b(4-6) c1(5) w(9) by (auto simp: link_def recv_side_def)
    moreover have "paired L a2 b" "idle a2 b AB BA"
      using e a2(2) c1 w by (auto simp: paired_def core_def idle_def)
    ultimately have "ends_ok H L a2 b AB BA None"
      by (simp add: ends_ok_def phase_def)
    then show ?thesis
      using a2(1,3) b(3) by (auto simp: send_side_def)
  qed
  then show ?thesis
    using that [OF b(1) c1(6,1)] by blast
qed

section \<open>Steps\<close>

abbreviation flushed :: "transport \<Rightarrow> transport" where
  "flushed t \<equiv> t\<lparr>conn_out := []\<rparr>"

abbreviation fed :: "transport \<Rightarrow> bytes \<Rightarrow> transport" where
  "fed t x \<equiv> t\<lparr>conn_in := conn_in t @ x\<rparr>"

lemma settle_A:
  assumes "inv_at H L tA tB AB BA np" "\<not> t_closed t" "conn_down t = None"
    "conn_in t = frames L (sendNoncePrefix (t_session tB)) BA'"
    "conn_out t = frames L (sendNoncePrefix (t_session tA)) ys"
    "sendNoncePrefix (t_session t) = sendNoncePrefix (t_session tA)" "ends_ok H L (t_session t) (t_session tB) (AB @ ys) BA' np'"
  shows "inv_at H L (flushed t) (fed tB (conn_out t)) (AB @ ys) BA' np'"
  using assms by (simp add: inv_at_def Let_def open_conn_def)

lemma settle_B:
  assumes "inv_at H L tA tB AB BA np" "\<not> t_closed t" "conn_down t = None"
    "conn_in t = frames L (sendNoncePrefix (t_session tA)) AB'"
    "conn_out t = frames L (sendNoncePrefix (t_session tB)) ys"
    "sendNoncePrefix (t_session t) = sendNoncePrefix (t_session tB)" "ends_ok H L (t_session tA) (t_session t) AB' (BA @ ys) np'"
  shows "inv_at H L (fed tA (conn_out t)) (flushed t) AB' (BA @ ys) np'"
  using assms by (simp add: inv_at_def Let_def open_conn_def)

lemma inv_atD:
  assumes "inv_at H L tA tB AB BA np"
  shows "\<not> t_closed tA" "conn_down tA = None" "conn_out tA = []" "\<not> t_closed tB" "conn_down tB = None" "conn_out tB = []"
    "conn_in tB = frames L (sendNoncePrefix (t_session tA)) AB" "conn_in tA = frames L (sendNoncePrefix (t_session tB)) BA"
    "ends_ok H L (t_session tA) (t_session tB) AB BA np"
    "\<exists>c. sendCipher (t_session tA) = Some c" "\<exists>c. sendCipher (t_session tB) = Some c"
    "paired L (t_session tA) (t_session tB)"
    "\<not> rekeyInProgress (t_session tA) \<Longrightarrow> sess_state (t_session tA) = SessionStateEstablished"
    "list_all item_fits AB" "list_all item_fits BA"
    "recvNoncePrefix (t_session tB) = sendNoncePrefix (t_session tA)" "recvNoncePrefix (t_session tA) = sendNoncePrefix (t_session tB)"
  using assms by (auto simp: inv_at_def Let_def open_conn_def ends_ok_def link_def phase_def idle_def asked_def answered_def
      split: option.splits)

lemma rekey_step_A:
  assumes "cipher_lib_ok L" "inv_at H L tA tB AB BA np" "SendRekey L now tA = (r, t)"
    "room (Suc k) (t_session tA)" "has_entropy tA"
  shows "\<exists>ys np'. inv_at H L (flushed t) (fed tB (conn_out t)) (AB @ ys) BA np' \<and> data_of ys = [] \<and> r \<noteq> Inl Panic"
proof (cases "rekeyInProgress (t_session tA)")
  case True
  note i = inv_atD [OF assms(2)]
  have "t_session t = t_session tA \<and> \<not> t_closed t \<and> conn_down t = None \<and> conn_out t = [] \<and> conn_in t = conn_in tA \<and> r \<noteq> Inl Panic"
    using assms(3) True i(1-3)
    by (auto simp: SendRekey_def nextTape_def on_session_def InitiateRekey_def split: list.splits)
  then show ?thesis
    using settle_A [OF assms(2), of t BA "[]" np] i(8,9) by (intro exI [of _ "[]"]) auto
next
  case False
  note i = inv_atD [OF assms(2)]
  obtain c where c: "sendCipher (t_session tA) = Some c"
    using i(10) by blast
  have S: "suite_fits (kemSuite (t_session tA))"
    using i(12) by (simp add: paired_def)
  obtain kp b act rand where k: "kem_serves (kemSuite (t_session tA)) kp" "PublicKey_Bytes (PublicKey kp) = Inr b"
      "item_fits (IRekey (sendSeq (t_session tA)) c b act)"
      "SendRekey L now tA = (Inr (), tA\<lparr>t_rand := rand, t_session := sent now (rekey_payload b act) (requested kp (t_session tA)),
      conn_out := conn_out tA @ item_frame L (sendNoncePrefix (t_session tA)) (IRekey (sendSeq (t_session tA)) c b act)\<rparr>)"
    using SendRekey_open [OF assms(1) S c assms(4) refl i(2,1) assms(5) False i(13) [OF False]] by blast
  have n: "sendNoncePrefix (sent now (rekey_payload b act) (requested kp (t_session tA))) = sendNoncePrefix (t_session tA)"
    using sent_sides(3) [of now "rekey_payload b act" "requested kp (t_session tA)"] by (simp add: send_side_def requested_def)
  have "inv_at H L (flushed t) (fed tB (conn_out t)) (AB @ [IRekey (sendSeq (t_session tA)) c b act]) BA None"
    using settle_A [OF assms(2), of t BA "[IRekey (sendSeq (t_session tA)) c b act]" None] k(4) assms(3) i n
      sent_request [OF i(9) False c assms(4) k(1-3), of now "rekey_payload b act"] by (auto simp del: item_frame.simps)
  moreover have "r \<noteq> Inl Panic"
    using k(4) assms(3) by simp
  ultimately show ?thesis
    by (intro exI [of _ "[IRekey (sendSeq (t_session tA)) c b act]"] exI [of _ None]) simp
qed

text \<open>What was written before an operation stays in front of what it writes.\<close>

definition pre :: "bytes \<Rightarrow> transport \<Rightarrow> transport" where
  "pre x t = t\<lparr>conn_out := x @ conn_out t\<rparr>"

lemma pre_simps [simp]:
  "t_session (pre x t) = t_session t" "t_closed (pre x t) = t_closed t" "conn_down (pre x t) = conn_down t"
  "t_rand (pre x t) = t_rand t" "flushed (pre x t) = flushed t" "conn_out (pre x t) = x @ conn_out t"
  "(pre x t)\<lparr>t_session := s\<rparr> = pre x (t\<lparr>t_session := s\<rparr>)" "(pre x t)\<lparr>t_rand := l\<rparr> = pre x (t\<lparr>t_rand := l\<rparr>)"
  by (simp_all add: pre_def)

lemma SendRekey_pre:
  assumes "SendRekey L now t = (r, t')"
  shows "SendRekey L now (pre x t) = (r, pre x t')"
proof -
  have w: "writeFrame m (pre x t) = (fst (writeFrame m t), pre x (snd (writeFrame m t)))" for m t
    by (simp add: writeFrame_def writeLocked_def pre_def split: option.splits)
  have o: "on_session f (pre x t) = (fst (on_session f t), pre x (snd (on_session f t)))" for f :: "session \<Rightarrow> 'x res \<times> session" and t
    by (simp add: on_session_def pre_def split: prod.splits)
  have s: "sendRekeyRecord L now p act (pre x t) = (fst (sendRekeyRecord L now p act t), pre x (snd (sendRekeyRecord L now p act t)))" for p act t
    by (cases "EncodeRekeyPayload p act"; cases "fst (on_session (Encrypt L now (be_bytes 2 (length p) @ p @ put_u64 act)) t)";
        auto simp: sendRekeyRecord_def o w tryS_def bindS_def split: prod.splits sum.splits)
  show ?thesis
    using assms unfolding SendRekey_def
    by (cases "t_rand t") (auto simp: nextTape_def rejectS_def bindS_def on_session_def s
        split: prod.splits sum.splits)
qed

lemma send_step_A:
  assumes "cipher_lib_ok L" "inv_at H L tA tB AB BA np" "transport_Send L now d tA = (r, t)" "has_room tA" "has_entropy tA"
  shows "\<exists>ys np'. inv_at H L (flushed t) (fed tB (conn_out t)) (AB @ ys) BA np' \<and> data_of ys = accepted r d"
proof -
  note i = inv_atD [OF assms(2)]
  let ?a = "t_session tA"
  obtain c where c: "sendCipher ?a = Some c"
    using i(10) by blast
  have room: "room (Suc (Suc 0)) ?a"
    using assms(4) by (simp add: has_room_def numeral_2_eq_2)
  let ?x = "IData (sendSeq ?a) c d"
  have sp: "sendNoncePrefix (sent now d ?a) = sendNoncePrefix ?a" "room (Suc 0) (sent now d ?a)"
    using room_send(3) [OF room, of "sent now d ?a"] by (simp_all add: sent_def)
  note sw = sealAndWrite_open [OF assms(1) c room i(2), of now d]
  consider (big) "length d > MaxPayloadSize" | (long) "length d \<le> MaxPayloadSize" "\<not> item_fits ?x" | (fits) "item_fits ?x"
    by fastforce
  then show ?thesis
  proof cases
    case big
    then have "r = Inl (Err ErrMessageTooLarge)" "t = tA"
      using assms(3) i(1) by (auto simp: transport_Send_def rejectS_def failR_def)
    then show ?thesis
      using settle_A [OF assms(2), of t BA "[]" np] i by (intro exI [of _ "[]"]) (auto simp: accepted_def)
  next
    case long
    then have "r = Inl (Err ErrMessageTooLarge)" "t = tA\<lparr>t_session := sent now d ?a\<rparr>"
      using assms(3) i(1) sw by (auto simp: transport_Send_def Let_def)
    then show ?thesis
      using settle_A [OF assms(2), of t BA "[]" np] i sp sent_data(2) [OF i(9) room, of now d]
      by (intro exI [of _ "[]"]) (auto simp: accepted_def)
  next
    case fits
    define t1 where "t1 = tA\<lparr>t_session := sent now d ?a, conn_out := item_frame L (sendNoncePrefix ?a) ?x\<rparr>"
    have t1: "sealAndWrite L now d tA = (Inr (), t1)" "has_entropy (flushed t1)" "t_session t1 = sent now d ?a"
      using sw fits i(3) assms(5) by (simp_all add: Let_def t1_def has_entropy_def del: item_frame.simps item_fits.simps)
    have inv1: "inv_at H L (flushed t1) (fed tB (conn_out t1)) (AB @ [?x]) BA np"
      using settle_A [OF assms(2), of t1 BA "[?x]" np] i sp sent_data(1) [OF i(9) c room fits, of now]
      by (auto simp: t1_def simp del: item_frame.simps item_fits.simps)
    have "length d \<le> MaxPayloadSize"
      using fits by simp
    then have "(case CheckAndRekey L now t1 of (Inl Panic, t) \<Rightarrow> (Inl Panic, t) | (_, t) \<Rightarrow> (Inr (), t)) = (r, t)"
      using assms(3) i(1) t1(1) by (simp add: transport_Send_def)
    then consider "t = t1" "r = Inr ()" | r' where "SendRekey L now t1 = (r', t)" "r' = Inl Panic \<longleftrightarrow> r \<noteq> Inr ()" "r \<noteq> Inr () \<Longrightarrow> r = Inl Panic"
      by (auto simp: CheckAndRekey_def split: if_splits prod.splits sum.splits failure.splits)
    then show ?thesis
    proof cases
      case 1
      then show ?thesis
        using inv1 by (intro exI [of _ "[?x]"] exI [of _ np]) (simp add: accepted_def)
    next
      case 2
      obtain r2 t2 where t2: "SendRekey L now (flushed t1) = (r2, t2)"
        by fastforce
      have "pre (conn_out t1) (flushed t1) = t1"
        by (simp add: pre_def)
      then have t: "t = pre (conn_out t1) t2" "r' = r2"
        using SendRekey_pre [OF t2, of "conn_out t1"] 2(1) by simp_all
      obtain ys np' where y: "inv_at H L (flushed t2) (fed (fed tB (conn_out t1)) (conn_out t2)) ((AB @ [?x]) @ ys) BA np'" "data_of ys = []" "r2 \<noteq> Inl Panic"
        using rekey_step_A [OF assms(1) inv1 t2 _ t1(2), of 0] sp(2) t1(3) by auto
      then show ?thesis
        using y t 2(2) by (intro exI [of _ "[?x] @ ys"] exI [of _ np']) (simp add: accepted_def)
    qed
  qed
qed

lemma send_step_B:
  assumes "cipher_lib_ok L" "inv_at H L tA tB AB BA np" "transport_Send L now d tB = (r, t)" "has_room tB"
  shows "\<exists>ys. inv_at H L (fed tA (conn_out t)) (flushed t) AB (BA @ ys) np \<and> data_of ys = accepted r d"
proof -
  note i = inv_atD [OF assms(2)]
  let ?b = "t_session tB"
  obtain c where c: "sendCipher ?b = Some c"
    using i(11) by blast
  have room: "room (Suc (Suc 0)) ?b"
    using assms(4) by (simp add: has_room_def numeral_2_eq_2)
  let ?x = "IData (sendSeq ?b) c d"
  have sp: "sendNoncePrefix (sent now d ?b) = sendNoncePrefix ?b" "sess_Role (sent now d ?b) = RoleResponder"
    using i(12) by (simp_all add: sent_def paired_def)
  note sw = sealAndWrite_open [OF assms(1) c room i(5), of now d]
  consider (big) "length d > MaxPayloadSize" | (long) "length d \<le> MaxPayloadSize" "\<not> item_fits ?x" | (fits) "item_fits ?x"
    by fastforce
  then show ?thesis
  proof cases
    case big
    then have "r = Inl (Err ErrMessageTooLarge)" "t = tB"
      using assms(3) i(4) by (auto simp: transport_Send_def rejectS_def failR_def)
    then show ?thesis
      using settle_B [OF assms(2), of t AB "[]" np] i by (intro exI [of _ "[]"]) (auto simp: accepted_def)
  next
    case long
    then have "r = Inl (Err ErrMessageTooLarge)" "t = tB\<lparr>t_session := sent now d ?b\<rparr>"
      using assms(3) i(4) sw by (auto simp: transport_Send_def Let_def)
    then show ?thesis
      using settle_B [OF assms(2), of t AB "[]" np] i sp sent_data(4) [OF i(9) room, of now d]
      by (intro exI [of _ "[]"]) (auto simp: accepted_def)
  next
    case fits
    then have "r = Inr ()" "t = tB\<lparr>t_session := sent now d ?b, conn_out := item_frame L (sendNoncePrefix ?b) ?x\<rparr>"
      using assms(3) i(4,6) sw sp(2) by (auto simp: transport_Send_def Let_def CheckAndRekey_def simp del: item_frame.simps)
    then show ?thesis
      using settle_B [OF assms(2), of t AB "[?x]" np] i sp sent_data(3) [OF i(9) c room fits, of now]
      by (intro exI [of _ "[?x]"]) (auto simp: accepted_def simp del: item_frame.simps item_fits.simps)
  qed
qed

lemma ping_step_A:
  assumes "inv_at H L tA tB AB BA np" "SendPing tA = (r, t)"
  shows "inv_at H L (flushed t) (fed tB (conn_out t)) (AB @ [IPing]) BA np"
proof -
  note i = inv_atD [OF assms(1)]
  have "t = tA\<lparr>conn_out := encodePing\<rparr>"
    using assms(2) i(1-3) by (simp add: SendPing_def writeFrame_def writeLocked_def)
  then show ?thesis
    using settle_A [OF assms(1), of t BA "[IPing]" np] i sent_control(1) [OF i(9), of IPing] by simp
qed

lemma ping_step_B:
  assumes "inv_at H L tA tB AB BA np" "SendPing tB = (r, t)"
  shows "inv_at H L (fed tA (conn_out t)) (flushed t) AB (BA @ [IPing]) np"
proof -
  note i = inv_atD [OF assms(1)]
  have "t = tB\<lparr>conn_out := encodePing\<rparr>"
    using assms(2) i(4-6) by (simp add: SendPing_def writeFrame_def writeLocked_def)
  then show ?thesis
    using settle_B [OF assms(1), of t AB "[IPing]" np] i sent_control(2) [OF i(9), of IPing] by simp
qed

text \<open>A step that excludes records opening under two keys gives what the session lemmas need.\<close>

lemma unambiguous_clear:
  assumes "cipher_lib_ok L" "unambiguous L t" "item_fits x" "conn_in t = item_frame L p x @ rest"
    "item_seq x = [sq]" "x = IData sq k pt \<or> x = IRekey sq k b act \<and> pt = rekey_payload b act"
  shows "clear_of_collision L (t_session t) sq (sealed_record L k p sq pt)"
proof -
  have "DecodeData (item_frame L p (IData sq k pt)) = Inr (sq, sealed_record L k p sq pt)"
    unfolding DecodeData_def by (rule decode_record_put) simp
  moreover have "DecodeRekey (item_frame L p (IRekey sq k b act)) = Inr (sq, sealed_record L k p sq (rekey_payload b act))"
    unfolding DecodeRekey_def by (rule decode_record_put) simp
  ultimately have d: "DecodeData (item_frame L p x) = Inr (sq, sealed_record L k p sq pt) \<or>
      DecodeRekey (item_frame L p x) = Inr (sq, sealed_record L k p sq pt)"
    using assms(6) by auto
  show ?thesis
    unfolding clear_of_collision_def
  proof (intro allI impI)
    fix c q u v
    let ?x = "sealed_record L k p sq pt" and ?n = "recvNoncePrefix (t_session t)"
    assume r: "recvCipher (t_session t) = Some c" "pendingRecvCipher (t_session t) = Some q"
      and "?x = sealed_record L c ?n sq u" "?x = sealed_record L q ?n sq v"
    then have "OpenWithNonce L c (buildAEADNonce ?n sq) ?x (put_u64 sq) = Inr u" "OpenWithNonce L q (buildAEADNonce ?n sq) ?x (put_u64 sq) = Inr v"
      using OpenWithNonce_record [OF assms(1)] by blast+
    then show "c = q"
      by (rule assms(2) [unfolded unambiguous_def, rule_format, OF readMessage_item(1) [OF assms(1,3,4)] d r])
  qed
qed

lemma recv_request_step_B:
  assumes "hash_lib_ok H" "cipher_lib_ok L" "inv_at H L tA tB (IRekey sq k pk act # AB) BA np"
    "receive_one H L now tB = (r, t)" "unambiguous L tB" "has_room tB" "has_entropy tB"
  shows "\<exists>ys np'. inv_at H L (fed tA (conn_out t)) (flushed t) AB (BA @ ys) np' \<and> data_of ys = [] \<and> r = None"
proof -
  note i = inv_atD [OF assms(3)]
  let ?a = "t_session tA" and ?b = "t_session tB" and ?x = "IRekey sq k pk act"
  let ?ct = "sealed_record L k (sendNoncePrefix ?a) sq (rekey_payload pk act)"
  have fits: "item_fits ?x" and input: "conn_in tB = item_frame L (sendNoncePrefix ?a) ?x @ frames L (sendNoncePrefix ?a) AB"
    using i(7,14) by simp_all
  have room: "room (Suc (Suc 0)) ?b"
    using assms(6) by (simp add: has_room_def numeral_2_eq_2)
  have clear: "clear_of_collision L ?b sq ?ct"
    using unambiguous_clear [OF assms(2,5) fits input, of sq k "rekey_payload pk act" pk act] by simp
  obtain b1 kp ms sc where b: "Decrypt L now ?ct sq ?b = (Inr (rekey_payload pk act), b1)"
    "kem_serves (kemSuite b1) kp" "PublicKey_Bytes (PublicKey kp) = Inr pk" "masterSecret b1 = Some ms" "length ms = 32"
    "core b1 = core ?b" "send_side b1 = send_side ?b" "sendCipher b1 = Some sc"
    "\<And>rt ms' ki kr b2. rekey_answer H (kemSuite b1) kp ms rt ms' \<Longrightarrow> length ms' = 32 \<Longrightarrow> DeriveTrafficKeys H ms' = Inr (ki, kr) \<Longrightarrow>
      length ki = 32 \<Longrightarrow> length kr = 32 \<Longrightarrow> item_fits (IRekey (sendSeq b1) sc rt act) \<Longrightarrow>
      core b2 = (sess_Role b1, SessionStateEstablished, sess_CipherSuite b1, kemSuite b1, Some ms', False, pendingRekeyKeyPair b1) \<Longrightarrow>
      send_side b2 = (Some (fresh_aead (sess_CipherSuite b1) kr), sendSeq b1 + 1, sendSeq b1 + 1, sendNoncePrefix b1) \<Longrightarrow>
      recv_side b2 = (recvCipher b1, Some (fresh_aead (sess_CipherSuite b1) ki), replayWindow b1, recvNoncePrefix b1) \<Longrightarrow>
      ends_ok H L ?a b2 AB (BA @ [IRekey (sendSeq b1) sc rt act]) (Some (fresh_aead (sess_CipherSuite b1) kr))"
    using received_request_B [OF assms(1,2) i(9) refl clear room, where now = now] by blast
  have c: "sess_Role b1 = RoleResponder" "\<not> rekeyInProgress b1" "sess_state b1 = SessionStateEstablished"
      "suite_usable L (sess_CipherSuite b1)" "suite_fits (kemSuite b1)" "room (Suc (Suc 0)) b1" "sendNoncePrefix b1 = sendNoncePrefix ?b"
    using b(6,7) i(12) room by (auto simp: core_def paired_def send_side_def room_def)
  obtain buf where one: "receive_one H L now tB =
    (case take_rekey H L now pk act (tB\<lparr>conn_in := frames L (sendNoncePrefix ?a) AB, readBuf := buf, t_session := b1\<rparr>)
     of (Inl e, t) \<Rightarrow> (Some (Inl e), t) | (Inr _, t) \<Rightarrow> (None, t))"
    by (rule receive_rekey [OF assms(2) fits i(4) input b(1), where H = H])
  define t1 where "t1 = tB\<lparr>conn_in := frames L (sendNoncePrefix ?a) AB, readBuf := buf, t_session := b1\<rparr>"
  have t1: "b1 = t_session t1" "conn_down t1 = None" "has_entropy t1" "conn_out t1 = []" "\<not> t_closed t1"
      "conn_in t1 = frames L (sendNoncePrefix ?a) AB"
    using i(4-6) assms(7) by (simp_all add: t1_def has_entropy_def)
  obtain rt ms' ki kr rand b2 where q: "rekey_answer H (kemSuite b1) kp ms rt ms'" "length ms' = 32" "DeriveTrafficKeys H ms' = Inr (ki, kr)"
    "length ki = 32" "length kr = 32" "item_fits (IRekey (sendSeq b1) sc rt act)"
    "core b2 = (sess_Role b1, SessionStateEstablished, sess_CipherSuite b1, kemSuite b1, Some ms', False, pendingRekeyKeyPair b1)"
    "send_side b2 = (Some (fresh_aead (sess_CipherSuite b1) kr), sendSeq b1 + 1, sendSeq b1 + 1, sendNoncePrefix b1)"
    "recv_side b2 = (recvCipher b1, Some (fresh_aead (sess_CipherSuite b1) ki), replayWindow b1, recvNoncePrefix b1)"
    "answer_request H L now pk act t1 =
    (Inr (), t1\<lparr>t_rand := rand, t_session := b2,
      conn_out := conn_out t1 @ item_frame L (sendNoncePrefix b1) (IRekey (sendSeq b1) sc rt act)\<rparr>)"
    using respond_open [OF assms(1,2) c(5) b(2,3) t1(1) refl b(4,5) c(4,3) b(8) c(6) t1(2,3), where now = now and act = act] by blast
  define t2 where "t2 = t1\<lparr>t_rand := rand, t_session := b2, conn_out := item_frame L (sendNoncePrefix ?b) (IRekey (sendSeq b1) sc rt act)\<rparr>"
  have "receive_one H L now tB = (None, t2)"
    unfolding one t1_def [symmetric] using c(1,2,7) q(10) t1(1,4) by (simp add: take_rekey_def t2_def del: item_frame.simps)
  then have rt: "r = None" "t = t2"
    using assms(4) by simp_all
  have "inv_at H L (fed tA (conn_out t)) (flushed t) AB (BA @ [IRekey (sendSeq b1) sc rt act]) (Some (fresh_aead (sess_CipherSuite b1) kr))"
    using b(9) [OF q(1-9)] t1 c(7) q(8)
    by (intro settle_B [OF assms(3)]) (simp_all add: rt t2_def send_side_def del: item_frame.simps)
  then show ?thesis
    using rt(1) by (intro exI [of _ "[IRekey (sendSeq b1) sc rt act]"] exI [of _ "Some (fresh_aead (sess_CipherSuite b1) kr)"]) simp
qed

lemma recv_response_step_A:
  assumes "cipher_lib_ok L" "inv_at H L tA tB AB (IRekey sq k rt act # BA) np"
    "receive_one H L now tA = (r, t)" "unambiguous L tA"
  shows "\<exists>np'. inv_at H L (flushed t) (fed tB (conn_out t)) AB BA np' \<and> r = None"
proof -
  note i = inv_atD [OF assms(2)]
  let ?a = "t_session tA" and ?b = "t_session tB" and ?x = "IRekey sq k rt act"
  let ?ct = "sealed_record L k (sendNoncePrefix ?b) sq (rekey_payload rt act)"
  have fits: "item_fits ?x" and input: "conn_in tA = item_frame L (sendNoncePrefix ?b) ?x @ frames L (sendNoncePrefix ?b) BA"
    using i(8,15) by simp_all
  have clear: "clear_of_collision L ?a sq ?ct"
    using unambiguous_clear [OF assms(1,4) fits input, of sq k "rekey_payload rt act" rt act] by simp
  obtain a1 where a: "Decrypt L now ?ct sq ?a = (Inr (rekey_payload rt act), a1)" "sess_Role a1 = RoleInitiator" "rekeyInProgress a1"
    "\<And>t. t_session t = a1 \<Longrightarrow> \<exists>a2. on_session (ProcessRekeyResponse H L now rt) t = (Inr (), t\<lparr>t_session := a2\<rparr>) \<and>
      sendNoncePrefix a2 = sendNoncePrefix ?a \<and> ends_ok H L a2 ?b AB BA None"
    using received_response_A [OF assms(1) i(9) refl clear, where now = now] by blast
  obtain buf where one: "receive_one H L now tA =
    (case take_rekey H L now rt act (tA\<lparr>conn_in := frames L (sendNoncePrefix ?b) BA, readBuf := buf, t_session := a1\<rparr>)
     of (Inl e, t) \<Rightarrow> (Some (Inl e), t) | (Inr _, t) \<Rightarrow> (None, t))"
    by (rule receive_rekey [OF assms(1) fits i(1) input a(1), where H = H])
  define t1 where "t1 = tA\<lparr>conn_in := frames L (sendNoncePrefix ?b) BA, readBuf := buf, t_session := a1\<rparr>"
  have t1: "t_session t1 = a1" "conn_down t1 = None" "conn_out t1 = []" "\<not> t_closed t1" "conn_in t1 = frames L (sendNoncePrefix ?b) BA"
    using i(1-3) by (simp_all add: t1_def)
  obtain a2 where a2: "on_session (ProcessRekeyResponse H L now rt) t1 = (Inr (), t1\<lparr>t_session := a2\<rparr>)"
      "sendNoncePrefix a2 = sendNoncePrefix ?a" "ends_ok H L a2 ?b AB BA None"
    using a(4) [OF t1(1)] by blast
  have "receive_one H L now tA = (None, t1\<lparr>t_session := a2\<rparr>)"
    unfolding one t1_def [symmetric] using a(2,3) a2(1) t1(1) by (simp add: take_rekey_def)
  then have rt: "r = None" "t = t1\<lparr>t_session := a2\<rparr>"
    using assms(3) by simp_all
  have "inv_at H L (flushed t) (fed tB (conn_out t)) (AB @ []) BA None"
    using t1 a2 by (intro settle_A [OF assms(2)]) (simp_all add: rt)
  then show ?thesis
    using rt(1) by auto
qed

lemma recv_step_B:
  assumes "hash_lib_ok H" "cipher_lib_ok L" "inv_at H L tA tB AB BA np" "receive_one H L now tB = (r, t)" "conn_in tB \<noteq> []"
    "unambiguous L tB" "has_room tB" "has_entropy tB"
  shows "\<exists>AB' ys np'. inv_at H L (fed tA (conn_out t)) (flushed t) AB' (BA @ ys) np' \<and>
    data_of AB = received r @ data_of AB' \<and> data_of ys = [] \<and> receive_errors r = []"
proof -
  note i = inv_atD [OF assms(3)]
  let ?a = "t_session tA" and ?b = "t_session tB"
  obtain x AB' where x: "AB = x # AB'"
    using assms(5) i(7) by (cases AB) auto
  have fits: "item_fits x" and input: "conn_in tB = item_frame L (sendNoncePrefix ?a) x @ frames L (sendNoncePrefix ?a) AB'"
    using i(7,14) x by simp_all
  show ?thesis
  proof (cases x)
    case (IData sq k pt)
    obtain b' where b: "Decrypt L now (sealed_record L k (sendNoncePrefix ?a) sq pt) sq ?b = (Inr pt, b')"
        "sendNoncePrefix b' = sendNoncePrefix ?b" "ends_ok H L ?a b' AB' BA np"
      using received_data_B [OF assms(2) i(9) [unfolded x IData] refl, where now = now]
        unambiguous_clear [OF assms(2,6) fits input, of sq k pt] IData by auto
    obtain buf where "receive_one H L now tB =
        (Some (Inr pt), tB\<lparr>conn_in := frames L (sendNoncePrefix ?a) AB', readBuf := buf, t_session := b'\<rparr>)"
      using receive_data [OF assms(2) fits [unfolded IData] i(4) input [unfolded IData] b(1)] by blast
    then have "r = Some (Inr pt)" "t = tB\<lparr>conn_in := frames L (sendNoncePrefix ?a) AB', readBuf := buf, t_session := b'\<rparr>"
      using assms(4) by simp_all
    then show ?thesis
      using settle_B [OF assms(3), of t AB' "[]" np] b i x IData
      by (intro exI [of _ AB'] exI [of _ "[]"] exI [of _ np]) (simp add: received_def receive_errors_def)
  next
    case (IRekey sq k pk act)
    then obtain ys np' where "inv_at H L (fed tA (conn_out t)) (flushed t) AB' (BA @ ys) np'" "data_of ys = []" "r = None"
      using recv_request_step_B [OF assms(1,2) assms(3) [unfolded x IRekey] assms(4,6-8)] by blast
    then show ?thesis
      using x IRekey by (intro exI [of _ AB'] exI [of _ ys] exI [of _ np']) (simp add: received_def receive_errors_def)
  next
    case c: IPing
    obtain buf where "receive_one H L now tB = (None, tB\<lparr>conn_in := frames L (sendNoncePrefix ?a) AB', readBuf := buf,
        conn_out := item_frame L (sendNoncePrefix ?b) IPong\<rparr>)"
      using receive_control [OF assms(2) _ i(4,5) input, where H = H and now = now and q = "sendNoncePrefix ?b"] c i(6) by auto
    then show ?thesis
      using settle_B [OF assms(3), of t AB' "[IPong]" np] i x c assms(4)
        sent_control(2) [OF received_control(1) [OF _ i(9) [unfolded x]], of IPong]
      by (intro exI [of _ AB'] exI [of _ "[IPong]"] exI [of _ np]) (auto simp: received_def receive_errors_def)
  next
    case c: IPong
    obtain buf where "receive_one H L now tB = (None, tB\<lparr>conn_in := frames L (sendNoncePrefix ?a) AB', readBuf := buf, conn_out := []\<rparr>)"
      using receive_control [OF assms(2) _ i(4,5) input, where H = H and now = now] c i(6) by auto
    then show ?thesis
      using settle_B [OF assms(3), of t AB' "[]" np] i x c assms(4) received_control(1) [OF _ i(9) [unfolded x]]
      by (intro exI [of _ AB'] exI [of _ "[]"] exI [of _ np]) (auto simp: received_def receive_errors_def)
  qed
qed

lemma recv_step_A:
  assumes "cipher_lib_ok L" "inv_at H L tA tB AB BA np" "receive_one H L now tA = (r, t)" "conn_in tA \<noteq> []" "unambiguous L tA"
  shows "\<exists>BA' ys np'. inv_at H L (flushed t) (fed tB (conn_out t)) (AB @ ys) BA' np' \<and>
    data_of BA = received r @ data_of BA' \<and> data_of ys = [] \<and> receive_errors r = []"
proof -
  note i = inv_atD [OF assms(2)]
  let ?a = "t_session tA" and ?b = "t_session tB"
  obtain x BA' where x: "BA = x # BA'"
    using assms(4) i(8) by (cases BA) auto
  have fits: "item_fits x" and input: "conn_in tA = item_frame L (sendNoncePrefix ?b) x @ frames L (sendNoncePrefix ?b) BA'"
    using i(8,15) x by simp_all
  show ?thesis
  proof (cases x)
    case (IData sq k pt)
    obtain a' where b: "Decrypt L now (sealed_record L k (sendNoncePrefix ?b) sq pt) sq ?a = (Inr pt, a')"
        "sendNoncePrefix a' = sendNoncePrefix ?a" "ends_ok H L a' ?b AB BA' np"
      using received_data_A [OF assms(1) i(9) [unfolded x IData] refl, where now = now]
        unambiguous_clear [OF assms(1,5) fits input, of sq k pt] IData by auto
    obtain buf where "receive_one H L now tA =
        (Some (Inr pt), tA\<lparr>conn_in := frames L (sendNoncePrefix ?b) BA', readBuf := buf, t_session := a'\<rparr>)"
      using receive_data [OF assms(1) fits [unfolded IData] i(1) input [unfolded IData] b(1)] by blast
    then have "r = Some (Inr pt)" "t = tA\<lparr>conn_in := frames L (sendNoncePrefix ?b) BA', readBuf := buf, t_session := a'\<rparr>"
      using assms(3) by simp_all
    then show ?thesis
      using settle_A [OF assms(2), of t BA' "[]" np] b i x IData
      by (intro exI [of _ BA'] exI [of _ "[]"] exI [of _ np]) (simp add: received_def receive_errors_def)
  next
    case (IRekey sq k rt act)
    then obtain np' where "inv_at H L (flushed t) (fed tB (conn_out t)) AB BA' np'" "r = None"
      using recv_response_step_A [OF assms(1) assms(2) [unfolded x IRekey] assms(3,5)] by blast
    then show ?thesis
      using x IRekey by (intro exI [of _ BA'] exI [of _ "[]"] exI [of _ np']) (simp add: received_def receive_errors_def)
  next
    case c: IPing
    obtain buf where "receive_one H L now tA = (None, tA\<lparr>conn_in := frames L (sendNoncePrefix ?b) BA', readBuf := buf,
        conn_out := item_frame L (sendNoncePrefix ?a) IPong\<rparr>)"
      using receive_control [OF assms(1) _ i(1,2) input, where H = H and now = now and q = "sendNoncePrefix ?a"] c i(3) by auto
    then show ?thesis
      using settle_A [OF assms(2), of t BA' "[IPong]" np] i x c assms(3)
        sent_control(1) [OF received_control(2) [OF _ i(9) [unfolded x]], of IPong]
      by (intro exI [of _ BA'] exI [of _ "[IPong]"] exI [of _ np]) (auto simp: received_def receive_errors_def)
  next
    case c: IPong
    obtain buf where "receive_one H L now tA = (None, tA\<lparr>conn_in := frames L (sendNoncePrefix ?b) BA', readBuf := buf, conn_out := []\<rparr>)"
      using receive_control [OF assms(1) _ i(1,2) input, where H = H and now = now] c i(3) by auto
    then show ?thesis
      using settle_A [OF assms(2), of t BA' "[]" np] i x c assms(3) received_control(2) [OF _ i(9) [unfolded x]]
      by (intro exI [of _ BA'] exI [of _ "[]"] exI [of _ np]) (auto simp: received_def receive_errors_def)
  qed
qed

section \<open>Reachable states\<close>

lemma net_inv_step:
  assumes "hash_lib_ok H" "cipher_lib_ok L" "net_step H L n m" "net_inv H L n"
  shows "net_inv H L m"
proof -
  obtain AB BA np where i: "inv_at H L (endA n) (endB n) AB BA np" "sentA n = gotB n @ data_of AB"
      "sentB n = gotA n @ data_of BA" "faults n = []"
    using assms(4) by (auto simp: net_inv_def)
  show ?thesis
    using assms(3)
  proof cases
    case (send_A now d r t)
    then obtain ys np' where "inv_at H L (flushed t) (fed (endB n) (conn_out t)) (AB @ ys) BA np'" "data_of ys = accepted r d"
      using send_step_A [OF assms(2) i(1)] by blast
    then show ?thesis
      unfolding net_inv_def using i send_A(1) by (intro exI [of _ "AB @ ys"] exI [of _ BA] exI [of _ np']) (simp add: flushA_def)
  next
    case (send_B now d r t)
    then obtain ys where "inv_at H L (fed (endA n) (conn_out t)) (flushed t) AB (BA @ ys) np" "data_of ys = accepted r d"
      using send_step_B [OF assms(2) i(1)] by blast
    then show ?thesis
      unfolding net_inv_def using i send_B(1) by (intro exI [of _ AB] exI [of _ "BA @ ys"] exI [of _ np]) (simp add: flushB_def)
  next
    case (rekey_A now r t)
    then obtain ys np' where "inv_at H L (flushed t) (fed (endB n) (conn_out t)) (AB @ ys) BA np'" "data_of ys = []"
      using rekey_step_A [OF assms(2) i(1), of now r t 1] by (auto simp: has_room_def numeral_2_eq_2)
    then show ?thesis
      unfolding net_inv_def using i rekey_A(1) by (intro exI [of _ "AB @ ys"] exI [of _ BA] exI [of _ np']) (simp add: flushA_def)
  next
    case (ping_A r t)
    then show ?thesis
      unfolding net_inv_def using i ping_step_A [OF i(1) ping_A(2)]
      by (intro exI [of _ "AB @ [IPing]"] exI [of _ BA] exI [of _ np]) (simp add: flushA_def)
  next
    case (ping_B r t)
    then show ?thesis
      unfolding net_inv_def using i ping_step_B [OF i(1) ping_B(2)]
      by (intro exI [of _ AB] exI [of _ "BA @ [IPing]"] exI [of _ np]) (simp add: flushB_def)
  next
    case (recv_A now r t)
    then obtain BA' ys np' where "inv_at H L (flushed t) (fed (endB n) (conn_out t)) (AB @ ys) BA' np'"
        "data_of BA = received r @ data_of BA'" "data_of ys = []" "receive_errors r = []"
      using recv_step_A [OF assms(2) i(1)] by blast
    then show ?thesis
      unfolding net_inv_def using i recv_A(1) by (intro exI [of _ "AB @ ys"] exI [of _ BA'] exI [of _ np']) (simp add: flushA_def)
  next
    case (recv_B now r t)
    then obtain AB' ys np' where "inv_at H L (fed (endA n) (conn_out t)) (flushed t) AB' (BA @ ys) np'"
        "data_of AB = received r @ data_of AB'" "data_of ys = []" "receive_errors r = []"
      using recv_step_B [OF assms(1,2) i(1)] by blast
    then show ?thesis
      unfolding net_inv_def using i recv_B(1) by (intro exI [of _ AB'] exI [of _ "BA @ ys"] exI [of _ np']) (simp add: flushB_def)
  qed
qed

lemma net_inv_reachable:
  "net_reachable H L n0 n \<Longrightarrow> hash_lib_ok H \<Longrightarrow> cipher_lib_ok L \<Longrightarrow> net_inv H L n0 \<Longrightarrow> net_inv H L n"
  by (induction rule: net_reachable.induct) (auto intro: net_inv_step)

lemma net_inv_delivery:
  assumes "cipher_lib_ok L" "net_inv H L n"
  shows "faults n = []" "\<exists>x. sentA n = gotB n @ x" "\<exists>x. sentB n = gotA n @ x"
    "conn_in (endB n) = [] \<Longrightarrow> gotB n = sentA n" "conn_in (endA n) = [] \<Longrightarrow> gotA n = sentB n"
proof -
  obtain AB BA np where i: "inv_at H L (endA n) (endB n) AB BA np" "sentA n = gotB n @ data_of AB"
      "sentB n = gotA n @ data_of BA" "faults n = []"
    using assms(2) by (auto simp: net_inv_def)
  note d = inv_atD [OF i(1)]
  have ne: "item_fits x \<Longrightarrow> item_frame L p x \<noteq> []" for x p
    using item_frame_wf(1) [OF assms(1), of x p] by (auto simp: wf_frame_def HeaderSize_def)
  have "frames L p xs = [] \<Longrightarrow> list_all item_fits xs \<Longrightarrow> data_of xs = []" for p xs
    using ne by (cases xs) auto
  then show "faults n = []" "\<exists>x. sentA n = gotB n @ x" "\<exists>x. sentB n = gotA n @ x"
    "conn_in (endB n) = [] \<Longrightarrow> gotB n = sentA n" "conn_in (endA n) = [] \<Longrightarrow> gotA n = sentB n"
    using i d(7,8,14,15) by auto
qed

text \<open>Two sessions that took the same master secret and cipher suite, each in its own transport.\<close>

definition fresh_end :: "role \<Rightarrow> kem_suite \<Rightarrow> session \<Rightarrow> bool" where
  "fresh_end r S s \<longleftrightarrow> sess_Role s = r \<and> kemSuite s = S \<and> sess_state s \<noteq> SessionStateClosed \<and> sendSeq s = 0 \<and>
     replayWindow s = NewReplayWindow \<and> pendingRecvCipher s = None \<and> \<not> rekeyInProgress s"

definition joined :: "transport \<Rightarrow> transport \<Rightarrow> stream_net" where
  "joined tA tB = \<lparr>endA = tA, endB = tB, sentA = [], sentB = [], gotA = [], gotB = [], faults = []\<rparr>"

lemma GetSuite_fits:
  assumes "hash_lib_ok H" "kem_lib_ok K" "GetSuite H K sid = Some S"
  shows "suite_fits S"
  using GetSuite_correct [OF assms] assms(3)
  by (auto simp: suite_fits_def chkemV1_def xwingSuite_def kem_sizes MaxPayloadSize_def elim!: GetSuite_cases)

lemma keyed_end:
  assumes "hash_lib_ok H" "length ms = 32" "suite_usable L cs" "fresh_end r S s0" "InitializeKeys H L now ms cs s0 = (Inr (), s)"
  obtains ki kr pi pr where "DeriveTrafficKeys H ms = Inr (ki, kr)" "DeriveStreamNoncePrefixes H ms = Inr (pi, pr)"
    "core s = (r, SessionStateEstablished, cs, S, Some ms, False, pendingRekeyKeyPair s0)"
    "send_side s = (Some (fresh_aead cs (fst (by_role r (ki, kr)))), 0, 0, fst (by_role r (pi, pr)))"
    "recv_side s = (Some (fresh_aead cs (snd (by_role r (ki, kr)))), None, NewReplayWindow, snd (by_role r (pi, pr)))"
proof -
  have c: "sess_state s0 \<noteq> SessionStateClosed" "sess_Role s0 = r" "kemSuite s0 = S" "sendSeq s0 = 0"
      "replayWindow s0 = NewReplayWindow" "pendingRecvCipher s0 = None" "\<not> rekeyInProgress s0"
    using assms(4) by (simp_all add: fresh_end_def)
  obtain ki kr pi pr where k: "DeriveTrafficKeys H ms = Inr (ki, kr)" "DeriveStreamNoncePrefixes H ms = Inr (pi, pr)"
    "s = s0\<lparr>masterSecret := Some ms, sess_CipherSuite := cs, sendCipher := Some (fresh_aead cs (fst (by_role r (ki, kr)))),
      recvCipher := Some (fresh_aead cs (snd (by_role r (ki, kr)))), sendNoncePrefix := fst (by_role r (pi, pr)),
      recvNoncePrefix := snd (by_role r (pi, pr)), sendEpochStartSeq := 0, EstablishedAt := now, sess_state := SessionStateEstablished\<rparr>"
    using InitializeKeys_ok [OF assms(1-3) c(1), of now, unfolded c(2,4) assms(5)] by blast
  show ?thesis
    by (rule that [OF k(1,2)]) (simp_all add: k(3) sides c)
qed

lemma joined_inv:
  assumes "hash_lib_ok H" "suite_fits S" "length ms = 32" "suite_usable L cs"
    and "fresh_end RoleInitiator S a0" "InitializeKeys H L now ms cs a0 = (Inr (), a)"
    and "fresh_end RoleResponder S b0" "InitializeKeys H L now' ms cs b0 = (Inr (), b)"
    and "NewTransport a [] randA = Inr tA" "NewTransport b [] randB = Inr tB"
  shows "net_inv H L (joined tA tB)"
proof -
  obtain ki kr pi pr where a: "DeriveTrafficKeys H ms = Inr (ki, kr)" "DeriveStreamNoncePrefixes H ms = Inr (pi, pr)"
    "core a = (RoleInitiator, SessionStateEstablished, cs, S, Some ms, False, pendingRekeyKeyPair a0)"
    "send_side a = (Some (fresh_aead cs (fst (by_role RoleInitiator (ki, kr)))), 0, 0, fst (by_role RoleInitiator (pi, pr)))"
    "recv_side a = (Some (fresh_aead cs (snd (by_role RoleInitiator (ki, kr)))), None, NewReplayWindow, snd (by_role RoleInitiator (pi, pr)))"
    by (rule keyed_end [OF assms(1,3,4,5,6)])
  have b: "core b = (RoleResponder, SessionStateEstablished, cs, S, Some ms, False, pendingRekeyKeyPair b0)"
    "send_side b = (Some (fresh_aead cs (fst (by_role RoleResponder (ki, kr)))), 0, 0, fst (by_role RoleResponder (pi, pr)))"
    "recv_side b = (Some (fresh_aead cs (snd (by_role RoleResponder (ki, kr)))), None, NewReplayWindow, snd (by_role RoleResponder (pi, pr)))"
    by (rule keyed_end [OF assms(1,3,4,7,8)]; use a(1,2) in simp)+
  have w: "seqs_ahead NewReplayWindow [] 0"
    using default_window_rel(2) by (auto simp: seqs_ahead_def)
  have "link a b [] None" "link b a [] None"
    using a(4,5) b(2,3) w by (auto simp: link_def sides by_role_def)
  moreover have "paired L a b" "idle a b [] []"
    using a(3) b(1) assms(2-4) by (auto simp: paired_def idle_def core_def)
  ultimately have "ends_ok H L a b [] [] None"
    by (simp add: ends_ok_def phase_def)
  moreover have "t_session tA = a" "t_session tB = b" "open_conn tA" "open_conn tB" "conn_in tA = []" "conn_in tB = []"
    using assms(9,10) by (auto simp: NewTransport_def result_simps open_conn_def)
  ultimately have "inv_at H L tA tB [] [] None"
    by (simp add: inv_at_def)
  then show ?thesis
    unfolding net_inv_def joined_def by (intro exI [of _ "[]"] exI [of _ None]) simp
qed

section \<open>Properties\<close>

text \<open>
  C2: Two transports whose sessions took the same master secret and cipher suite, over a registered KEM
  suite, deliver.  In every state reached by any interleaving of \<open>Send\<close>, \<open>SendPing\<close>, explicit and
  automatic rekeys, and receive-loop iterations at both ends, no receive has failed, each end has
  received a prefix of what the other end's \<open>Send\<close> accepted, in order, unaltered and without repetition,
  and when nothing is in flight it has received all of it.
\<close>

theorem stream_delivery:
  assumes "hash_lib_ok H" "cipher_lib_ok L" "kem_lib_ok K" "GetSuite H K sid = Some S" "length ms = 32" "suite_usable L cs"
    and "fresh_end RoleInitiator S a0" "InitializeKeys H L now ms cs a0 = (Inr (), a)" "NewTransport a [] randA = Inr tA"
    and "fresh_end RoleResponder S b0" "InitializeKeys H L now' ms cs b0 = (Inr (), b)" "NewTransport b [] randB = Inr tB"
    and "net_reachable H L (joined tA tB) n"
  shows "faults n = [] \<and> (\<exists>x. sentA n = gotB n @ x) \<and> (\<exists>x. sentB n = gotA n @ x) \<and>
    (conn_in (endB n) = [] \<longrightarrow> gotB n = sentA n) \<and> (conn_in (endA n) = [] \<longrightarrow> gotA n = sentB n)"
proof -
  have "net_inv H L (joined tA tB)"
    by (rule joined_inv [OF assms(1) GetSuite_fits [OF assms(1,3,4)] assms(5,6,7,8,10,11,9,12)])
  then have "net_inv H L n"
    by (rule net_inv_reachable [OF assms(13,1,2)])
  then show ?thesis
    using net_inv_delivery [OF assms(2)] by blast
qed

lemma sample_keyed:
  "InitializeKeys zero_hash_lib tag_cipher_lib 1 (replicate 32 7) CipherSuiteAES256GCM
     (blank_session [] r (chkemV1 zero_hash_lib toy_kem_lib) None 0) = (Inr (), sample_session r)"
  "fresh_end r (chkemV1 zero_hash_lib toy_kem_lib) (blank_session [] r (chkemV1 zero_hash_lib toy_kem_lib) None 0)"
proof -
  have b: "sess_state (blank_session [] r (chkemV1 zero_hash_lib toy_kem_lib) None 0) \<noteq> SessionStateClosed"
    by (simp add: blank_session_def)
  show "InitializeKeys zero_hash_lib tag_cipher_lib 1 (replicate 32 7) CipherSuiteAES256GCM
     (blank_session [] r (chkemV1 zero_hash_lib toy_kem_lib) None 0) = (Inr (), sample_session r)"
    unfolding sample_session_def
    using InitializeKeys_ok [OF zero_hash_lib_ok _ tag_suite_usable b, of "replicate 32 7" 1] by auto
  show "fresh_end r (chkemV1 zero_hash_lib toy_kem_lib) (blank_session [] r (chkemV1 zero_hash_lib toy_kem_lib) None 0)"
    by (simp add: fresh_end_def blank_session_def)
qed

definition sample_transport :: "role \<Rightarrow> transport" where
  "sample_transport r = \<lparr>t_session = sample_session r, t_closed = False, readBuf = [], conn_in = [], conn_out = [],
     conn_down = None, t_rand = [replicate 96 1]\<rparr>"

lemma sample_transport_new: "NewTransport (sample_session r) [] [replicate 96 1] = Inr (sample_transport r)"
  by (simp add: NewTransport_def sample_transport_def sample_session_fields)

lemma sample_send:
  "\<exists>n. net_reachable zero_hash_lib tag_cipher_lib (joined (sample_transport RoleInitiator) (sample_transport RoleResponder)) n \<and>
     sentA n = [[1, 2]]"
proof -
  let ?t = "sample_transport RoleInitiator"
  obtain c where c: "sendCipher (t_session ?t) = Some c"
    using sample_session_fields(9) by (auto simp: sample_transport_def)
  have room: "room (Suc (Suc 0)) (t_session ?t)"
    by (simp add: sample_transport_def sample_session_fields room_def)
  obtain t1 where w: "sealAndWrite tag_cipher_lib 2 [1, 2] ?t = (Inr (), t1)" "t_session t1 = sent 2 [1, 2] (t_session ?t)"
    using sealAndWrite_open [OF tag_cipher_lib_ok c room, of 2 "[1, 2]"]
    by (auto simp: sample_transport_def Let_def MaxPayloadSize_def)
  have f: "BytesSent (sample_session RoleInitiator) = 0" "PacketsSent (sample_session RoleInitiator) = 0"
      "EstablishedAt (sample_session RoleInitiator) = 1"
    using sample_session_eq [of RoleInitiator] by (auto simp: blank_session_def)
  have "\<not> f64_le (f64_of_int (int MaxSessionDurationSeconds)) (duration_Seconds 1)"
    using duration_Seconds_ge [of 1 3600] f64_of_int_exact [of 3600] by (simp add: constant_defs)
  then have "\<not> NeedsRekey 2 (t_session t1)"
    unfolding w(2) by (simp add: time_Sub_def NeedsRekey_def sent_def sample_transport_def f sample_session_fields constant_defs datagramRekeyHighWater_def
        word_le_nat_alt)
  then have s: "transport_Send tag_cipher_lib 2 [1, 2] ?t = (Inr (), t1)"
    using w(1) by (simp add: transport_Send_def sample_transport_def MaxPayloadSize_def CheckAndRekey_def)
  have "has_room ?t" "has_entropy ?t"
    using room by (simp_all add: has_room_def numeral_2_eq_2 has_entropy_def sample_transport_def)
  then show ?thesis
    using net_reachable.step [OF net_reachable.start net_step.send_A [of tag_cipher_lib 2 "[1, 2]"
          "joined ?t (sample_transport RoleResponder)" "Inr ()" t1]] s
    by (intro exI conjI) (auto simp: joined_def flushA_def accepted_def)
qed

theorem stream_delivery_witness:
  "\<exists>n. net_reachable zero_hash_lib tag_cipher_lib (joined (sample_transport RoleInitiator) (sample_transport RoleResponder)) n \<and>
     sentA n = [[1, 2]] \<and> faults n = [] \<and> (\<exists>x. sentA n = gotB n @ x) \<and> (conn_in (endA n) = [] \<longrightarrow> gotA n = sentB n)"
proof -
  obtain n where n: "net_reachable zero_hash_lib tag_cipher_lib (joined (sample_transport RoleInitiator) (sample_transport RoleResponder)) n"
      "sentA n = [[1, 2]]"
    using sample_send by blast
  have g: "GetSuite zero_hash_lib toy_kem_lib SuiteCHKEMv1 = Some (chkemV1 zero_hash_lib toy_kem_lib)" "length (replicate 32 (7 :: byte)) = 32"
    by (simp_all add: GetSuite_def)
  show ?thesis
    using stream_delivery [OF zero_hash_lib_ok tag_cipher_lib_ok toy_kem_lib_ok g tag_suite_usable sample_keyed(2,1) sample_transport_new
        sample_keyed(2,1) sample_transport_new n(1)] n by blast
qed

end
