(* ===== verification/Dgram_Session.thy ===== *)
theory Dgram_Session
  imports Session Reassembly
begin

text \<open>
  The datagram half of a session: pkg/tunnel/dgram_session.go, its in-place variants in
  dgram_session_inplace.go, and the session part of the rekey sub-handshake in dgram_rekey.go.  The
  explicit epoch byte of a frame selects the receive cipher.  \<open>time.Now()\<close> and the coarse clock that
  stamps the last activity are arguments.  A nil dereference is \<open>Panic\<close>.

  Shown: the in-place variants compute the allocating ones, a rekey exchange leaves both ends on the
  next epoch with matching ciphers while packets of the old epoch keep opening for the retain time,
  and what happens when an answer to an earlier rekey attempt is delivered to a later one.
\<close>

section \<open>Keys and epochs\<close>

definition deriveDatagramCiphers :: "hash_lib \<Rightarrow> cipher_lib \<Rightarrow> role \<Rightarrow> bytes \<Rightarrow> cipher_suite \<Rightarrow> (aead \<times> aead) res" where
  "deriveDatagramCiphers H L r ms cs =
     bindR (DeriveTrafficKeys H ms) (\<lambda>keys.
     case by_role r keys of (sendKey, recvKey) \<Rightarrow>
     bindR (NewAEAD L cs sendKey) (\<lambda>send.
     bindR (NewAEAD L cs recvKey) (\<lambda>recv.
     Inr (send, recv))))"

definition InitializeDatagramKeys ::
    "hash_lib \<Rightarrow> cipher_lib \<Rightarrow> int \<Rightarrow> bytes \<Rightarrow> cipher_suite \<Rightarrow> session \<Rightarrow> unit res \<times> session" where
  "InitializeDatagramKeys H L now ms cs s =
     rejectS (sess_state s = SessionStateClosed) ErrTunnelClosed s (
     rejectS (length ms \<noteq> CHKEMSharedSecretSize) ErrInvalidKeySize s (
     let s = s\<lparr>masterSecret := Some ms, sess_CipherSuite := cs\<rparr> in
     tryS s (deriveDatagramCiphers H L (sess_Role s) ms cs) (\<lambda>(send, recv).
     tryS s (DeriveDatagramNoncePrefixes H ms) (\<lambda>prefixes.
     let (sp, rp) = by_role (sess_Role s) prefixes in
     (Inr (), s\<lparr>sendNoncePrefix := sp, recvNoncePrefix := rp, sendCipher := Some send, recvCipher := Some recv,
        dgramEpochs := Some \<lparr>es_cur = Some \<lparr>ep_epoch = 0, ep_sendCipher = Some send, ep_recvCipher = Some recv,
          startSeq = 0, startedAt = now, retireAfter = 0\<rparr>, es_prev = None\<rparr>,
        dgramReplay := Some NewDatagramReplayWindow, lastActivityNanos := now,
        EstablishedAt := now, sess_state := SessionStateEstablished\<rparr>)))))"

definition nextDatagramSeq :: "session \<Rightarrow> u64 \<times> session" where
  "nextDatagramSeq s = (sendSeq s, s\<lparr>sendSeq := sendSeq s + 1\<rparr>)"

text \<open>The field access \<open>s.dgramEpochs.cur\<close>.\<close>

definition currentEpoch :: "session \<Rightarrow> datagram_epoch option res" where
  "currentEpoch s = (case dgramEpochs s of None \<Rightarrow> Inl Panic | Some es \<Rightarrow> Inr (es_cur es))"

definition datagramSendEpoch :: "session \<Rightarrow> byte res" where
  "datagramSendEpoch s =
     bindR (currentEpoch s) (\<lambda>cur. case cur of None \<Rightarrow> Inl Panic | Some e \<Rightarrow> Inr (ep_epoch e))"

definition datagramRecvCipherLocked :: "int \<Rightarrow> byte \<Rightarrow> session \<Rightarrow> aead option" where
  "datagramRecvCipherLocked now epoch s =
     (case dgramEpochs s of None \<Rightarrow> None
      | Some es \<Rightarrow>
        (case es_cur es of
           Some e \<Rightarrow>
             if ep_epoch e = epoch then ep_recvCipher e
             else (case es_prev es of
                     Some p \<Rightarrow> if ep_epoch p = epoch \<and> now < retireAfter p then ep_recvCipher p else None
                   | None \<Rightarrow> None)
         | None \<Rightarrow>
             (case es_prev es of
                Some p \<Rightarrow> if ep_epoch p = epoch \<and> now < retireAfter p then ep_recvCipher p else None
              | None \<Rightarrow> None)))"

definition AdvanceDatagramEpoch :: "hash_lib \<Rightarrow> cipher_lib \<Rightarrow> int \<Rightarrow> bytes \<Rightarrow> session \<Rightarrow> byte res \<times> session" where
  "AdvanceDatagramEpoch H L now newSecret s =
     rejectS (length newSecret \<noteq> CHKEMSharedSecretSize) ErrInvalidKeySize s (
     case dgramEpochs s of None \<Rightarrow> (failR ErrInvalidState, s)
     | Some es \<Rightarrow> (case es_cur es of None \<Rightarrow> (failR ErrInvalidState, s)
     | Some old \<Rightarrow>
       tryS s (deriveDatagramCiphers H L (sess_Role s) newSecret (sess_CipherSuite s)) (\<lambda>(send, recv).
       let old = old\<lparr>retireAfter := now + int DatagramPrevEpochRetainSeconds * 1000000000\<rparr>;
           newEpoch = ep_epoch old + 1
       in (Inr newEpoch, s\<lparr>dgramEpochs := Some \<lparr>es_cur = Some \<lparr>ep_epoch = newEpoch, ep_sendCipher = Some send,
             ep_recvCipher = Some recv, startSeq = sendSeq s, startedAt = now, retireAfter = 0\<rparr>, es_prev = Some old\<rparr>,
           masterSecret := Some newSecret, sendCipher := Some send, recvCipher := Some recv\<rparr>))))"

section \<open>Sealing and opening frames\<close>

definition DatagramSeal :: "cipher_lib \<Rightarrow> int \<Rightarrow> bytes \<Rightarrow> u64 \<Rightarrow> bytes \<Rightarrow> session \<Rightarrow> bytes res \<times> session" where
  "DatagramSeal L coarse aad sq plaintext s =
     tryS s (currentEpoch s) (\<lambda>cur.
     case cur of None \<Rightarrow> (failR ErrInvalidState, s)
     | Some e \<Rightarrow> (case ep_sendCipher e of None \<Rightarrow> (failR ErrInvalidState, s)
     | Some cipher \<Rightarrow>
       rejectS (sq - startSeq e \<ge> word_of_nat MaxPacketsBeforeRekey) ErrNonceExhausted s (
       tryS s (SealWithNonce L cipher (buildAEADNonce (sendNoncePrefix s) sq) plaintext aad) (\<lambda>ct.
       (Inr ct, s\<lparr>lastActivityNanos := coarse\<rparr>)))))"

definition DatagramOpen :: "cipher_lib \<Rightarrow> int \<Rightarrow> int \<Rightarrow> byte \<Rightarrow> u64 \<Rightarrow> bytes \<Rightarrow> bytes \<Rightarrow> session \<Rightarrow> bytes res \<times> session" where
  "DatagramOpen L now coarse epoch sq ciphertext aad s =
     (case datagramRecvCipherLocked now epoch s of None \<Rightarrow> (failR ErrAuthenticationFailed, s)
      | Some cipher \<Rightarrow>
        tryS s (OpenWithNonce L cipher (buildAEADNonce (recvNoncePrefix s) sq) ciphertext aad) (\<lambda>pt.
        (Inr pt, s\<lparr>lastActivityNanos := coarse\<rparr>)))"

definition DatagramSealTo :: "cipher_lib \<Rightarrow> int \<Rightarrow> bytes \<Rightarrow> bytes \<Rightarrow> u64 \<Rightarrow> bytes \<Rightarrow> session \<Rightarrow> bytes res \<times> session" where
  "DatagramSealTo L coarse dst aad sq plaintext s =
     tryS s (currentEpoch s) (\<lambda>cur.
     case cur of None \<Rightarrow> (failR ErrInvalidState, s)
     | Some e \<Rightarrow> (case ep_sendCipher e of None \<Rightarrow> (failR ErrInvalidState, s)
     | Some cipher \<Rightarrow>
       rejectS (sq - startSeq e \<ge> word_of_nat MaxPacketsBeforeRekey) ErrNonceExhausted s (
       tryS s (SealWithNonceTo L cipher dst (buildAEADNonce (sendNoncePrefix s) sq) plaintext aad) (\<lambda>out.
       (Inr out, s\<lparr>lastActivityNanos := coarse\<rparr>)))))"

definition DatagramOpenTo ::
    "cipher_lib \<Rightarrow> int \<Rightarrow> int \<Rightarrow> bytes \<Rightarrow> byte \<Rightarrow> u64 \<Rightarrow> bytes \<Rightarrow> bytes \<Rightarrow> session \<Rightarrow> bytes res \<times> session" where
  "DatagramOpenTo L now coarse dst epoch sq ciphertext aad s =
     (case datagramRecvCipherLocked now epoch s of None \<Rightarrow> (failR ErrAuthenticationFailed, s)
      | Some cipher \<Rightarrow>
        tryS s (OpenWithNonceTo L cipher dst (buildAEADNonce (recvNoncePrefix s) sq) ciphertext aad) (\<lambda>pt.
        (Inr pt, s\<lparr>lastActivityNanos := coarse\<rparr>)))"

section \<open>Rekey control messages\<close>

definition datagramRekeyDue :: "int \<Rightarrow> u64 \<Rightarrow> session \<Rightarrow> bool res" where
  "datagramRekeyDue now sq s =
     bindR (currentEpoch s) (\<lambda>cur.
     Inr (case cur of None \<Rightarrow> False
          | Some e \<Rightarrow> sq - startSeq e \<ge> datagramRekeyHighWater \<or>
              time_Sub now (startedAt e) \<ge> int MaxSessionDurationSeconds * 1000000000))"

definition rekeyAAD :: "byte \<Rightarrow> byte \<Rightarrow> u64 \<Rightarrow> bytes" where
  "rekeyAAD msgType epoch sq = [msgType, epoch] @ put_u64 sq"

definition sealRekeyControl :: "cipher_lib \<Rightarrow> byte \<Rightarrow> bytes \<Rightarrow> session \<Rightarrow> (bytes \<times> byte) res \<times> session" where
  "sealRekeyControl L msgType payload s =
     (case nextDatagramSeq s of (sq, s) \<Rightarrow>
      tryS s (currentEpoch s) (\<lambda>cur.
      case cur of None \<Rightarrow> (failR ErrInvalidState, s)
      | Some e \<Rightarrow> (case ep_sendCipher e of None \<Rightarrow> (failR ErrInvalidState, s)
      | Some cipher \<Rightarrow>
        tryS s (SealWithNonce L cipher (buildAEADNonce (sendNoncePrefix s) sq) payload (rekeyAAD msgType (ep_epoch e) sq)) (\<lambda>ct.
        (Inr (put_u64 sq @ ct, ep_epoch e), s)))))"

definition openRekeyControl :: "cipher_lib \<Rightarrow> int \<Rightarrow> byte \<Rightarrow> byte \<Rightarrow> bytes \<Rightarrow> session \<Rightarrow> bytes res" where
  "openRekeyControl L now msgType epoch body s =
     guardR (length body < 8) ErrInvalidMessage (
     let sq = get_u64 body in
     case datagramRecvCipherLocked now epoch s of None \<Rightarrow> failR ErrAuthenticationFailed
     | Some cipher \<Rightarrow>
       OpenWithNonce L cipher (buildAEADNonce (recvNoncePrefix s) sq) (drop 8 body) (rekeyAAD msgType epoch sq))"

definition deriveNextDatagramSecret :: "hash_lib \<Rightarrow> bytes \<Rightarrow> session \<Rightarrow> bytes res" where
  "deriveNextDatagramSecret H secret s = DeriveRekeySecret H (nil_bytes (masterSecret s)) secret"

definition buildDatagramRekeyInit :: "cipher_lib \<Rightarrow> key_pair \<Rightarrow> session \<Rightarrow> (bytes \<times> byte) res \<times> session" where
  "buildDatagramRekeyInit L kp s =
     tryS s (PublicKey_Bytes (PublicKey kp)) (\<lambda>pk. sealRekeyControl L MessageTypeDatagramRekeyInit pk s)"

definition respondToDatagramRekey ::
    "hash_lib \<Rightarrow> cipher_lib \<Rightarrow> int \<Rightarrow> entropy \<Rightarrow> byte \<Rightarrow> bytes \<Rightarrow> session \<Rightarrow> (bytes \<times> byte) res \<times> session" where
  "respondToDatagramRekey H L now tape epoch initBody s =
     tryS s (openRekeyControl L now MessageTypeDatagramRekeyInit epoch initBody s) (\<lambda>pubBytes.
     tryS s (suite_ParsePublicKey (kemSuite s) pubBytes) (\<lambda>pub.
     tryS s (suite_Encapsulate (kemSuite s) tape (Some pub) KemRoleResponder) (\<lambda>(ct, fresh).
     bindS (sealRekeyControl L MessageTypeDatagramRekeyResponse (Ciphertext_Bytes ct) s) (\<lambda>(respBody, respEpoch) s.
     tryS s (deriveNextDatagramSecret H fresh s) (\<lambda>newSecret.
     bindS (AdvanceDatagramEpoch H L now newSecret s) (\<lambda>_ s.
     (Inr (respBody, respEpoch), s)))))))"

definition completeDatagramRekey ::
    "hash_lib \<Rightarrow> cipher_lib \<Rightarrow> int \<Rightarrow> byte \<Rightarrow> bytes \<Rightarrow> key_pair \<Rightarrow> session \<Rightarrow> unit res \<times> session" where
  "completeDatagramRekey H L now epoch respBody kp s =
     tryS s (openRekeyControl L now MessageTypeDatagramRekeyResponse epoch respBody s) (\<lambda>ctBytes.
     tryS s (suite_ParseCiphertext (kemSuite s) ctBytes) (\<lambda>ct.
     tryS s (suite_Decapsulate (kemSuite s) (Some ct) (Some kp) KemRoleInitiator) (\<lambda>fresh.
     tryS s (deriveNextDatagramSecret H fresh s) (\<lambda>newSecret.
     bindS (AdvanceDatagramEpoch H L now newSecret s) (\<lambda>_ s.
     (Inr (), s))))))"

definition fragmentRekey :: "u32 \<Rightarrow> u32 \<Rightarrow> byte \<Rightarrow> byte \<Rightarrow> bytes \<Rightarrow> bool \<Rightarrow> bytes list res" where
  "fragmentRekey peerIndex index epoch msgType body pad =
     fragmentHandshake \<lparr>dh_Type = DatagramFrameHandshake, dh_Epoch = epoch, dh_RecvIndex = peerIndex, dh_Seq = 0,
       hh_SenderIndex = index, hh_MsgType = msgType, hh_FragOffset = 0, hh_FragLength = 0, hh_TotalLength = 0,
       hh_Cookie = []\<rparr> body pad"

section \<open>Two ends in step\<close>

text \<open>An initiator and a responder on the same epoch, each one's send cipher the other's receive cipher.\<close>

definition cur_epoch :: "session \<Rightarrow> datagram_epoch option" where
  "cur_epoch s = (case dgramEpochs s of None \<Rightarrow> None | Some es \<Rightarrow> es_cur es)"

definition epochs_match :: "datagram_epoch \<Rightarrow> datagram_epoch \<Rightarrow> bool" where
  "epochs_match e f \<longleftrightarrow> ep_epoch e = ep_epoch f \<and> (\<exists>c d. ep_sendCipher e = Some c \<and> ep_recvCipher f = Some c \<and>
     ep_sendCipher f = Some d \<and> ep_recvCipher e = Some d)"

definition dgram_synced :: "cipher_lib \<Rightarrow> session \<Rightarrow> session \<Rightarrow> bool" where
  "dgram_synced L a b \<longleftrightarrow> sess_Role a = RoleInitiator \<and> sess_Role b = RoleResponder \<and>
     (\<exists>e f. cur_epoch a = Some e \<and> cur_epoch b = Some f \<and> epochs_match e f) \<and>
     recvNoncePrefix b = sendNoncePrefix a \<and> recvNoncePrefix a = sendNoncePrefix b \<and>
     (\<exists>ms. masterSecret a = Some ms \<and> masterSecret b = Some ms \<and> length ms = 32) \<and>
     kemSuite b = kemSuite a \<and> kem_correct (kemSuite a) \<and>
     sess_CipherSuite b = sess_CipherSuite a \<and> suite_usable L (sess_CipherSuite a)"

lemma currentEpoch_cur: "cur_epoch s = Some e \<Longrightarrow> currentEpoch s = Inr (Some e)"
  by (auto simp: cur_epoch_def currentEpoch_def split: option.splits)

lemma recvCipher_cur: "cur_epoch s = Some e \<Longrightarrow> datagramRecvCipherLocked now (ep_epoch e) s = ep_recvCipher e"
  by (auto simp: cur_epoch_def datagramRecvCipherLocked_def split: option.splits)

lemma DatagramSeal_Inr:
  "fst (DatagramSeal L coarse aad sq pt s) = Inr ct \<longleftrightarrow>
     (\<exists>e c. cur_epoch s = Some e \<and> ep_sendCipher e = Some c \<and> sq - startSeq e < 268435456 \<and>
        SealWithNonce L c (buildAEADNonce (sendNoncePrefix s) sq) pt aad = Inr ct)"
  by (auto simp: DatagramSeal_def currentEpoch_def cur_epoch_def rejectS_def tryS_def failR_def MaxPacketsBeforeRekey_def not_le
      split: option.splits sum.splits if_splits)

lemma DatagramOpen_eq:
  assumes "datagramRecvCipherLocked now ep s = Some c"
  shows "DatagramOpen L now coarse ep sq ct aad s =
    tryS s (OpenWithNonce L c (buildAEADNonce (recvNoncePrefix s) sq) ct aad) (\<lambda>pt. (Inr pt, s\<lparr>lastActivityNanos := coarse\<rparr>))"
  using assms by (simp add: DatagramOpen_def)

lemma DatagramOpen_sealed:
  assumes "cipher_lib_ok L" "fst (DatagramSeal L coarse aad sq pt s) = Inr ct" "cur_epoch s = Some e"
    "datagramRecvCipherLocked now ep r = ep_sendCipher e" "recvNoncePrefix r = sendNoncePrefix s"
  shows "DatagramOpen L now coarse' ep sq ct aad r = (Inr pt, r\<lparr>lastActivityNanos := coarse'\<rparr>)"
proof -
  obtain c where c: "ep_sendCipher e = Some c" "SealWithNonce L c (buildAEADNonce (sendNoncePrefix s) sq) pt aad = Inr ct"
    using assms(2,3) by (auto simp: DatagramSeal_Inr)
  have "OpenWithNonce L c (buildAEADNonce (recvNoncePrefix r) sq) ct aad = Inr pt"
    using OpenWithNonce_Seal [OF assms(1) _ c(2), of c] assms(5) by (simp add: same_key_def)
  then show ?thesis
    using DatagramOpen_eq [of now ep r c] assms(4) c(1) by simp
qed

section \<open>The rekey exchange\<close>

definition control_body :: "cipher_lib \<Rightarrow> aead \<Rightarrow> bytes \<Rightarrow> byte \<Rightarrow> byte \<Rightarrow> u64 \<Rightarrow> bytes \<Rightarrow> bytes" where
  "control_body L c prefix ty ep sq payload =
     put_u64 sq @ lib_Seal L (ae_suite c) (ae_key c) (buildAEADNonce prefix sq) payload (rekeyAAD ty ep sq)"

lemma sealRekeyControl_ok:
  assumes "cur_epoch s = Some e" "ep_sendCipher e = Some c"
  shows "sealRekeyControl L ty payload s =
    (Inr (control_body L c (sendNoncePrefix s) ty (ep_epoch e) (sendSeq s) payload, ep_epoch e), s\<lparr>sendSeq := sendSeq s + 1\<rparr>)"
proof -
  have "cur_epoch (s\<lparr>sendSeq := sendSeq s + 1\<rparr>) = Some e"
    using assms(1) by (simp add: cur_epoch_def)
  then show ?thesis
    using currentEpoch_cur assms(2)
    by (simp add: sealRekeyControl_def nextDatagramSeq_def control_body_def SealWithNonce_def AESNonceSize_def)
qed

lemma openRekeyControl_ok:
  assumes "cipher_lib_ok L" "datagramRecvCipherLocked now ep s = Some c" "prefix = recvNoncePrefix s"
  shows "openRekeyControl L now ty ep (control_body L c prefix ty ep sq payload) s = Inr payload"
  using assms cipher_lib_okD [OF assms(1)]
  by (simp add: openRekeyControl_def control_body_def OpenWithNonce_def AESNonceSize_def AESTagSize_def)

definition advanced :: "int \<Rightarrow> bytes \<Rightarrow> aead \<Rightarrow> aead \<Rightarrow> datagram_epoch \<Rightarrow> session \<Rightarrow> session" where
  "advanced now ms send recv old s = s\<lparr>dgramEpochs := Some \<lparr>es_cur = Some \<lparr>ep_epoch = ep_epoch old + 1, ep_sendCipher = Some send,
      ep_recvCipher = Some recv, startSeq = sendSeq s, startedAt = now, retireAfter = 0\<rparr>,
      es_prev = Some (old\<lparr>retireAfter := now + 30000000000\<rparr>)\<rparr>,
    masterSecret := Some ms, sendCipher := Some send, recvCipher := Some recv\<rparr>"

lemma AdvanceDatagramEpoch_ok:
  assumes "hash_lib_ok H" "length ms = 32" "suite_usable L (sess_CipherSuite s)" "cur_epoch s = Some old"
    "DeriveTrafficKeys H ms = Inr (ki, kr)" "length ki = 32" "length kr = 32"
  shows "AdvanceDatagramEpoch H L now ms s = (Inr (ep_epoch old + 1),
    advanced now ms (fresh_aead (sess_CipherSuite s) (fst (by_role (sess_Role s) (ki, kr))))
      (fresh_aead (sess_CipherSuite s) (snd (by_role (sess_Role s) (ki, kr)))) old s)"
proof -
  obtain sk rk where r: "by_role (sess_Role s) (ki, kr) = (sk, rk)"
    by fastforce
  then have "NewAEAD L (sess_CipherSuite s) sk = Inr (fresh_aead (sess_CipherSuite s) sk)"
      "NewAEAD L (sess_CipherSuite s) rk = Inr (fresh_aead (sess_CipherSuite s) rk)"
    using assms(6,7) NewAEAD_usable [OF assms(3)] by (auto simp: by_role_def split: if_splits)
  moreover obtain es where "dgramEpochs s = Some es" "es_cur es = Some old"
    using assms(4) by (auto simp: cur_epoch_def split: option.splits)
  ultimately show ?thesis
    using assms(2,5) r
    by (simp add: AdvanceDatagramEpoch_def deriveDatagramCiphers_def advanced_def CHKEMSharedSecretSize_def
        DatagramPrevEpochRetainSeconds_def Let_def)
qed

text \<open>What is left after an advance: the new epoch is current, the old one answers until it retires.\<close>

lemma advanced_fields:
  "sess_Role (advanced now ms send recv old s) = sess_Role s" "kemSuite (advanced now ms send recv old s) = kemSuite s"
  "sess_CipherSuite (advanced now ms send recv old s) = sess_CipherSuite s"
  "sendNoncePrefix (advanced now ms send recv old s) = sendNoncePrefix s" "recvNoncePrefix (advanced now ms send recv old s) = recvNoncePrefix s"
  "masterSecret (advanced now ms send recv old s) = Some ms" "sendSeq (advanced now ms send recv old s) = sendSeq s"
  "\<exists>e. cur_epoch (advanced now ms send recv old s) = Some e \<and> ep_epoch e = ep_epoch old + 1 \<and> ep_sendCipher e = Some send \<and>
     ep_recvCipher e = Some recv \<and> startSeq e = sendSeq s"
  "datagramRecvCipherLocked t (ep_epoch old) (advanced now ms send recv old s) = (if t < now + 30000000000 then ep_recvCipher old else None)"
  by (simp_all add: advanced_def cur_epoch_def datagramRecvCipherLocked_def)

text \<open>The answer of a responder: the ciphertext \<open>rt\<close> ratchets its secret to \<open>ms'\<close>.\<close>

lemma respond_ok:
  assumes "hash_lib_ok H" "cipher_lib_ok L" "kem_serves (kemSuite b) kp" "PublicKey_Bytes (PublicKey kp) = Inr pk" "64 \<le> length tape"
    and b: "cur_epoch b = Some f" "ep_recvCipher f = Some c" "ep_sendCipher f = Some d" "masterSecret b = Some ms" "length ms = 32"
      "suite_usable L (sess_CipherSuite b)" "sess_Role b = RoleResponder"
  obtains rt ms' ki kr where "rekey_answer H (kemSuite b) kp ms rt ms'" "length ms' = 32"
    "DeriveTrafficKeys H ms' = Inr (ki, kr)" "length ki = 32" "length kr = 32"
    "respondToDatagramRekey H L now tape (ep_epoch f) (control_body L c (recvNoncePrefix b) MessageTypeDatagramRekeyInit (ep_epoch f) sq pk) b =
      (Inr (control_body L d (sendNoncePrefix b) MessageTypeDatagramRekeyResponse (ep_epoch f) (sendSeq b) rt, ep_epoch f),
       advanced now ms' (fresh_aead (sess_CipherSuite b) kr) (fresh_aead (sess_CipherSuite b) ki) f (b\<lparr>sendSeq := sendSeq b + 1\<rparr>))"
proof -
  obtain ct ss where e: "suite_Encapsulate (kemSuite b) tape (Some (PublicKey kp)) KemRoleResponder = Inr (ct, ss)"
    using assms(3,5) unfolding kem_serves_def by (metis surj_pair)
  then obtain ct' where ct: "length ss = 32" "suite_ParseCiphertext (kemSuite b) (Ciphertext_Bytes ct) = Inr ct'"
      "suite_Decapsulate (kemSuite b) (Some ct') (Some kp) KemRoleInitiator = Inr ss"
    using assms(3) unfolding kem_serves_def by blast
  obtain ms' where ms': "DeriveRekeySecret H ms ss = Inr ms'" "length ms' = 32"
    using DeriveRekeySecret_total [OF assms(1) b(5), of ss] ct(1) by auto
  obtain ki kr where k: "DeriveTrafficKeys H ms' = Inr (ki, kr)" "length ki = 32" "length kr = 32"
    using DeriveTrafficKeys_total [OF assms(1) ms'(2)] by blast
  have p: "suite_ParsePublicKey (kemSuite b) pk = Inr (PublicKey kp)"
    using assms(3,4) unfolding kem_serves_def by auto
  have a: "rekey_answer H (kemSuite b) kp ms (Ciphertext_Bytes ct) ms'"
    using ct ms' unfolding rekey_answer_def by blast
  let ?b1 = "b\<lparr>sendSeq := sendSeq b + 1\<rparr>"
  have b1: "cur_epoch ?b1 = Some f" "suite_usable L (sess_CipherSuite ?b1)"
    using b(1,6) by (simp_all add: cur_epoch_def)
  have adv: "AdvanceDatagramEpoch H L now ms' ?b1 = (Inr (ep_epoch f + 1),
      advanced now ms' (fresh_aead (sess_CipherSuite b) kr) (fresh_aead (sess_CipherSuite b) ki) f ?b1)"
    using AdvanceDatagramEpoch_ok [OF assms(1) ms'(2) b1(2,1) k, of now] b(7) by (simp add: by_role_def)
  have op: "openRekeyControl L now MessageTypeDatagramRekeyInit (ep_epoch f)
      (control_body L c (recvNoncePrefix b) MessageTypeDatagramRekeyInit (ep_epoch f) sq pk) b = Inr pk"
    using recvCipher_cur [OF b(1)] b(2) by (intro openRekeyControl_ok [OF assms(2)]) simp_all
  show ?thesis
    using e p ms'(1) b(4) adv op sealRekeyControl_ok [OF b(1,3)]
    by (intro that [OF a ms'(2) k])
      (simp add: respondToDatagramRekey_def deriveNextDatagramSecret_def nil_bytes_def)
qed

lemma complete_ok:
  assumes "hash_lib_ok H" "cipher_lib_ok L" "rekey_answer H (kemSuite a) kp ms rt ms'" "length ms' = 32"
    "DeriveTrafficKeys H ms' = Inr (ki, kr)" "length ki = 32" "length kr = 32"
    and a: "cur_epoch a = Some e" "datagramRecvCipherLocked now ep a = Some d" "masterSecret a = Some ms"
      "suite_usable L (sess_CipherSuite a)" "sess_Role a = RoleInitiator"
  shows "completeDatagramRekey H L now ep
      (control_body L d (recvNoncePrefix a) MessageTypeDatagramRekeyResponse ep sq rt) kp a =
    (Inr (), advanced now ms' (fresh_aead (sess_CipherSuite a) ki) (fresh_aead (sess_CipherSuite a) kr) e a)"
proof -
  obtain ct ss where r: "suite_ParseCiphertext (kemSuite a) rt = Inr ct"
      "suite_Decapsulate (kemSuite a) (Some ct) (Some kp) KemRoleInitiator = Inr ss" "DeriveRekeySecret H ms ss = Inr ms'"
    using assms(3) by (auto simp: rekey_answer_def)
  have "openRekeyControl L now MessageTypeDatagramRekeyResponse ep
      (control_body L d (recvNoncePrefix a) MessageTypeDatagramRekeyResponse ep sq rt) a = Inr rt"
    by (rule openRekeyControl_ok [OF assms(2) a(2) refl])
  then show ?thesis
    using r a(3) AdvanceDatagramEpoch_ok [OF assms(1,4) a(4,1) assms(5-7), of now] a(5)
    by (simp add: completeDatagramRekey_def deriveNextDatagramSecret_def nil_bytes_def by_role_def)
qed

lemma synced_open:
  assumes "cipher_lib_ok L" "dgram_synced L a b" "datagramSendEpoch a = Inr ep"
  shows "fst (DatagramSeal L k aad sq pt a) = Inr ct \<Longrightarrow> fst (DatagramOpen L t k' ep sq ct aad b) = Inr pt"
    "fst (DatagramSeal L k aad sq pt b) = Inr ct \<Longrightarrow> fst (DatagramOpen L t k' ep sq ct aad a) = Inr pt"
proof -
  obtain e f where ef: "cur_epoch a = Some e" "cur_epoch b = Some f" "ep_epoch e = ep_epoch f"
      "ep_recvCipher f = ep_sendCipher e" "ep_recvCipher e = ep_sendCipher f"
      "recvNoncePrefix b = sendNoncePrefix a" "recvNoncePrefix a = sendNoncePrefix b"
    using assms(2) by (auto simp: dgram_synced_def epochs_match_def)
  have ep: "ep = ep_epoch e"
    using assms(3) currentEpoch_cur [OF ef(1)] by (simp add: datagramSendEpoch_def)
  show "fst (DatagramSeal L k aad sq pt a) = Inr ct \<Longrightarrow> fst (DatagramOpen L t k' ep sq ct aad b) = Inr pt"
    using DatagramOpen_sealed [OF assms(1) _ ef(1), of k aad sq pt ct t ep b k'] recvCipher_cur [OF ef(2), of t] ef ep by simp
  show "fst (DatagramSeal L k aad sq pt b) = Inr ct \<Longrightarrow> fst (DatagramOpen L t k' ep sq ct aad a) = Inr pt"
    using DatagramOpen_sealed [OF assms(1) _ ef(2), of k aad sq pt ct t ep a k'] recvCipher_cur [OF ef(1), of t] ef ep by simp
qed

text \<open>A packet of the old epoch at an end that has advanced.\<close>

lemma old_packet:
  assumes "cipher_lib_ok L" "fst (DatagramSeal L k aad sq pt s) = Inr ct" "cur_epoch s = Some e" "ep_recvCipher f = ep_sendCipher e"
    "recvNoncePrefix r = sendNoncePrefix s"
  shows "fst (DatagramOpen L t k' (ep_epoch f) sq ct aad (advanced now ms send recv f r)) =
    (if t < now + 30000000000 then Inr pt else Inl (Err ErrAuthenticationFailed))"
proof (cases "t < now + 30000000000")
  case True
  then show ?thesis
    using DatagramOpen_sealed [OF assms(1-3), of t "ep_epoch f" "advanced now ms send recv f r" k'] assms(4,5) by (simp add: advanced_fields)
next
  case False
  then show ?thesis
    by (simp add: DatagramOpen_def advanced_fields failR_def)
qed

text \<open>Two sessions that take the same master secret are in step on epoch 0.\<close>

lemma InitializeDatagramKeys_ok:
  assumes "hash_lib_ok H" "length ms = 32" "suite_usable L cs" "sess_state s \<noteq> SessionStateClosed"
  shows "\<exists>ki kr pi pr s'. DeriveTrafficKeys H ms = Inr (ki, kr) \<and> DeriveDatagramNoncePrefixes H ms = Inr (pi, pr) \<and>
    InitializeDatagramKeys H L now ms cs s = (Inr (), s') \<and>
    (\<exists>e. cur_epoch s' = Some e \<and> ep_epoch e = 0 \<and> startSeq e = 0 \<and>
       ep_sendCipher e = Some (fresh_aead cs (fst (by_role (sess_Role s) (ki, kr)))) \<and>
       ep_recvCipher e = Some (fresh_aead cs (snd (by_role (sess_Role s) (ki, kr))))) \<and>
    sendNoncePrefix s' = fst (by_role (sess_Role s) (pi, pr)) \<and> recvNoncePrefix s' = snd (by_role (sess_Role s) (pi, pr)) \<and>
    masterSecret s' = Some ms \<and> sess_CipherSuite s' = cs \<and> kemSuite s' = kemSuite s \<and> sess_Role s' = sess_Role s \<and>
    sess_state s' = SessionStateEstablished \<and> sendSeq s' = sendSeq s \<and> dgramReplay s' = Some NewDatagramReplayWindow"
proof -
  obtain ki kr where k: "DeriveTrafficKeys H ms = Inr (ki, kr)" "length ki = 32" "length kr = 32"
    using DeriveTrafficKeys_total [OF assms(1,2)] by blast
  obtain pi pr where p: "DeriveDatagramNoncePrefixes H ms = Inr (pi, pr)"
    using split_derivation_ok [OF assms(1), of ms 4 DomainSeparatorDatagramNonce] assms(2)
    unfolding DeriveDatagramNoncePrefixes_def by (fastforce simp: constant_defs)
  obtain sk rk sp rp where r: "by_role (sess_Role s) (ki, kr) = (sk, rk)" "by_role (sess_Role s) (pi, pr) = (sp, rp)"
    by fastforce
  then have n: "NewAEAD L cs sk = Inr (fresh_aead cs sk)" "NewAEAD L cs rk = Inr (fresh_aead cs rk)"
    using k(2,3) NewAEAD_usable [OF assms(3)] by (auto simp: by_role_def split: if_splits)
  have "deriveDatagramCiphers H L (sess_Role s) ms cs = Inr (fresh_aead cs sk, fresh_aead cs rk)"
    using k r n by (simp add: deriveDatagramCiphers_def)
  then have "\<exists>s'. InitializeDatagramKeys H L now ms cs s = (Inr (), s') \<and>
    (\<exists>e. cur_epoch s' = Some e \<and> ep_epoch e = 0 \<and> startSeq e = 0 \<and>
       ep_sendCipher e = Some (fresh_aead cs sk) \<and> ep_recvCipher e = Some (fresh_aead cs rk)) \<and>
    sendNoncePrefix s' = sp \<and> recvNoncePrefix s' = rp \<and>
    masterSecret s' = Some ms \<and> sess_CipherSuite s' = cs \<and> kemSuite s' = kemSuite s \<and> sess_Role s' = sess_Role s \<and>
    sess_state s' = SessionStateEstablished \<and> sendSeq s' = sendSeq s \<and> dgramReplay s' = Some NewDatagramReplayWindow"
    using assms(2,4) p r by (simp add: InitializeDatagramKeys_def CHKEMSharedSecretSize_def cur_epoch_def)
  then show ?thesis
    using k(1) p r by auto
qed

lemma InitializeDatagramKeys_synced:
  assumes "hash_lib_ok H" "length ms = 32" "suite_usable L cs" "kem_correct S"
    and "sess_Role a0 = RoleInitiator" "sess_state a0 \<noteq> SessionStateClosed" "kemSuite a0 = S"
    and "sess_Role b0 = RoleResponder" "sess_state b0 \<noteq> SessionStateClosed" "kemSuite b0 = S"
  shows "\<exists>a b. InitializeDatagramKeys H L now ms cs a0 = (Inr (), a) \<and> InitializeDatagramKeys H L now' ms cs b0 = (Inr (), b) \<and>
    dgram_synced L a b \<and> kemSuite a = S \<and> datagramSendEpoch a = Inr 0"
  using InitializeDatagramKeys_ok [OF assms(1-3,6), of now] InitializeDatagramKeys_ok [OF assms(1-3,9), of now'] assms(2-5,7,8,10)
  by (elim exE conjE) (simp add: dgram_synced_def epochs_match_def by_role_def datagramSendEpoch_def currentEpoch_cur)

text \<open>The in-place variants.\<close>

lemma tryS_append:
  "tryS s (bindR r (\<lambda>c. Inr (dst @ c))) (\<lambda>x. (Inr x, s')) =
     (bindR (fst (tryS s r (\<lambda>x. (Inr x, s')))) (\<lambda>c. Inr (dst @ c)), snd (tryS s r (\<lambda>x. (Inr x, s'))))"
  by (cases r) simp_all

lemma sealTo_eq:
  "DatagramSealTo L k dst aad sq pt s =
     (bindR (fst (DatagramSeal L k aad sq pt s)) (\<lambda>ct. Inr (dst @ ct)), snd (DatagramSeal L k aad sq pt s))"
  unfolding DatagramSealTo_def DatagramSeal_def SealWithNonceTo_eq tryS_append
  by (cases "currentEpoch s") (auto simp: rejectS_def failR_def split: option.splits)

lemma openTo_eq:
  "DatagramOpenTo L t k dst ep sq ct aad s =
     (bindR (fst (DatagramOpen L t k ep sq ct aad s)) (\<lambda>p. Inr (dst @ p)), snd (DatagramOpen L t k ep sq ct aad s))"
  unfolding DatagramOpenTo_def DatagramOpen_def OpenWithNonceTo_eq tryS_append
  by (auto simp: failR_def split: option.splits)

section \<open>Properties\<close>

text \<open>
  C15: A datagram rekey exchange.  Between two ends in step over a correct KEM, the request of the
  initiator is answered, the answer completes it, and both ends are in step on the next epoch:
  what either seals there the other opens.  Packets either end had sealed under the old epoch are still
  opened for 30 seconds after the other end advanced and refused afterwards.
\<close>

theorem dgram_rekey_exchange:
  assumes "hash_lib_ok H" "cipher_lib_ok L" "dgram_synced L a b" "suite_GenerateKeyPair (kemSuite a) tape = Inr kp" "64 \<le> length tape'"
  shows "\<exists>body e a1 resp b1 a2. buildDatagramRekeyInit L kp a = (Inr (body, e), a1) \<and>
    respondToDatagramRekey H L now tape' e body b = (Inr (resp, e), b1) \<and>
    completeDatagramRekey H L now' e resp kp a1 = (Inr (), a2) \<and>
    dgram_synced L a2 b1 \<and> datagramSendEpoch a2 = Inr (e + 1) \<and>
    (\<forall>aad sq pt ct t. fst (DatagramSeal L 0 aad sq pt a2) = Inr ct \<longrightarrow> fst (DatagramOpen L t 0 (e + 1) sq ct aad b1) = Inr pt) \<and>
    (\<forall>aad sq pt ct t. fst (DatagramSeal L 0 aad sq pt b1) = Inr ct \<longrightarrow> fst (DatagramOpen L t 0 (e + 1) sq ct aad a2) = Inr pt) \<and>
    (\<forall>aad sq pt ct t. fst (DatagramSeal L 0 aad sq pt a) = Inr ct \<longrightarrow>
       fst (DatagramOpen L t 0 e sq ct aad b1) = (if t < now + 30 * 10 ^ 9 then Inr pt else Inl (Err ErrAuthenticationFailed))) \<and>
    (\<forall>aad sq pt ct t. fst (DatagramSeal L 0 aad sq pt b) = Inr ct \<longrightarrow>
       fst (DatagramOpen L t 0 e sq ct aad a2) = (if t < now' + 30 * 10 ^ 9 then Inr pt else Inl (Err ErrAuthenticationFailed)))"
proof -
  obtain e f c d ms where s: "cur_epoch a = Some e" "cur_epoch b = Some f" "ep_epoch e = ep_epoch f"
      "ep_sendCipher e = Some c" "ep_recvCipher f = Some c" "ep_sendCipher f = Some d" "ep_recvCipher e = Some d"
      "masterSecret a = Some ms" "masterSecret b = Some ms" "length ms = 32"
    using assms(3) by (auto simp: dgram_synced_def epochs_match_def)
  have q: "recvNoncePrefix b = sendNoncePrefix a" "recvNoncePrefix a = sendNoncePrefix b" "kemSuite b = kemSuite a"
      "kem_correct (kemSuite a)" "sess_CipherSuite b = sess_CipherSuite a" "suite_usable L (sess_CipherSuite a)"
      "sess_Role a = RoleInitiator" "sess_Role b = RoleResponder"
    using assms(3) by (simp_all add: dgram_synced_def)
  have kp: "kem_serves (kemSuite b) kp"
    using q(3,4) assms(4) unfolding kem_correct_def by auto
  then obtain pk where pk: "PublicKey_Bytes (PublicKey kp) = Inr pk"
    unfolding kem_serves_def by blast
  have ub: "suite_usable L (sess_CipherSuite b)"
    using q(5,6) by simp
  let ?a1 = "a\<lparr>sendSeq := sendSeq a + 1\<rparr>"
  let ?body = "control_body L c (recvNoncePrefix b) MessageTypeDatagramRekeyInit (ep_epoch f) (sendSeq a) pk"
  have init: "buildDatagramRekeyInit L kp a = (Inr (?body, ep_epoch f), ?a1)"
    using pk q(1) s(3) sealRekeyControl_ok [OF s(1,4)] by (simp add: buildDatagramRekeyInit_def)
  obtain rt ms' ki kr where r: "rekey_answer H (kemSuite b) kp ms rt ms'" "length ms' = 32"
    "DeriveTrafficKeys H ms' = Inr (ki, kr)" "length ki = 32" "length kr = 32"
    "respondToDatagramRekey H L now tape' (ep_epoch f) ?body b =
      (Inr (control_body L d (sendNoncePrefix b) MessageTypeDatagramRekeyResponse (ep_epoch f) (sendSeq b) rt, ep_epoch f),
       advanced now ms' (fresh_aead (sess_CipherSuite b) kr) (fresh_aead (sess_CipherSuite b) ki) f (b\<lparr>sendSeq := sendSeq b + 1\<rparr>))"
    by (rule respond_ok [OF assms(1,2) kp pk assms(5) s(2,5,6,9,10) ub q(8)])
  let ?resp = "control_body L d (sendNoncePrefix b) MessageTypeDatagramRekeyResponse (ep_epoch f) (sendSeq b) rt"
  define b1 where "b1 = advanced now ms' (fresh_aead (sess_CipherSuite b) kr) (fresh_aead (sess_CipherSuite b) ki) f (b\<lparr>sendSeq := sendSeq b + 1\<rparr>)"
  define a2 where "a2 = advanced now' ms' (fresh_aead (sess_CipherSuite a) ki) (fresh_aead (sess_CipherSuite a) kr) e ?a1"
  have a1: "cur_epoch ?a1 = Some e" "datagramRecvCipherLocked now' (ep_epoch f) ?a1 = Some d"
    using s(1,3,7) recvCipher_cur [of ?a1 e now'] by (simp_all add: cur_epoch_def)
  have comp: "completeDatagramRekey H L now' (ep_epoch f) ?resp kp ?a1 = (Inr (), a2)"
    using complete_ok [OF assms(1,2) _ r(2-5) a1, of kp ms rt "sendSeq b"] r(1) q s(8) by (simp add: a2_def)
  note fa = advanced_fields [where now = now' and ms = ms' and send = "fresh_aead (sess_CipherSuite a) ki"
      and recv = "fresh_aead (sess_CipherSuite a) kr" and old = e and s = ?a1, folded a2_def]
  note fb = advanced_fields [where now = now and ms = ms' and send = "fresh_aead (sess_CipherSuite b) kr"
      and recv = "fresh_aead (sess_CipherSuite b) ki" and old = f and s = "b\<lparr>sendSeq := sendSeq b + 1\<rparr>", folded b1_def]
  have sync: "dgram_synced L a2 b1" "datagramSendEpoch a2 = Inr (ep_epoch f + 1)"
    using fa fb q r(2) s(3) currentEpoch_cur [of a2] by (auto simp: dgram_synced_def epochs_match_def datagramSendEpoch_def)
  have old: "fst (DatagramSeal L 0 aad sq pt a) = Inr ct \<longrightarrow>
       fst (DatagramOpen L t 0 (ep_epoch f) sq ct aad b1) = (if t < now + 30 * 10 ^ 9 then Inr pt else Inl (Err ErrAuthenticationFailed))"
    "fst (DatagramSeal L 0 aad sq pt b) = Inr ct \<longrightarrow>
       fst (DatagramOpen L t 0 (ep_epoch f) sq ct aad a2) = (if t < now' + 30 * 10 ^ 9 then Inr pt else Inl (Err ErrAuthenticationFailed))"
    for aad sq pt ct t
    using old_packet [OF assms(2) _ s(1), of 0 aad sq pt ct f "b\<lparr>sendSeq := sendSeq b + 1\<rparr>"]
      old_packet [OF assms(2) _ s(2), of 0 aad sq pt ct e ?a1] s q
    by (simp_all add: a2_def b1_def)
  show ?thesis
    using init r(6) [folded b1_def] comp sync synced_open [OF assms(2) sync] old
    by (intro exI [of _ ?body] exI [of _ "ep_epoch f"] exI [of _ ?a1] exI [of _ ?resp] exI [of _ b1] exI [of _ a2]) blast
qed

lemma sample_blank:
  "sess_Role (blank_session [] r S None 0) = r" "sess_state (blank_session [] r S None 0) \<noteq> SessionStateClosed"
  "kemSuite (blank_session [] r S None 0) = S"
  by (simp_all add: blank_session_def)

lemma sample_dgram:
  assumes "hash_lib_ok H" "kem_correct S"
  obtains a b where "dgram_synced tag_cipher_lib a b" "kemSuite a = S" "datagramSendEpoch a = Inr 0"
  using InitializeDatagramKeys_synced [of H "replicate 32 7" tag_cipher_lib CipherSuiteAES256GCM S
      "blank_session [] RoleInitiator S None 0" "blank_session [] RoleResponder S None 0" 0 0]
    assms sample_blank tag_suite_usable by auto

theorem dgram_rekey_exchange_witness:
  "\<exists>a b kp body e a1 resp b1 a2. dgram_synced tag_cipher_lib a b \<and> buildDatagramRekeyInit tag_cipher_lib kp a = (Inr (body, e), a1) \<and>
     respondToDatagramRekey zero_hash_lib tag_cipher_lib 5 (replicate 64 9) e body b = (Inr (resp, e), b1) \<and>
     completeDatagramRekey zero_hash_lib tag_cipher_lib 6 e resp kp a1 = (Inr (), a2) \<and> dgram_synced tag_cipher_lib a2 b1"
proof -
  let ?S = "chkemV1 zero_hash_lib toy_kem_lib"
  have c: "kem_correct ?S"
    by (simp add: chkemV1_correct zero_hash_lib_ok toy_kem_lib_ok)
  obtain a b where ab: "dgram_synced tag_cipher_lib a b" "kemSuite a = ?S"
    by (rule sample_dgram [OF zero_hash_lib_ok c])
  obtain kp where kp: "suite_GenerateKeyPair (kemSuite a) (replicate 96 4) = Inr kp"
    using c ab(2) unfolding kem_correct_def by (metis length_replicate order_refl)
  have l: "64 \<le> length (replicate 64 (9 :: byte))"
    by simp
  obtain body e a1 resp b1 a2 where "buildDatagramRekeyInit tag_cipher_lib kp a = (Inr (body, e), a1)"
      "respondToDatagramRekey zero_hash_lib tag_cipher_lib 5 (replicate 64 9) e body b = (Inr (resp, e), b1)"
      "completeDatagramRekey zero_hash_lib tag_cipher_lib 6 e resp kp a1 = (Inr (), a2)" "dgram_synced tag_cipher_lib a2 b1"
    using dgram_rekey_exchange [OF zero_hash_lib_ok tag_cipher_lib_ok ab(1) kp l, of 5 6] by (elim exE conjE) (rule that; assumption)
  with ab(1) show ?thesis
    by (intro exI [of _ a] exI [of _ b] exI [of _ kp] exI [of _ body] exI [of _ e] exI [of _ a1] exI [of _ resp]
        exI [of _ b1] exI [of _ a2] conjI)
qed

text \<open>
  C18: The in-place variants compute the allocating ones: \<open>DatagramSealTo\<close> and \<open>DatagramOpenTo\<close> append to
  the buffer exactly what \<open>DatagramSeal\<close> and \<open>DatagramOpen\<close> return, fail with the same error, panic
  on the same sessions and leave the same session.
\<close>

theorem dgram_inplace_equiv:
  "DatagramSealTo L k dst aad sq pt s =
     (bindR (fst (DatagramSeal L k aad sq pt s)) (\<lambda>ct. Inr (dst @ ct)), snd (DatagramSeal L k aad sq pt s)) \<and>
   DatagramOpenTo L t k dst ep sq ct aad s =
     (bindR (fst (DatagramOpen L t k ep sq ct aad s)) (\<lambda>p. Inr (dst @ p)), snd (DatagramOpen L t k ep sq ct aad s))"
  by (simp add: sealTo_eq openTo_eq)

text \<open>
  C19: An answer is accepted by a later attempt.  After the responder has answered a first rekey request
  and advanced, let the initiator, still on the old epoch, have given up and started a second attempt
  with another key pair.  The (cached, replayed) first answer authenticates and completes the
  second attempt: whatever its ciphertext decapsulates to under the new key pair is ratcheted in, both
  ends are on the next epoch, and the initiator's secret is the one of the wrong key pair.
\<close>

theorem dgram_stale_response:
  assumes "hash_lib_ok H" "cipher_lib_ok L" "dgram_synced L a b" "suite_GenerateKeyPair (kemSuite a) tape = Inr kp" "64 \<le> length tape'"
    "masterSecret a = Some ms"
  shows "\<exists>body e a1 resp b1 rt ms1. buildDatagramRekeyInit L kp a = (Inr (body, e), a1) \<and>
    respondToDatagramRekey H L now tape' e body b = (Inr (resp, e), b1) \<and>
    rekey_answer H (kemSuite a) kp ms rt ms1 \<and> masterSecret b1 = Some ms1 \<and> datagramSendEpoch b1 = Inr (e + 1) \<and>
    (\<forall>kp2 body2 a2 ms2 now'. buildDatagramRekeyInit L kp2 a1 = (Inr (body2, e), a2) \<longrightarrow>
       rekey_answer H (kemSuite a) kp2 ms rt ms2 \<longrightarrow> length ms2 = 32 \<longrightarrow>
       (\<exists>a3. completeDatagramRekey H L now' e resp kp2 a2 = (Inr (), a3) \<and> masterSecret a3 = Some ms2 \<and>
          datagramSendEpoch a3 = Inr (e + 1)))"
proof -
  obtain e f c d where s: "cur_epoch a = Some e" "cur_epoch b = Some f" "ep_epoch e = ep_epoch f"
      "ep_sendCipher e = Some c" "ep_recvCipher f = Some c" "ep_sendCipher f = Some d" "ep_recvCipher e = Some d"
      "masterSecret b = Some ms" "length ms = 32"
    using assms(3,6) by (auto simp: dgram_synced_def epochs_match_def)
  have q: "recvNoncePrefix b = sendNoncePrefix a" "recvNoncePrefix a = sendNoncePrefix b" "kemSuite b = kemSuite a"
      "kem_correct (kemSuite a)" "suite_usable L (sess_CipherSuite b)" "suite_usable L (sess_CipherSuite a)"
      "sess_Role a = RoleInitiator" "sess_Role b = RoleResponder"
    using assms(3) by (simp_all add: dgram_synced_def)
  have kp: "kem_serves (kemSuite b) kp"
    using q(3,4) assms(4) unfolding kem_correct_def by auto
  then obtain pk where pk: "PublicKey_Bytes (PublicKey kp) = Inr pk"
    unfolding kem_serves_def by blast
  let ?a1 = "a\<lparr>sendSeq := sendSeq a + 1\<rparr>"
  let ?body = "control_body L c (recvNoncePrefix b) MessageTypeDatagramRekeyInit (ep_epoch f) (sendSeq a) pk"
  have init: "buildDatagramRekeyInit L kp a = (Inr (?body, ep_epoch f), ?a1)"
    using pk q(1) s(3) sealRekeyControl_ok [OF s(1,4)] by (simp add: buildDatagramRekeyInit_def)
  obtain rt ms1 ki kr where r: "rekey_answer H (kemSuite b) kp ms rt ms1"
    "respondToDatagramRekey H L now tape' (ep_epoch f) ?body b =
      (Inr (control_body L d (sendNoncePrefix b) MessageTypeDatagramRekeyResponse (ep_epoch f) (sendSeq b) rt, ep_epoch f),
       advanced now ms1 (fresh_aead (sess_CipherSuite b) kr) (fresh_aead (sess_CipherSuite b) ki) f (b\<lparr>sendSeq := sendSeq b + 1\<rparr>))"
    by (rule respond_ok [OF assms(1,2) kp pk assms(5) s(2,5,6,8,9) q(5,8)])
  let ?resp = "control_body L d (sendNoncePrefix b) MessageTypeDatagramRekeyResponse (ep_epoch f) (sendSeq b) rt"
  define b1 where "b1 = advanced now ms1 (fresh_aead (sess_CipherSuite b) kr) (fresh_aead (sess_CipherSuite b) ki) f (b\<lparr>sendSeq := sendSeq b + 1\<rparr>)"
  have b1: "masterSecret b1 = Some ms1" "datagramSendEpoch b1 = Inr (ep_epoch f + 1)"
    by (simp_all add: b1_def advanced_def datagramSendEpoch_def currentEpoch_def)
  have stale: "\<exists>a3. completeDatagramRekey H L now' (ep_epoch f) ?resp kp2 a2 = (Inr (), a3) \<and> masterSecret a3 = Some ms2 \<and>
      datagramSendEpoch a3 = Inr (ep_epoch f + 1)"
    if k: "buildDatagramRekeyInit L kp2 ?a1 = (Inr (body2, ep_epoch f), a2)" "rekey_answer H (kemSuite a) kp2 ms rt ms2" "length ms2 = 32"
    for kp2 body2 a2 ms2 now'
  proof -
    have a1: "cur_epoch ?a1 = Some e"
      using s(1) by (simp add: cur_epoch_def)
    then have a2: "a2 = ?a1\<lparr>sendSeq := sendSeq a + 1 + 1\<rparr>"
      using k(1) sealRekeyControl_ok [OF a1 s(4)] by (auto simp: buildDatagramRekeyInit_def tryS_def split: sum.splits)
    have c2: "cur_epoch a2 = Some e" "datagramRecvCipherLocked now' (ep_epoch f) a2 = Some d"
      using s(1,3,7) recvCipher_cur [of a2 e now'] by (simp_all add: a2 cur_epoch_def)
    obtain ki kr where t: "DeriveTrafficKeys H ms2 = Inr (ki, kr)" "length ki = 32" "length kr = 32"
      using DeriveTrafficKeys_total [OF assms(1) k(3)] by blast
    show ?thesis
      using complete_ok [OF assms(1,2) _ k(3) t c2, of kp2 ms rt "sendSeq b"] k(2) q assms(6) s(3)
      by (simp add: a2 advanced_def datagramSendEpoch_def currentEpoch_def)
  qed
  show ?thesis
    using init r(1) r(2) [folded b1_def] b1 stale q(3)
    by (intro exI [of _ ?body] exI [of _ "ep_epoch f"] exI [of _ ?a1] exI [of _ ?resp] exI [of _ b1] exI [of _ rt] exI [of _ ms1]) auto
qed

text \<open>A hash and a KEM that keep keys apart, to see the two secrets differ.\<close>

definition tail_hash_lib :: hash_lib where
  "tail_hash_lib = \<lparr>shake256 = (\<lambda>x n. copy_into n (rev x)), sha3_256 = copy_into 32\<rparr>"

definition shift_kem_lib :: kem_lib where
  "shift_kem_lib = toy_kem_lib\<lparr>
     xwing_Encapsulate := (\<lambda>pk r. Some (map2 (+) (copy_into 32 r) (take 32 pk), copy_into 1120 r)),
     xwing_Decapsulate := (\<lambda>ct sk. map2 (+) (take 32 ct) sk)\<rparr>"

lemma tail_hash_lib_ok: "hash_lib_ok tail_hash_lib"
  by (simp add: hash_lib_ok_def tail_hash_lib_def)

lemma shift_kem_lib_ok: "kem_lib_ok shift_kem_lib"
  using toy_kem_lib_ok by (simp add: kem_lib_ok_def shift_kem_lib_def toy_kem_lib_def take_copy_into)

lemma tail_DeriveRekeySecret:
  assumes "length ms = 32" "length x = 32"
  shows "DeriveRekeySecret tail_hash_lib ms x = Inr (rev x)"
proof -
  have "prefixed (string_bytes DomainSeparatorRekey) = Some (put_u32 (word_of_nat (length (string_bytes DomainSeparatorRekey))) @ string_bytes DomainSeparatorRekey)"
    by (simp add: prefixed_Some string_bytes_def DomainSeparatorRekey_def)
  then obtain y where "DeriveKeyMultiple_input DomainSeparatorRekey [ms, x] = Some (y @ x)"
    using assms by (auto simp: DeriveKeyMultiple_input_def prefixed_def safeUint32_def)
  then show ?thesis
    using assms by (simp add: DeriveRekeySecret_def DeriveKeyMultiple_def tail_hash_lib_def constant_defs copy_into_def)
qed

lemma build_synced:
  assumes "dgram_synced L a b" "datagramSendEpoch a = Inr e"
  shows "PublicKey_Bytes (PublicKey kp) = Inr pk \<Longrightarrow>
      \<exists>body. buildDatagramRekeyInit L kp a = (Inr (body, e), a\<lparr>sendSeq := sendSeq a + 1\<rparr>)"
    "dgram_synced L (a\<lparr>sendSeq := sendSeq a + 1\<rparr>) b" "datagramSendEpoch (a\<lparr>sendSeq := sendSeq a + 1\<rparr>) = Inr e"
proof -
  obtain ep c where c: "cur_epoch a = Some ep" "ep_sendCipher ep = Some c"
    using assms(1) by (auto simp: dgram_synced_def epochs_match_def)
  then show "\<exists>body. buildDatagramRekeyInit L kp a = (Inr (body, e), a\<lparr>sendSeq := sendSeq a + 1\<rparr>)"
    if "PublicKey_Bytes (PublicKey kp) = Inr pk"
    using that assms(2) sealRekeyControl_ok [OF c] currentEpoch_cur [OF c(1)] by (simp add: buildDatagramRekeyInit_def datagramSendEpoch_def)
  show "dgram_synced L (a\<lparr>sendSeq := sendSeq a + 1\<rparr>) b"
    using assms(1) by (simp add: dgram_synced_def cur_epoch_def)
  show "datagramSendEpoch (a\<lparr>sendSeq := sendSeq a + 1\<rparr>) = Inr e"
    using assms(2) by (simp add: datagramSendEpoch_def currentEpoch_def)
qed

definition shift_key :: "byte \<Rightarrow> key_pair" where
  "shift_key v = xwing_kp \<lparr>privateSeed = replicate 32 v, xw_publicKey = copy_into 1216 (replicate 32 v)\<rparr>"

lemma shift_key_generated: "suite_GenerateKeyPair (xwingSuite shift_kem_lib) (replicate 96 v) = Inr (shift_key v)"
  by (simp add: xwingSuite_def xwing_GenerateKeyPair_def GenerateXWingKeyPair_def NewXWingKeyPairFromSeed_def SecureRandom_def
      shift_kem_lib_def toy_kem_lib_def kem_sizes shift_key_def)

lemma shift_answer:
  assumes "length ms = 32"
  shows "rekey_answer tail_hash_lib (xwingSuite shift_kem_lib) (shift_key v) ms rt ms' \<longleftrightarrow>
    length rt = 1120 \<and> ms' = rev (map2 (+) (take 32 rt) (replicate 32 v))"
  by (auto simp: rekey_answer_def xwingSuite_def xwing_ParseCiphertext_def xwingSuite_Decapsulate_def XWingDecapsulate_def
      shift_key_def xwing_kp_def shift_kem_lib_def result_simps kem_sizes tail_DeriveRekeySecret [OF assms])

theorem dgram_stale_response_witness:
  "\<exists>a b a2 a3 b1 e resp. dgram_synced tag_cipher_lib a b \<and>
     completeDatagramRekey tail_hash_lib tag_cipher_lib 9 e resp (shift_key 2) a2 = (Inr (), a3) \<and>
     datagramSendEpoch a3 = datagramSendEpoch b1 \<and> masterSecret a3 \<noteq> masterSecret b1"
proof -
  let ?S = "xwingSuite shift_kem_lib"
  have c: "kem_correct ?S"
    by (rule xwingSuite_correct [OF shift_kem_lib_ok])
  obtain a b where ab: "dgram_synced tag_cipher_lib a b" "kemSuite a = ?S" "datagramSendEpoch a = Inr 0"
    by (rule sample_dgram [OF tail_hash_lib_ok c])
  obtain ms where ms: "masterSecret a = Some ms" "length ms = 32"
    using ab(1) by (auto simp: dgram_synced_def)
  have kp: "suite_GenerateKeyPair (kemSuite a) (replicate 96 1) = Inr (shift_key 1)"
    using ab(2) shift_key_generated by simp
  have pk: "\<exists>pk. PublicKey_Bytes (PublicKey (shift_key v)) = Inr pk" for v
    using c shift_key_generated [of v] unfolding kem_correct_def kem_serves_def by blast
  have l: "64 \<le> length (replicate 64 (9 :: byte))"
    by simp
  obtain body e a1 resp b1 rt ms1 where r: "buildDatagramRekeyInit tag_cipher_lib (shift_key 1) a = (Inr (body, e), a1)"
      "rekey_answer tail_hash_lib (kemSuite a) (shift_key 1) ms rt ms1" "masterSecret b1 = Some ms1" "datagramSendEpoch b1 = Inr (e + 1)"
      "\<And>kp2 body2 a2 ms2 now'. buildDatagramRekeyInit tag_cipher_lib kp2 a1 = (Inr (body2, e), a2) \<Longrightarrow>
       rekey_answer tail_hash_lib (kemSuite a) kp2 ms rt ms2 \<Longrightarrow> length ms2 = 32 \<Longrightarrow>
       \<exists>a3. completeDatagramRekey tail_hash_lib tag_cipher_lib now' e resp kp2 a2 = (Inr (), a3) \<and> masterSecret a3 = Some ms2 \<and>
          datagramSendEpoch a3 = Inr (e + 1)"
    using dgram_stale_response [OF tail_hash_lib_ok tag_cipher_lib_ok ab(1) kp l ms(1), of 5] by (elim exE conjE) blast
  obtain pk1 where "PublicKey_Bytes (PublicKey (shift_key 1)) = Inr pk1"
    using pk by blast
  then have e: "e = 0" "a1 = a\<lparr>sendSeq := sendSeq a + 1\<rparr>"
    using build_synced(1) [OF ab(1,3), of "shift_key 1" pk1] r(1) by auto
  have sa: "dgram_synced tag_cipher_lib a1 b" "datagramSendEpoch a1 = Inr 0"
    using build_synced(2,3) [OF ab(1,3)] e(2) by simp_all
  obtain body2 a2 where two: "buildDatagramRekeyInit tag_cipher_lib (shift_key 2) a1 = (Inr (body2, e), a2)"
    using build_synced(1) [OF sa] pk [of 2] e by blast
  have rt: "length rt = 1120" "ms1 = rev (map2 (+) (take 32 rt) (replicate 32 1))"
    using r(2) ab(2) shift_answer [OF ms(2)] by simp_all
  let ?ms2 = "rev (map2 (+) (take 32 rt) (replicate 32 (2 :: byte)))"
  have "rekey_answer tail_hash_lib (kemSuite a) (shift_key 2) ms rt ?ms2" "length ?ms2 = 32"
    using rt(1) ab(2) shift_answer [OF ms(2)] by simp_all
  then obtain a3 where a3: "completeDatagramRekey tail_hash_lib tag_cipher_lib 9 e resp (shift_key 2) a2 = (Inr (), a3)"
      "masterSecret a3 = Some ?ms2" "datagramSendEpoch a3 = Inr (e + 1)"
    using r(5) [OF two, of ?ms2 9] by blast
  have "rev ms1 ! 0 \<noteq> rev ?ms2 ! 0"
    using rt by (simp add: nth_append)
  then have "masterSecret a3 \<noteq> masterSecret b1"
    using a3(2) r(3) by auto
  then show ?thesis
    using ab(1) a3(1) trans [OF a3(3) r(4) [symmetric]] by blast
qed

end
