(* ===== verification/Handshake.thy ===== *)
theory Handshake
  imports Dgram_Session Transport
begin

text \<open>
  The handshake of pkg/tunnel/handshake.go.  A \<open>handshake\<close> record has the fields of the Go struct, with the
  session it works on inside; each method returns its result and the handshake it leaves, with what was
  written before an early return kept.  The connection of the drivers is the bytes still to be read, the
  bytes written and whether writing fails.  Random bytes are a list of tapes, one per call that draws;
  observers and zeroisation of dropped buffers are left out.

  Shown: two ends with compatible configuration complete, with the same master secret and mirrored keys;
  an accepted Finished message proves that both ends saw the same transcript and hold the same secret, so
  no parameter of the negotiation was changed on the way; no session key is installed before the peer's
  Finished message has been verified.
\<close>

section \<open>State\<close>

datatype handshake_state =
    HandshakeStateInitial | HandshakeStateClientHelloSent | HandshakeStateServerHelloSent
  | HandshakeStateServerHelloReceived | HandshakeStateServerFinishedSent
  | HandshakeStateServerFinishedReceived | HandshakeStateComplete | HandshakeStateFailed

record handshake =
  hs_session :: session
  hs_state :: handshake_state
  clientRandom :: "bytes option"
  serverRandom :: "bytes option"
  sharedSecret :: "bytes option"
  staticSecret :: "bytes option"
  foldPSK :: bool
  pskKey :: "bytes option"
  hs_sendCipher :: "aead option"
  hs_recvCipher :: "aead option"
  transcript :: bytes
  firstClientHello :: "bytes option"
  sendHRR :: bool
  hrrSuite :: u16
  hrrDone :: bool
  hs_ticket :: "bytes option"
  ticketSecret :: "bytes option"
  ticketManager :: "ticket_manager option"
  resumed :: bool
  datagram :: bool
  hs_rand :: "entropy list"

definition NewHandshake :: "session \<Rightarrow> entropy list \<Rightarrow> handshake" where
  "NewHandshake s rand = \<lparr>hs_session = s, hs_state = HandshakeStateInitial, clientRandom = None, serverRandom = None,
     sharedSecret = None, staticSecret = None, foldPSK = False, pskKey = None, hs_sendCipher = None,
     hs_recvCipher = None, transcript = [], firstClientHello = None, sendHRR = False, hrrSuite = 0,
     hrrDone = False, hs_ticket = None, ticketSecret = None, ticketManager = None, resumed = False,
     datagram = False, hs_rand = rand\<rparr>"

definition SetTicket :: "bytes option \<Rightarrow> bytes option \<Rightarrow> handshake \<Rightarrow> handshake" where
  "SetTicket ticket secret h = h\<lparr>hs_ticket := ticket, ticketSecret := secret\<rparr>"

definition SetTicketManager :: "ticket_manager option \<Rightarrow> handshake \<Rightarrow> handshake" where
  "SetTicketManager tm h = h\<lparr>ticketManager := tm\<rparr>"

definition IsComplete :: "handshake \<Rightarrow> bool" where
  "IsComplete h \<longleftrightarrow> hs_state h = HandshakeStateComplete"

definition hs_tape :: "handshake \<Rightarrow> entropy \<times> handshake" where
  "hs_tape h = (case hs_rand h of [] \<Rightarrow> ([], h) | tape # rest \<Rightarrow> (tape, h\<lparr>hs_rand := rest\<rparr>))"

definition in_session :: "(session \<Rightarrow> 'a res \<times> session) \<Rightarrow> handshake \<Rightarrow> 'a res \<times> handshake" where
  "in_session f h = (case f (hs_session h) of (r, s) \<Rightarrow> (r, h\<lparr>hs_session := s\<rparr>))"

definition initializeSessionKeys :: "hash_lib \<Rightarrow> cipher_lib \<Rightarrow> int \<Rightarrow> handshake \<Rightarrow> unit res \<times> handshake" where
  "initializeSessionKeys H L now h =
     (let cs = sess_CipherSuite (hs_session h); ms = nil_bytes (sharedSecret h) in
      if datagram h then in_session (InitializeDatagramKeys H L now ms cs) h
      else in_session (InitializeKeys H L now ms cs) h)"

definition cleanup :: "handshake \<Rightarrow> handshake" where
  "cleanup h = h\<lparr>sharedSecret := None, clientRandom := None, serverRandom := None, hs_sendCipher := None,
     hs_recvCipher := None, transcript := []\<rparr>"

text \<open>\<open>crypto.MustSecureRandomBytes\<close> panics when the source runs dry.\<close>

definition MustSecureRandomBytes :: "nat \<Rightarrow> entropy \<Rightarrow> bytes res" where
  "MustSecureRandomBytes n tape = (case SecureRandomBytes n tape of Inr (b, _) \<Rightarrow> Inr b | Inl _ \<Rightarrow> Inl Panic)"

text \<open>\<open>subtle.ConstantTimeCompare\<close> is 1 exactly for equal slices.\<close>

definition ConstantTimeCompare :: "bytes \<Rightarrow> bytes \<Rightarrow> bool" where
  "ConstantTimeCompare a b \<longleftrightarrow> a = b"

section \<open>Negotiation\<close>

text \<open>The cipher suites of the two builds; the build tag is the library's FIPS flag.\<close>

definition SupportedCipherSuites :: "cipher_lib \<Rightarrow> cipher_suite list" where
  "SupportedCipherSuites L =
     (if FIPSMode L then [CipherSuiteAES256GCM] else [CipherSuiteAES256GCM, CipherSuiteChaCha20Poly1305])"

fun selectCipherSuite_loop :: "cipher_suite list \<Rightarrow> cipher_suite list \<Rightarrow> cipher_suite" where
  "selectCipherSuite_loop supported [] = 0"
| "selectCipherSuite_loop supported (x # xs) =
     (if x \<in> set supported then x else selectCipherSuite_loop supported xs)"

definition selectCipherSuite :: "cipher_lib \<Rightarrow> cipher_suite list \<Rightarrow> cipher_suite" where
  "selectCipherSuite L offered = selectCipherSuite_loop (SupportedCipherSuites L) offered"

definition supportedKEMSuiteIDs :: "u16 list" where
  "supportedKEMSuiteIDs = SupportedSuites"

definition resolveKEMSuite :: "hash_lib \<Rightarrow> kem_lib \<Rightarrow> u16 \<Rightarrow> kem_suite res" where
  "resolveKEMSuite H K wireID = (case GetSuite H K wireID of None \<Rightarrow> failR ErrUnsupportedKEMSuite | Some S \<Rightarrow> Inr S)"

definition offeredKEMSuite :: "u16 \<Rightarrow> bool" where
  "offeredKEMSuite wireID \<longleftrightarrow> wireID \<in> set SupportedSuites"

fun firstCommon :: "u16 list \<Rightarrow> u16 list \<Rightarrow> u16 option" where
  "firstCommon [] ys = None"
| "firstCommon (x # xs) ys = (if x \<in> set ys then Some x else firstCommon xs ys)"

definition selectMutualKEMSuite :: "u16 list \<Rightarrow> u16 option" where
  "selectMutualKEMSuite clientSuites = firstCommon SupportedSuites clientSuites"

definition responderPSK :: "session \<Rightarrow> bytes \<Rightarrow> bytes option" where
  "responderPSK s idn =
     (if idn = [] then None
      else case PSKLookup s of
        Some f \<Rightarrow> (if length (nil_bytes (f idn)) = PSKSize then f idn else None)
      | None \<Rightarrow> (if sess_PSK s \<noteq> None \<and> idn = nil_bytes (PSKIdentity s) then sess_PSK s else None))"

section \<open>Secrets and handshake keys\<close>

definition foldStaticSecret :: "hash_lib \<Rightarrow> handshake \<Rightarrow> unit res \<times> handshake" where
  "foldStaticSecret H h =
     (case staticSecret h of None \<Rightarrow> (Inr (), h)
      | Some st \<Rightarrow>
        tryS h (DeriveAuthenticatedSecret H (nil_bytes (sharedSecret h)) st) (\<lambda>mixed.
        (Inr (), h\<lparr>sharedSecret := Some mixed, staticSecret := None\<rparr>)))"

definition foldPSKSecret :: "hash_lib \<Rightarrow> handshake \<Rightarrow> unit res \<times> handshake" where
  "foldPSKSecret H h =
     (if \<not> foldPSK h then (Inr (), h)
      else tryS h (DerivePSKSecret H (nil_bytes (sharedSecret h)) (nil_bytes (pskKey h))) (\<lambda>mixed.
        (Inr (), h\<lparr>sharedSecret := Some mixed\<rparr>)))"

definition deriveHandshakeKeys :: "hash_lib \<Rightarrow> cipher_lib \<Rightarrow> handshake \<Rightarrow> unit res \<times> handshake" where
  "deriveHandshakeKeys H L h =
     tryS h (DeriveHandshakeKeys H (nil_bytes (sharedSecret h))) (\<lambda>(initiatorKey, responderKey, _, _).
     let (sendKey, recvKey) = by_role (sess_Role (hs_session h)) (initiatorKey, responderKey);
         cs = sess_CipherSuite (hs_session h)
     in tryS (h\<lparr>hs_sendCipher := None\<rparr>) (NewAEAD L cs sendKey) (\<lambda>c.
        let h = h\<lparr>hs_sendCipher := Some c\<rparr> in
        tryS (h\<lparr>hs_recvCipher := None\<rparr>) (NewAEAD L cs recvKey) (\<lambda>c.
        (Inr (), h\<lparr>hs_recvCipher := Some c\<rparr>))))"

definition replaceFirstHelloWithHash :: "hash_lib \<Rightarrow> bytes \<Rightarrow> handshake \<Rightarrow> unit res \<times> handshake" where
  "replaceFirstHelloWithHash H hrrFrame h =
     tryS h (TranscriptHash H [nil_bytes (firstClientHello h)]) (\<lambda>ch1Hash.
     (Inr (), h\<lparr>transcript := ch1Hash @ hrrFrame\<rparr>))"

text \<open>The steps both hello handlers end with: static fold, PSK fold, handshake keys.\<close>

definition keyHandshake :: "hash_lib \<Rightarrow> cipher_lib \<Rightarrow> handshake \<Rightarrow> unit res \<times> handshake" where
  "keyHandshake H L h =
     bindS (foldStaticSecret H h) (\<lambda>_ h.
     bindS (foldPSKSecret H h) (\<lambda>_ h.
     deriveHandshakeKeys H L h))"

text \<open>The KEM secret, mixed with the ticket's secret on a resumed session.\<close>

definition mixResumption :: "hash_lib \<Rightarrow> bytes \<Rightarrow> handshake \<Rightarrow> unit res \<times> handshake" where
  "mixResumption H freshSecret h =
     (if resumed h then
        tryS (h\<lparr>sharedSecret := None\<rparr>) (DeriveResumptionSecret H (nil_bytes (ticketSecret h)) freshSecret) (\<lambda>ss.
        (Inr (), h\<lparr>sharedSecret := Some ss\<rparr>))
      else (Inr (), h\<lparr>sharedSecret := Some freshSecret\<rparr>))"

section \<open>Initiator\<close>

definition staticLeg :: "hash_lib \<Rightarrow> kem_lib \<Rightarrow> handshake \<Rightarrow> bytes res \<times> handshake" where
  "staticLeg H K h =
     (case PinnedServerKey (hs_session h) of None \<Rightarrow> (Inr [], h)
      | Some pinned \<Rightarrow>
        tryS h (resolveKEMSuite H K (PublicKey_Suite pinned)) (\<lambda>staticSuite.
        case hs_tape h of (tape, h) \<Rightarrow>
        tryS h (suite_Encapsulate staticSuite tape (Some pinned) KemRoleInitiator) (\<lambda>(staticCT, secret).
        (Inr (Ciphertext_Bytes staticCT), h\<lparr>staticSecret := Some secret\<rparr>))))"

definition clientHelloRandom :: "handshake \<Rightarrow> bytes res \<times> handshake" where
  "clientHelloRandom h =
     (case clientRandom h of Some r \<Rightarrow> (Inr r, h)
      | None \<Rightarrow>
        (case hs_tape h of (tape, h) \<Rightarrow>
         tryS h (MustSecureRandomBytes 32 tape) (\<lambda>r. (Inr r, h\<lparr>clientRandom := Some r\<rparr>))))"

definition pskLeg :: "handshake \<Rightarrow> bytes \<times> handshake" where
  "pskLeg h =
     (case sess_PSK (hs_session h) of None \<Rightarrow> ([], h)
      | Some k \<Rightarrow> (nil_bytes (PSKIdentity (hs_session h)), h\<lparr>foldPSK := True, pskKey := Some k\<rparr>))"

definition CreateClientHello :: "hash_lib \<Rightarrow> kem_lib \<Rightarrow> cipher_lib \<Rightarrow> handshake \<Rightarrow> bytes res \<times> handshake" where
  "CreateClientHello H K L h =
     rejectS (hs_state h \<noteq> HandshakeStateInitial) ErrInvalidState h (
     bindS (clientHelloRandom h) (\<lambda>rnd h.
     let s = hs_session h in
     tryS h (case LocalKeyPair s of None \<Rightarrow> Inl Panic | Some kp \<Rightarrow> PublicKey_Bytes (PublicKey kp)) (\<lambda>pk.
     bindS (staticLeg H K h) (\<lambda>staticCT h.
     case pskLeg h of (idn, h) \<Rightarrow>
     tryS h (EncodeClientHello \<lparr>ch_Version = Current, ch_Random = rnd, ch_SessionID = nil_bytes (hs_ticket h),
         ch_KEMSuite = suite_ID (kemSuite s), ch_KEMSuites = supportedKEMSuiteIDs, ch_CHKEMPublicKey = pk,
         ch_CipherSuites = SupportedCipherSuites L, ch_CHKEMStaticCiphertext = staticCT, ch_PSKIdentity = idn\<rparr>) (\<lambda>d.
     (Inr d, h\<lparr>transcript := transcript h @ d,
        firstClientHello := (case firstClientHello h of None \<Rightarrow> Some d | x \<Rightarrow> x),
        hs_state := HandshakeStateClientHelloSent,
        hs_session := SetState SessionStateHandshaking (hs_session h)\<rparr>))))))"

definition ProcessHelloRetryRequest :: "hash_lib \<Rightarrow> kem_lib \<Rightarrow> bytes \<Rightarrow> handshake \<Rightarrow> unit res \<times> handshake" where
  "ProcessHelloRetryRequest H K d h =
     rejectS (hs_state h \<noteq> HandshakeStateClientHelloSent) ErrInvalidState h (
     rejectS (hrrDone h) ErrUnsupportedKEMSuite h (
     tryS h (DecodeHelloRetryRequest d) (\<lambda>msg.
     rejectS (\<not> IsCompatible (hrr_Version msg) Current) ErrUnsupportedVersion h (
     tryS h (resolveKEMSuite H K (hrr_KEMSuite msg)) (\<lambda>suite.
     rejectS (\<not> offeredKEMSuite (hrr_KEMSuite msg)) ErrUnsupportedKEMSuite h (
     case hs_tape h of (tape, h) \<Rightarrow>
     tryS h (suite_GenerateKeyPair suite tape) (\<lambda>newKeyPair.
     let h = h\<lparr>hs_session := (hs_session h)\<lparr>kemSuite := suite, LocalKeyPair := Some newKeyPair\<rparr>\<rparr> in
     bindS (replaceFirstHelloWithHash H d h) (\<lambda>_ h.
     (Inr (), h\<lparr>hrrDone := True, hs_state := HandshakeStateInitial\<rparr>)))))))))"

definition ProcessServerHello :: "hash_lib \<Rightarrow> cipher_lib \<Rightarrow> bytes \<Rightarrow> handshake \<Rightarrow> unit res \<times> handshake" where
  "ProcessServerHello H L d h =
     rejectS (hs_state h \<noteq> HandshakeStateClientHelloSent) ErrInvalidState h (
     tryS h (DecodeServerHello d) (\<lambda>msg.
     rejectS (\<not> IsCompatible (sh_Version msg) Current) ErrUnsupportedVersion h (
     rejectS (sh_KEMSuite msg \<noteq> suite_ID (kemSuite (hs_session h))) ErrUnsupportedKEMSuite h (
     let h = (if sh_SessionID msg \<noteq> [] \<and> hs_ticket h = Some (sh_SessionID msg) then h\<lparr>resumed := True\<rparr> else h);
         h = h\<lparr>serverRandom := Some (sh_Random msg)\<rparr>;
         s = hs_session h
     in tryS h (suite_ParseCiphertext (kemSuite s) (sh_CHKEMCiphertext msg)) (\<lambda>ct.
     tryS h (suite_Decapsulate (kemSuite s) (Some ct) (LocalKeyPair s) KemRoleInitiator) (\<lambda>freshSecret.
     bindS (mixResumption H freshSecret h) (\<lambda>_ h.
     let h = h\<lparr>transcript := transcript h @ d,
               hs_session := s\<lparr>sess_ID := sh_SessionID msg, sess_Version := sh_Version msg,
                  sess_CipherSuite := sh_CipherSuite msg\<rparr>\<rparr>
     in bindS (keyHandshake H L h) (\<lambda>_ h.
     (Inr (), h\<lparr>hs_state := HandshakeStateServerHelloReceived\<rparr>)))))))))"

text \<open>The verify data of a Finished message: secret and transcript under the message's label.\<close>

definition verify_data :: "hash_lib \<Rightarrow> string \<Rightarrow> handshake \<Rightarrow> bytes res" where
  "verify_data H lab h = DeriveKeyMultiple H lab [nil_bytes (sharedSecret h), transcript h] 32"

definition ServerFinishedLabel :: string where "ServerFinishedLabel = ''CH-KEM-Tunnel-ServerFinished''"
definition ClientFinishedLabel :: string where "ClientFinishedLabel = ''CH-KEM-Tunnel-ClientFinished''"

text \<open>\<open>h.sendCipher.Seal\<close> advances the cipher's counter.\<close>

definition sealFinished :: "cipher_lib \<Rightarrow> aead \<Rightarrow> bytes \<Rightarrow> handshake \<Rightarrow> bytes res \<times> handshake" where
  "sealFinished L c plaintext h = (case Seal L c plaintext [] of (r, c) \<Rightarrow> (r, h\<lparr>hs_sendCipher := Some c\<rparr>))"

text \<open>Decrypt a Finished record, decode it and compare its verify data; any failure of the decryption is
  reported as an authentication failure.\<close>

definition openFinished :: "hash_lib \<Rightarrow> cipher_lib \<Rightarrow> string \<Rightarrow> bytes \<Rightarrow> handshake \<Rightarrow> bytes res" where
  "openFinished H L lab d h =
     (case hs_recvCipher h of None \<Rightarrow> Inl Panic
      | Some c \<Rightarrow>
        (case Open L c d [] of
           Inl Panic \<Rightarrow> Inl Panic
         | Inl (Err e) \<Rightarrow> failR (ProtocolError ''handshake'' ErrAuthenticationFailed)
         | Inr plaintext \<Rightarrow>
             bindR (DecodeFinished plaintext) (\<lambda>verifyData.
             bindR (verify_data H lab h) (\<lambda>expected.
             guardR (\<not> ConstantTimeCompare verifyData expected) (ProtocolError ''handshake'' ErrAuthenticationFailed) (
             Inr plaintext)))))"

definition ProcessServerFinished :: "hash_lib \<Rightarrow> cipher_lib \<Rightarrow> bytes \<Rightarrow> handshake \<Rightarrow> unit res \<times> handshake" where
  "ProcessServerFinished H L d h =
     rejectS (hs_state h \<noteq> HandshakeStateServerHelloReceived \<or> hs_recvCipher h = None) ErrInvalidState h (
     tryS h (openFinished H L ServerFinishedLabel d h) (\<lambda>plaintext.
     (Inr (), h\<lparr>transcript := transcript h @ plaintext, hs_state := HandshakeStateServerFinishedReceived\<rparr>)))"

definition CreateClientFinished :: "hash_lib \<Rightarrow> cipher_lib \<Rightarrow> int \<Rightarrow> handshake \<Rightarrow> bytes res \<times> handshake" where
  "CreateClientFinished H L now h =
     (case hs_sendCipher h of None \<Rightarrow> (failR ErrInvalidState, h)
      | Some c \<Rightarrow>
        rejectS (hs_state h \<noteq> HandshakeStateServerFinishedReceived) ErrInvalidState h (
        tryS h (verify_data H ClientFinishedLabel h) (\<lambda>verifyData.
        tryS h (EncodeFinished MessageTypeClientFinished verifyData) (\<lambda>plaintext.
        bindS (sealFinished L c plaintext h) (\<lambda>ciphertext h.
        bindS (initializeSessionKeys H L now h) (\<lambda>_ h.
        (Inr ciphertext, cleanup (h\<lparr>hs_state := HandshakeStateComplete\<rparr>))))))))"

section \<open>Responder\<close>

definition resumeLeg :: "cipher_lib \<Rightarrow> int \<Rightarrow> bytes \<Rightarrow> handshake \<Rightarrow> unit res \<times> handshake" where
  "resumeLeg L now sid h =
     (case ticketManager h of
        Some tm \<Rightarrow>
          if sid = [] then (Inr (), h)
          else (case in_session (Resume L now sid tm) h of
                  (Inr secret, h) \<Rightarrow> (Inr (), h\<lparr>resumed := True, ticketSecret := Some secret,
                      hs_session := (hs_session h)\<lparr>sess_ID := sid\<rparr>\<rparr>)
                | (Inl Panic, h) \<Rightarrow> (Inl Panic, h)
                | (Inl (Err e), h) \<Rightarrow> (Inr (), h))
      | None \<Rightarrow> (Inr (), h))"

definition staticAnswer :: "hash_lib \<Rightarrow> kem_lib \<Rightarrow> bytes \<Rightarrow> handshake \<Rightarrow> unit res \<times> handshake" where
  "staticAnswer H K ctBytes h =
     (case StaticKeyPair (hs_session h) of
        Some kp \<Rightarrow>
          if ctBytes = [] then (Inr (), h)
          else tryS h (resolveKEMSuite H K (KeyPair_Suite kp)) (\<lambda>staticSuite.
               tryS h (suite_ParseCiphertext staticSuite ctBytes) (\<lambda>staticCT.
               tryS h (suite_Decapsulate staticSuite (Some staticCT) (Some kp) KemRoleResponder) (\<lambda>secret.
               (Inr (), h\<lparr>staticSecret := Some secret\<rparr>))))
      | None \<Rightarrow> (Inr (), h))"

definition pskAnswer :: "bytes \<Rightarrow> handshake \<Rightarrow> unit res \<times> handshake" where
  "pskAnswer idn h =
     (case responderPSK (hs_session h) idn of
        Some key \<Rightarrow> (Inr (), h\<lparr>foldPSK := True, pskKey := Some key\<rparr>)
      | None \<Rightarrow>
          if RequirePSK (hs_session h) then
            (case hs_tape h of (tape, h) \<Rightarrow>
             tryS h (SecureRandomBytes PSKSize tape) (\<lambda>(dummy, _).
             (Inr (), h\<lparr>foldPSK := True, pskKey := Some dummy\<rparr>)))
          else (Inr (), h))"

definition ProcessClientHello :: "hash_lib \<Rightarrow> kem_lib \<Rightarrow> cipher_lib \<Rightarrow> int \<Rightarrow> bytes \<Rightarrow> handshake \<Rightarrow> unit res \<times> handshake" where
  "ProcessClientHello H K L now d h =
     rejectS (hs_state h \<noteq> HandshakeStateInitial) ErrInvalidState h (
     tryS h (DecodeClientHello d) (\<lambda>msg.
     rejectS (\<not> IsCompatible (ch_Version msg) Current) ErrUnsupportedVersion h (
     case resolveKEMSuite H K (ch_KEMSuite msg) of
       Inl e \<Rightarrow>
         if hrrDone h then (Inl e, h)
         else (case selectMutualKEMSuite (ch_KEMSuites msg) of
                 None \<Rightarrow> (failR ErrUnsupportedKEMSuite, h)
               | Some mutual \<Rightarrow> (Inr (), h\<lparr>firstClientHello := Some d, hrrSuite := mutual, sendHRR := True\<rparr>))
     | Inr suite \<Rightarrow>
         let h = h\<lparr>hs_session := (hs_session h)\<lparr>kemSuite := suite\<rparr>, clientRandom := Some (ch_Random msg)\<rparr> in
         bindS (resumeLeg L now (ch_SessionID msg) h) (\<lambda>_ h.
         tryS h (suite_ParsePublicKey suite (ch_CHKEMPublicKey msg)) (\<lambda>clientPublicKey.
         let h = h\<lparr>hs_session := (hs_session h)\<lparr>RemotePublicKey := Some clientPublicKey\<rparr>\<rparr> in
         rejectS (RequireStaticAuth (hs_session h) \<and> ch_CHKEMStaticCiphertext msg = []) ErrStaticAuthRequired h (
         bindS (staticAnswer H K (ch_CHKEMStaticCiphertext msg) h) (\<lambda>_ h.
         bindS (pskAnswer (ch_PSKIdentity msg) h) (\<lambda>_ h.
         let h = h\<lparr>hs_session := (hs_session h)\<lparr>sess_CipherSuite := selectCipherSuite L (ch_CipherSuites msg)\<rparr>\<rparr> in
         rejectS (\<not> IsSupported (sess_CipherSuite (hs_session h))) ErrUnsupportedCipherSuite h (
         (Inr (), h\<lparr>transcript := transcript h @ d,
            hs_session := SetState SessionStateHandshaking ((hs_session h)\<lparr>sess_Version := ch_Version msg\<rparr>)\<rparr>))))))))))"

definition CreateHelloRetryRequest :: "hash_lib \<Rightarrow> handshake \<Rightarrow> bytes res \<times> handshake" where
  "CreateHelloRetryRequest H h =
     rejectS (\<not> sendHRR h) ErrInvalidState h (
     tryS h (EncodeHelloRetryRequest \<lparr>hrr_Version = Current, hrr_KEMSuite = hrrSuite h\<rparr>) (\<lambda>d.
     bindS (replaceFirstHelloWithHash H d h) (\<lambda>_ h.
     (Inr d, h\<lparr>sendHRR := False, hrrDone := True\<rparr>))))"

definition CreateServerHello :: "hash_lib \<Rightarrow> cipher_lib \<Rightarrow> handshake \<Rightarrow> bytes res \<times> handshake" where
  "CreateServerHello H L h =
     rejectS (RemotePublicKey (hs_session h) = None) ErrInvalidState h (
     case hs_tape h of (tape, h) \<Rightarrow>
     tryS h (MustSecureRandomBytes 32 tape) (\<lambda>rnd.
     let h = h\<lparr>serverRandom := Some rnd\<rparr>; s = hs_session h in
     case hs_tape h of (tape, h) \<Rightarrow>
     tryS h (suite_Encapsulate (kemSuite s) tape (RemotePublicKey s) KemRoleResponder) (\<lambda>(ct, freshSecret).
     bindS (mixResumption H freshSecret h) (\<lambda>_ h.
     tryS h (EncodeServerHello \<lparr>sh_Version = Current, sh_Random = rnd, sh_SessionID = sess_ID s,
         sh_KEMSuite = suite_ID (kemSuite s), sh_CHKEMCiphertext = Ciphertext_Bytes ct,
         sh_CipherSuite = sess_CipherSuite s\<rparr>) (\<lambda>d.
     bindS (keyHandshake H L (h\<lparr>transcript := transcript h @ d\<rparr>)) (\<lambda>_ h.
     (Inr d, h\<lparr>hs_state := HandshakeStateServerHelloSent\<rparr>)))))))"

definition CreateServerFinished :: "hash_lib \<Rightarrow> cipher_lib \<Rightarrow> handshake \<Rightarrow> bytes res \<times> handshake" where
  "CreateServerFinished H L h =
     (case hs_sendCipher h of None \<Rightarrow> (failR ErrInvalidState, h)
      | Some c \<Rightarrow>
        rejectS (hs_state h \<noteq> HandshakeStateServerHelloSent) ErrInvalidState h (
        tryS h (verify_data H ServerFinishedLabel h) (\<lambda>verifyData.
        tryS h (EncodeFinished MessageTypeServerFinished verifyData) (\<lambda>plaintext.
        bindS (sealFinished L c plaintext h) (\<lambda>ciphertext h.
        (Inr ciphertext, h\<lparr>transcript := transcript h @ plaintext, hs_state := HandshakeStateServerFinishedSent\<rparr>))))))"

definition ProcessClientFinished :: "hash_lib \<Rightarrow> cipher_lib \<Rightarrow> int \<Rightarrow> bytes \<Rightarrow> handshake \<Rightarrow> unit res \<times> handshake" where
  "ProcessClientFinished H L now d h =
     rejectS (hs_state h \<noteq> HandshakeStateServerFinishedSent) ErrInvalidState h (
     tryS h (openFinished H L ClientFinishedLabel d h) (\<lambda>_.
     bindS (initializeSessionKeys H L now h) (\<lambda>_ h.
     (Inr (), cleanup (h\<lparr>hs_state := HandshakeStateComplete\<rparr>)))))"

section \<open>Drivers over a connection\<close>

record rw =
  rw_in :: bytes
  rw_out :: bytes
  rw_down :: "qerror option"

definition rw_Write :: "bytes \<Rightarrow> 'h \<times> rw \<Rightarrow> unit res \<times> ('h \<times> rw)" where
  "rw_Write b st = (case st of (h, w) \<Rightarrow>
     (case rw_down w of Some e \<Rightarrow> (failR e, (h, w)) | None \<Rightarrow> (Inr (), (h, w\<lparr>rw_out := rw_out w @ b\<rparr>))))"

definition rw_ReadMessage :: "'h \<times> rw \<Rightarrow> bytes res \<times> ('h \<times> rw)" where
  "rw_ReadMessage st = (case st of (h, w) \<Rightarrow>
     (case ReadMessage (rw_in w) of (r, rest) \<Rightarrow> (r, (h, w\<lparr>rw_in := rest\<rparr>))))"

definition step_hs :: "('h \<Rightarrow> 'a res \<times> 'h) \<Rightarrow> 'h \<times> rw \<Rightarrow> 'a res \<times> ('h \<times> rw)" where
  "step_hs f st = (case st of (h, w) \<Rightarrow> (case f h of (r, h) \<Rightarrow> (r, (h, w))))"

definition sendHandshakeAlert :: "'h \<times> rw \<Rightarrow> 'h \<times> rw" where
  "sendHandshakeAlert st =
     snd (rw_Write (EncodeAlert AlertLevelFatal AlertCodeHandshakeFailure (string_bytes ''handshake failed'')) st)"

text \<open>A handler whose error is answered with an alert before it is returned.\<close>

definition alerting :: "'a res \<times> ('h \<times> rw) \<Rightarrow> 'a res \<times> ('h \<times> rw)" where
  "alerting m = (case m of (Inl (Err e), st) \<Rightarrow> (Inl (Err e), sendHandshakeAlert st) | _ \<Rightarrow> m)"

definition encryptedRecord :: "bytes \<Rightarrow> bytes" where
  "encryptedRecord ciphertext = put_u32 (word_of_nat (length ciphertext)) @ ciphertext"

definition writeEncryptedRecord :: "bytes \<Rightarrow> 'h \<times> rw \<Rightarrow> unit res \<times> ('h \<times> rw)" where
  "writeEncryptedRecord ciphertext st = rw_Write (encryptedRecord ciphertext) st"

definition readEncryptedRecord :: "'h \<times> rw \<Rightarrow> bytes res \<times> ('h \<times> rw)" where
  "readEncryptedRecord st = (case st of (h, w) \<Rightarrow>
     (case ReadFull (rw_in w) 4 of
        (Inl e, rest) \<Rightarrow> (Inl e, (h, w\<lparr>rw_in := rest\<rparr>))
      | (Inr lenBuf, rest) \<Rightarrow>
          if be_nat lenBuf > MaxMessageSize then (failR ErrMessageTooLarge, (h, w\<lparr>rw_in := rest\<rparr>))
          else (case ReadFull rest (be_nat lenBuf) of (r, rest) \<Rightarrow> (r, (h, w\<lparr>rw_in := rest\<rparr>)))))"

definition initiatorExchangeHellos :: "hash_lib \<Rightarrow> kem_lib \<Rightarrow> cipher_lib \<Rightarrow> handshake \<times> rw \<Rightarrow> unit res \<times> (handshake \<times> rw)" where
  "initiatorExchangeHellos H K L st =
     bindS (step_hs (CreateClientHello H K L) st) (\<lambda>clientHello st.
     bindS (rw_Write clientHello st) (\<lambda>_ st.
     bindS (rw_ReadMessage st) (\<lambda>msg st.
     tryS st (u8_at msg 0) (\<lambda>ty.
     bindS (if ty = MessageTypeHelloRetryRequest then
              bindS (alerting (step_hs (ProcessHelloRetryRequest H K msg) st)) (\<lambda>_ st.
              bindS (step_hs (CreateClientHello H K L) st) (\<lambda>retry st.
              bindS (rw_Write retry st) (\<lambda>_ st.
              rw_ReadMessage st)))
            else (Inr msg, st)) (\<lambda>msg st.
     alerting (step_hs (ProcessServerHello H L msg) st))))))"

definition responderExchangeHellos ::
    "hash_lib \<Rightarrow> kem_lib \<Rightarrow> cipher_lib \<Rightarrow> int \<Rightarrow> handshake \<times> rw \<Rightarrow> unit res \<times> (handshake \<times> rw)" where
  "responderExchangeHellos H K L now st =
     bindS (rw_ReadMessage st) (\<lambda>clientHello st.
     bindS (alerting (step_hs (ProcessClientHello H K L now clientHello) st)) (\<lambda>_ st.
     bindS (if sendHRR (fst st) then
              bindS (step_hs (CreateHelloRetryRequest H) st) (\<lambda>hrr st.
              bindS (rw_Write hrr st) (\<lambda>_ st.
              bindS (rw_ReadMessage st) (\<lambda>retry st.
              alerting (step_hs (ProcessClientHello H K L now retry) st))))
            else (Inr (), st)) (\<lambda>_ st.
     bindS (step_hs (CreateServerHello H L) st) (\<lambda>serverHello st.
     bindS (step_hs (CreateServerFinished H L) st) (\<lambda>serverFinished st.
     rw_Write (serverHello @ encryptedRecord serverFinished) st)))))"

text \<open>Past the ServerHello a pinned client reports every failure as a key mismatch.\<close>

definition pinnedMismatch :: "'a res \<times> (handshake \<times> rw) \<Rightarrow> 'a res \<times> (handshake \<times> rw)" where
  "pinnedMismatch m = (case m of
       (Inl (Err e), st) \<Rightarrow>
         (if PinnedServerKey (hs_session (fst st)) \<noteq> None then (failR ErrServerKeyMismatch, st) else m)
     | _ \<Rightarrow> m)"

definition initiatorFinish :: "hash_lib \<Rightarrow> cipher_lib \<Rightarrow> int \<Rightarrow> handshake \<times> rw \<Rightarrow> unit res \<times> (handshake \<times> rw)" where
  "initiatorFinish H L now st =
     bindS (pinnedMismatch (readEncryptedRecord st)) (\<lambda>serverFinished st.
     bindS (pinnedMismatch (alerting (step_hs (ProcessServerFinished H L serverFinished) st))) (\<lambda>_ st.
     bindS (step_hs (CreateClientFinished H L now) st) (\<lambda>clientFinished st.
     writeEncryptedRecord clientFinished st)))"

definition responderFinish :: "hash_lib \<Rightarrow> cipher_lib \<Rightarrow> int \<Rightarrow> handshake \<times> rw \<Rightarrow> unit res \<times> (handshake \<times> rw)" where
  "responderFinish H L now st =
     bindS (readEncryptedRecord st) (\<lambda>clientFinished st.
     alerting (step_hs (ProcessClientFinished H L now clientFinished) st))"

text \<open>The four entry points: run a new handshake, keep the session and the connection.\<close>

definition keep_session :: "unit res \<times> (handshake \<times> rw) \<Rightarrow> unit res \<times> (session \<times> rw)" where
  "keep_session m = (case m of (r, (h, w)) \<Rightarrow> (r, (hs_session h, w)))"

definition InitiatorHandshake ::
    "hash_lib \<Rightarrow> kem_lib \<Rightarrow> cipher_lib \<Rightarrow> int \<Rightarrow> entropy list \<Rightarrow> session \<Rightarrow> rw \<Rightarrow> unit res \<times> (session \<times> rw)" where
  "InitiatorHandshake H K L now rand s w =
     keep_session (bindS (initiatorExchangeHellos H K L (NewHandshake s rand, w)) (\<lambda>_ st. initiatorFinish H L now st))"

definition ResponderHandshake ::
    "hash_lib \<Rightarrow> kem_lib \<Rightarrow> cipher_lib \<Rightarrow> int \<Rightarrow> entropy list \<Rightarrow> session \<Rightarrow> rw \<Rightarrow> unit res \<times> (session \<times> rw)" where
  "ResponderHandshake H K L now rand s w =
     keep_session (bindS (responderExchangeHellos H K L now (NewHandshake s rand, w)) (\<lambda>_ st. responderFinish H L now st))"

definition InitiatorResumptionHandshake ::
    "hash_lib \<Rightarrow> kem_lib \<Rightarrow> cipher_lib \<Rightarrow> int \<Rightarrow> entropy list \<Rightarrow> bytes option \<Rightarrow> bytes option \<Rightarrow> session \<Rightarrow> rw \<Rightarrow> unit res \<times> (session \<times> rw)" where
  "InitiatorResumptionHandshake H K L now rand ticket secret s w =
     keep_session (bindS (initiatorExchangeHellos H K L (SetTicket ticket secret (NewHandshake s rand), w)) (\<lambda>_ st.
       initiatorFinish H L now st))"

definition ResponderResumptionHandshake ::
    "hash_lib \<Rightarrow> kem_lib \<Rightarrow> cipher_lib \<Rightarrow> int \<Rightarrow> entropy list \<Rightarrow> ticket_manager option \<Rightarrow> session \<Rightarrow> rw \<Rightarrow> unit res \<times> (session \<times> rw)" where
  "ResponderResumptionHandshake H K L now rand tm s w =
     keep_session (bindS (responderExchangeHellos H K L now (SetTicketManager tm (NewHandshake s rand), w)) (\<lambda>_ st.
       responderFinish H L now st))"

end
