(* ===== verification/Handshake_Run.thy ===== *)
theory Handshake_Run
  imports Handshake
begin

text \<open>
  The honest run of the handshake: with compatible configuration (pinned key and static identity,
  pre-shared key, ticket) the two drivers, each reading what the other writes, both complete, and the
  sessions they leave hold the same master secret and mirrored keys.  Each optional leg is treated by one
  lemma that says what it contributes at both ends.
\<close>

section \<open>Compatible configuration\<close>

text \<open>Pinning: a pinned key is the public half of the responder's static identity in a registered suite,
  and a responder that insists on static authentication meets a pinned client.\<close>

definition static_ok :: "hash_lib \<Rightarrow> kem_lib \<Rightarrow> session \<Rightarrow> session \<Rightarrow> bool" where
  "static_ok H K si sr \<longleftrightarrow>
     (case PinnedServerKey si of
        None \<Rightarrow> \<not> RequireStaticAuth sr
      | Some pk \<Rightarrow> \<exists>kp S. StaticKeyPair sr = Some kp \<and> pk = PublicKey kp \<and>
          GetSuite H K (PublicKey_Suite pk) = Some S \<and> PublicKey_Suite pk = KeyPair_Suite kp \<and> kem_serves_static S kp)"

text \<open>Pre-shared key: the responder finds the initiator's key under its identity.\<close>

definition psk_ok :: "session \<Rightarrow> session \<Rightarrow> bool" where
  "psk_ok si sr \<longleftrightarrow>
     (case sess_PSK si of
        None \<Rightarrow> \<not> RequirePSK sr
      | Some k \<Rightarrow> length k = PSKSize \<and> length (nil_bytes (PSKIdentity si)) \<le> MaxPSKIdentitySize \<and>
          responderPSK sr (nil_bytes (PSKIdentity si)) = Some k)"

text \<open>Ticket: the responder either accepts it and recovers the initiator's secret, or rejects it and
  answers with a session id of its own.\<close>

definition ticket_ok :: "cipher_lib \<Rightarrow> int \<Rightarrow> bytes option \<Rightarrow> bytes option \<Rightarrow> ticket_manager option \<Rightarrow> session \<Rightarrow> bool" where
  "ticket_ok L now ticket secret tm sr \<longleftrightarrow>
     (case ticket of
        None \<Rightarrow> True
      | Some t \<Rightarrow> t \<noteq> [] \<and> length t \<le> 255 \<and>
          (case tm of
             None \<Rightarrow> sess_ID sr \<noteq> t
           | Some m \<Rightarrow>
               (case DecryptTicket L now m t of
                  Inl e \<Rightarrow> e \<noteq> Panic \<and> sess_ID sr \<noteq> t
                | Inr tk \<Rightarrow> secret = Some (tk_MasterSecret tk) \<and> length (tk_MasterSecret tk) = 32)))"

definition initiator_ready :: "hash_lib \<Rightarrow> kem_lib \<Rightarrow> session \<Rightarrow> bool" where
  "initiator_ready H K s \<longleftrightarrow> sess_Role s = RoleInitiator \<and> GetSuite H K (suite_ID (kemSuite s)) = Some (kemSuite s) \<and>
     (\<exists>kp. LocalKeyPair s = Some kp \<and> kem_serves (kemSuite s) kp)"

definition responder_ready :: "session \<Rightarrow> bool" where
  "responder_ready s \<longleftrightarrow> sess_Role s = RoleResponder \<and> length (sess_ID s) \<le> 255"

text \<open>Two draws of at least 64 bytes are enough at each end.\<close>

definition tapes_ok :: "entropy list \<Rightarrow> bool" where
  "tapes_ok rand \<longleftrightarrow> 2 \<le> length rand \<and> list_all (\<lambda>t. 64 \<le> length t) rand"

lemma tapes_okE:
  assumes "tapes_ok rand"
  obtains t1 t2 rest where "rand = t1 # t2 # rest" "64 \<le> length t1" "64 \<le> length t2"
  using assms by (cases rand; cases "tl rand") (auto simp: tapes_ok_def)

lemma hs_tape_Cons [simp]: "hs_rand h = t # rest \<Longrightarrow> hs_tape h = (t, h\<lparr>hs_rand := rest\<rparr>)"
  by (simp add: hs_tape_def)

lemma MustSecureRandomBytes_ok [simp]: "n \<le> length tape \<Longrightarrow> MustSecureRandomBytes n tape = Inr (take n tape)"
  by (simp add: MustSecureRandomBytes_def SecureRandomBytes_def SecureRandom_def)

section \<open>The optional legs\<close>

lemma GetSuite_sizes:
  assumes "GetSuite H K sid = Some S"
  shows "0 < CiphertextSize S" "CiphertextSize S \<le> 1600" "0 < PublicKeySize S" "PublicKeySize S \<le> 1600"
  using assms by (auto simp: chkemV1_def xwingSuite_def kem_sizes elim!: GetSuite_cases)

lemma static_legs:
  assumes "hash_lib_ok H" "kem_lib_ok K" "static_ok H K (hs_session h) sr" "hs_rand h = t # rest" "64 \<le> length t" "staticSecret h = None"
  obtains ct so rand' where
    "staticLeg H K h = (Inr ct, h\<lparr>hs_rand := rand', staticSecret := so\<rparr>)"
    "\<And>x. so = Some x \<Longrightarrow> length x = 32" "length ct \<le> 1600" "RequireStaticAuth sr \<Longrightarrow> ct \<noteq> []"
    "\<And>g. StaticKeyPair (hs_session g) = StaticKeyPair sr \<Longrightarrow> staticSecret g = None \<Longrightarrow>
       staticAnswer H K ct g = (Inr (), g\<lparr>staticSecret := so\<rparr>)"
proof (cases "PinnedServerKey (hs_session h)")
  case None
  show ?thesis
    by (rule that [where ct = "[]" and so = None and rand' = "hs_rand h"]) (use None assms(3,6) in \<open>auto simp: staticLeg_def static_ok_def staticAnswer_def split: option.splits\<close>)
next
  case (Some pk)
  then obtain kp S where k: "StaticKeyPair sr = Some kp" "pk = PublicKey kp" "GetSuite H K (PublicKey_Suite pk) = Some S"
      "PublicKey_Suite pk = KeyPair_Suite kp" "kem_serves_static S kp"
    using assms(3) by (auto simp: static_ok_def)
  obtain ct ss where e: "suite_Encapsulate S t (Some (PublicKey kp)) KemRoleInitiator = Inr (ct, ss)"
    using k(5) assms(5) unfolding kem_serves_static_def by (metis surj_pair)
  then obtain ct' where c: "length ss = 32" "length (Ciphertext_Bytes ct) = CiphertextSize S"
      "suite_ParseCiphertext S (Ciphertext_Bytes ct) = Inr ct'" "suite_Decapsulate S (Some ct') (Some kp) KemRoleResponder = Inr ss"
    using k(5) unfolding kem_serves_static_def by blast
  have n: "0 < CiphertextSize S" "CiphertextSize S \<le> 1600"
    using GetSuite_sizes [OF k(3)] by simp_all
  show ?thesis
    by (rule that [where ct = "Ciphertext_Bytes ct" and so = "Some ss" and rand' = rest])
      (use Some assms(4) k e c n in \<open>auto simp: staticLeg_def staticAnswer_def resolveKEMSuite_def\<close>)
qed

lemma psk_legs:
  assumes "psk_ok (hs_session h) sr" "\<not> foldPSK h" "pskKey h = None"
  obtains idn b k where "pskLeg h = (idn, h\<lparr>foldPSK := b, pskKey := k\<rparr>)" "length idn \<le> 255" "b \<Longrightarrow> length (nil_bytes k) = 32"
    "\<And>g. responderPSK (hs_session g) = responderPSK sr \<Longrightarrow> RequirePSK (hs_session g) = RequirePSK sr \<Longrightarrow>
       \<not> foldPSK g \<Longrightarrow> pskKey g = None \<Longrightarrow> pskAnswer idn g = (Inr (), g\<lparr>foldPSK := b, pskKey := k\<rparr>)"
proof (cases "sess_PSK (hs_session h)")
  case None
  show ?thesis
    by (rule that [where idn = "[]" and b = False and k = None]) (use None assms in \<open>auto simp: pskLeg_def psk_ok_def pskAnswer_def responderPSK_def\<close>)
next
  case (Some k)
  show ?thesis
    by (rule that [where idn = "nil_bytes (PSKIdentity (hs_session h))" and b = True and k = "Some k"])
      (use Some assms in \<open>auto simp: pskLeg_def psk_ok_def pskAnswer_def constant_defs nil_bytes_def [of "Some _"]\<close>)
qed

text \<open>What the responder makes of the ticket, and what the initiator makes of the session id it answers.\<close>

lemma resume_legs:
  assumes "ticket_ok L now ticket secret (ticketManager g) sr" "sess_ID (hs_session g) = sess_ID sr"
    "\<not> resumed g" "length (sess_ID sr) \<le> 255"
  obtains b ts sid cs where
    "resumeLeg L now (nil_bytes ticket) g = (Inr (), g\<lparr>resumed := b, ticketSecret := (if b then ts else ticketSecret g),
       hs_session := (hs_session g)\<lparr>sess_ID := sid, sess_CipherSuite := cs\<rparr>\<rparr>)"
    "b \<Longrightarrow> ts = secret \<and> length (nil_bytes secret) = 32" "length sid \<le> 255"
    "(sid \<noteq> [] \<and> ticket = Some sid) \<longleftrightarrow> b"
proof (cases "\<exists>t m tk. ticket = Some t \<and> ticketManager g = Some m \<and> DecryptTicket L now m t = Inr tk")
  case True
  then obtain t m tk where t: "ticket = Some t" "ticketManager g = Some m" "DecryptTicket L now m t = Inr tk"
    by blast
  show ?thesis
    by (rule that [where b = True and ts = "Some (tk_MasterSecret tk)" and sid = t and cs = "tk_CipherSuite tk"])
      (use assms t in \<open>auto simp: ticket_ok_def resumeLeg_def in_session_def Resume_def nil_bytes_def\<close>)
next
  case False
  have s: "(hs_session g)\<lparr>sess_ID := sess_ID sr, sess_CipherSuite := sess_CipherSuite (hs_session g)\<rparr> = hs_session g"
    using assms(2) by simp
  show ?thesis
    by (rule that [where b = False and ts = None and sid = "sess_ID sr" and cs = "sess_CipherSuite (hs_session g)"], unfold s)
      (use assms False in \<open>auto simp: ticket_ok_def resumeLeg_def in_session_def Resume_def nil_bytes_def tryS_def
          split: option.splits sum.splits failure.splits\<close>)
qed

section \<open>Keys\<close>

lemma mixResumption_ok:
  assumes "hash_lib_ok H" "length fs = 32" "b \<Longrightarrow> length (nil_bytes ts) = 32"
  obtains ss where "length ss = 32"
    "\<And>h. resumed h = b \<Longrightarrow> (b \<Longrightarrow> ticketSecret h = ts) \<Longrightarrow> mixResumption H fs h = (Inr (), h\<lparr>sharedSecret := Some ss\<rparr>)"
proof (cases b)
  case True
  then obtain k where "DeriveResumptionSecret H (nil_bytes ts) fs = Inr k" "length k = 32"
    using mix_total(1) [OF assms(1,3,2)] by blast
  then show ?thesis
    using True that by (auto simp: mixResumption_def)
next
  case False
  then show ?thesis
    using assms(2) that by (auto simp: mixResumption_def)
qed

lemma keyHandshake_ok:
  assumes "hash_lib_ok H" "length ss = 32" "\<And>x. so = Some x \<Longrightarrow> length x = 32" "b \<Longrightarrow> length (nil_bytes k) = 32" "suite_usable L cs"
  obtains ms ki kr where "length ms = 32"
    "\<And>h. sharedSecret h = Some ss \<Longrightarrow> staticSecret h = so \<Longrightarrow> foldPSK h = b \<Longrightarrow> pskKey h = k \<Longrightarrow>
       sess_CipherSuite (hs_session h) = cs \<Longrightarrow>
       keyHandshake H L h = (Inr (), h\<lparr>sharedSecret := Some ms, staticSecret := None,
         hs_sendCipher := Some (fresh_aead cs (fst (by_role (sess_Role (hs_session h)) (ki, kr)))),
         hs_recvCipher := Some (fresh_aead cs (snd (by_role (sess_Role (hs_session h)) (ki, kr))))\<rparr>)"
proof -
  obtain s1 where s1: "length s1 = 32"
      "\<And>h. sharedSecret h = Some ss \<Longrightarrow> staticSecret h = so \<Longrightarrow> foldStaticSecret H h = (Inr (), h\<lparr>sharedSecret := Some s1, staticSecret := None\<rparr>)"
  proof (cases so)
    case None
    then show ?thesis
      using that [of ss] assms(2) by (auto simp: foldStaticSecret_def)
  next
    case (Some x)
    then show ?thesis
      using mix_total(2) [OF assms(1,2) assms(3)] that by (auto simp: foldStaticSecret_def nil_bytes_def)
  qed
  obtain ms where ms: "length ms = 32"
      "\<And>h. sharedSecret h = Some s1 \<Longrightarrow> foldPSK h = b \<Longrightarrow> pskKey h = k \<Longrightarrow> foldPSKSecret H h = (Inr (), h\<lparr>sharedSecret := Some ms\<rparr>)"
  proof (cases b)
    case False
    then show ?thesis
      using that [of s1] s1(1) by (auto simp: foldPSKSecret_def)
  next
    case True
    then show ?thesis
      using mix_total(3) [OF assms(1) s1(1) assms(4)] that by (auto simp: foldPSKSecret_def nil_bytes_def)
  qed
  obtain ki kr vi vr where k: "DeriveHandshakeKeys H ms = Inr (ki, kr, vi, vr)" "length ki = 32" "length kr = 32"
    using DeriveHandshakeKeys_total [OF assms(1) ms(1)] by blast
  note n = NewAEAD_usable [OF assms(5)]
  show ?thesis
    by (rule that [OF ms(1), of ki kr])
      (auto simp: keyHandshake_def s1(2) ms(2) deriveHandshakeKeys_def nil_bytes_def k n by_role_def)
qed

section \<open>The hellos\<close>

definition offer :: "cipher_lib \<Rightarrow> kem_suite \<Rightarrow> bytes \<Rightarrow> bytes \<Rightarrow> bytes \<Rightarrow> bytes \<Rightarrow> bytes \<Rightarrow> client_hello" where
  "offer L S rnd sid pk ct idn = \<lparr>ch_Version = Current, ch_Random = rnd, ch_SessionID = sid, ch_KEMSuite = suite_ID S,
     ch_KEMSuites = supportedKEMSuiteIDs, ch_CHKEMPublicKey = pk, ch_CipherSuites = SupportedCipherSuites L,
     ch_CHKEMStaticCiphertext = ct, ch_PSKIdentity = idn\<rparr>"

definition answer :: "kem_suite \<Rightarrow> bytes \<Rightarrow> bytes \<Rightarrow> bytes \<Rightarrow> cipher_suite \<Rightarrow> server_hello" where
  "answer S rnd sid ct cs = \<lparr>sh_Version = Current, sh_Random = rnd, sh_SessionID = sid, sh_KEMSuite = suite_ID S,
     sh_CHKEMCiphertext = ct, sh_CipherSuite = cs\<rparr>"

lemma Current_compatible [simp]: "IsCompatible Current Current"
  by (simp add: IsCompatible_def)

lemma SupportedCipherSuites_supported:
  "SupportedCipherSuites L \<noteq> []" "cs \<in> set (SupportedCipherSuites L) \<Longrightarrow> IsSupported cs" "length (SupportedCipherSuites L) \<le> 2"
  by (auto simp: SupportedCipherSuites_def IsSupported_def split: if_splits)

lemma selectCipherSuite_own: "selectCipherSuite L (SupportedCipherSuites L) = CipherSuiteAES256GCM"
  by (simp add: selectCipherSuite_def SupportedCipherSuites_def)

lemma own_suite_usable: "suite_usable L CipherSuiteAES256GCM"
  by (simp add: suite_usable_def IsFIPSApproved_def IsSupported_def)

lemma offer_encodes:
  assumes "length rnd = 32" "length sid \<le> 255" "0 < length pk" "length pk \<le> 1600" "length ct \<le> 1600" "length idn \<le> 255"
  shows "\<exists>ch. EncodeClientHello (offer L S rnd sid pk ct idn) = Inr ch" "client_hello_fits (offer L S rnd sid pk ct idn)"
proof -
  have "length (SupportedCipherSuites L) \<le> 2" "SupportedCipherSuites L \<noteq> []" "\<not> list_ex (\<lambda>cs. \<not> IsSupported cs) (SupportedCipherSuites L)"
    using SupportedCipherSuites_supported by (auto simp: list_ex_iff)
  then show "\<exists>ch. EncodeClientHello (offer L S rnd sid pk ct idn) = Inr ch" "client_hello_fits (offer L S rnd sid pk ct idn)"
    using assms by (simp_all add: EncodeClientHello_def client_hello_Validate_def offer_def client_hello_fits_def client_hello_payloadSize_def
        supportedKEMSuiteIDs_def SupportedSuites_def optionalLenPrefixedSize_def pskIdentityFieldLen_def constant_defs)
qed

lemma answer_encodes:
  assumes "length rnd = 32" "length sid \<le> 255" "0 < length ct" "length ct \<le> 1600" "IsSupported cs"
  shows "\<exists>sh. EncodeServerHello (answer S rnd sid ct cs) = Inr sh" "server_hello_fits (answer S rnd sid ct cs)"
  using assms by (simp_all add: EncodeServerHello_def server_hello_Validate_def answer_def server_hello_fits_def constant_defs)

lemma CreateClientHello_ok:
  assumes "hs_state h = HandshakeStateInitial" "clientRandom h = None" "firstClientHello h = None" "hs_rand h = t1 # rest" "32 \<le> length t1"
    "LocalKeyPair (hs_session h) = Some kp" "PublicKey_Bytes (PublicKey kp) = Inr pk"
    "staticLeg H K (h\<lparr>hs_rand := rest, clientRandom := Some (take 32 t1)\<rparr>) = (Inr ct, h1)"
    "pskLeg h1 = (idn, h2)" "hs_ticket h2 = hs_ticket h" "firstClientHello h2 = None"
    "EncodeClientHello (offer L (kemSuite (hs_session h)) (take 32 t1) (nil_bytes (hs_ticket h)) pk ct idn) = Inr ch"
  shows "CreateClientHello H K L h = (Inr ch, h2\<lparr>transcript := transcript h2 @ ch, firstClientHello := Some ch,
    hs_state := HandshakeStateClientHelloSent, hs_session := SetState SessionStateHandshaking (hs_session h2)\<rparr>)"
  using assms by (simp add: CreateClientHello_def clientHelloRandom_def offer_def)

lemma ProcessClientHello_ok:
  assumes "hs_state g = HandshakeStateInitial" "DecodeClientHello ch = Inr (offer L S rnd sid pk ct idn)"
    "GetSuite H K (suite_ID S) = Some S" "suite_ParsePublicKey S pk = Inr rpk"
    "resumeLeg L now sid (g\<lparr>hs_session := (hs_session g)\<lparr>kemSuite := S\<rparr>, clientRandom := Some rnd\<rparr>) = (Inr (), g2)"
    "RequireStaticAuth (hs_session g2) \<longrightarrow> ct \<noteq> []"
    "staticAnswer H K ct (g2\<lparr>hs_session := (hs_session g2)\<lparr>RemotePublicKey := Some rpk\<rparr>\<rparr>) = (Inr (), g4)"
    "pskAnswer idn g4 = (Inr (), g5)"
  shows "ProcessClientHello H K L now ch g = (Inr (), g5\<lparr>transcript := transcript g5 @ ch,
    hs_session := (hs_session g5)\<lparr>sess_CipherSuite := CipherSuiteAES256GCM, sess_Version := Current, sess_state := SessionStateHandshaking\<rparr>\<rparr>)"
  using assms by (cases "ct = []") (simp_all add: ProcessClientHello_def resolveKEMSuite_def offer_def selectCipherSuite_own IsSupported_def SetState_def)

lemma CreateServerHello_ok:
  assumes "RemotePublicKey (hs_session g) = Some rpk" "hs_rand g = t1 # t2 # rest" "32 \<le> length t1" "kemSuite (hs_session g) = S"
    "suite_Encapsulate S t2 (Some rpk) KemRoleResponder = Inr (ct, fs)"
    "mixResumption H fs (g\<lparr>serverRandom := Some (take 32 t1), hs_rand := rest\<rparr>) = (Inr (), g1)" "transcript g1 = transcript g"
    "EncodeServerHello (answer S (take 32 t1) (sess_ID (hs_session g)) (Ciphertext_Bytes ct) (sess_CipherSuite (hs_session g))) = Inr sh"
    "keyHandshake H L (g1\<lparr>transcript := transcript g @ sh\<rparr>) = (Inr (), g2)"
  shows "CreateServerHello H L g = (Inr sh, g2\<lparr>hs_state := HandshakeStateServerHelloSent\<rparr>)"
  using assms by (simp add: CreateServerHello_def answer_def)

lemma ProcessServerHello_ok:
  assumes "hs_state h = HandshakeStateClientHelloSent" "kemSuite (hs_session h) = S"
    "DecodeServerHello sh = Inr (answer S rnd sid ct cs)" "suite_ParseCiphertext S ct = Inr c"
    "suite_Decapsulate S (Some c) (LocalKeyPair (hs_session h)) KemRoleInitiator = Inr fs"
    "resumed h \<longleftrightarrow> False" "(sid \<noteq> [] \<and> hs_ticket h = Some sid) \<longleftrightarrow> b"
    "mixResumption H fs (h\<lparr>resumed := b, serverRandom := Some rnd\<rparr>) = (Inr (), h1)" "transcript h1 = transcript h"
    "keyHandshake H L (h1\<lparr>transcript := transcript h @ sh, hs_session := (hs_session h)\<lparr>sess_ID := sid, sess_Version := Current,
       sess_CipherSuite := cs\<rparr>\<rparr>) = (Inr (), h2)"
  shows "ProcessServerHello H L sh h = (Inr (), h2\<lparr>hs_state := HandshakeStateServerHelloReceived\<rparr>)"
proof -
  have r: "(if sid \<noteq> [] \<and> hs_ticket h = Some sid then h\<lparr>resumed := True\<rparr> else h) = h\<lparr>resumed := b\<rparr>"
    using assms(6,7) by (cases b) auto
  have a: "sh_Version (answer S rnd sid ct cs) = Current" "sh_KEMSuite (answer S rnd sid ct cs) = suite_ID S"
      "sh_Random (answer S rnd sid ct cs) = rnd" "sh_SessionID (answer S rnd sid ct cs) = sid"
      "sh_CHKEMCiphertext (answer S rnd sid ct cs) = ct" "sh_CipherSuite (answer S rnd sid ct cs) = cs"
    by (simp_all add: answer_def)
  show ?thesis
    unfolding ProcessServerHello_def assms(1,3) tryS_simps Let_def a r
    using assms(2,4,5,8-) by simp
qed

text \<open>The two handshakes as the drivers start them.\<close>

definition initiator_start :: "bytes option \<Rightarrow> bytes option \<Rightarrow> bool \<Rightarrow> entropy list \<Rightarrow> session \<Rightarrow> handshake" where
  "initiator_start ticket secret dg rand s = (SetTicket ticket secret (NewHandshake s rand))\<lparr>datagram := dg\<rparr>"

definition responder_start :: "ticket_manager option \<Rightarrow> bool \<Rightarrow> entropy list \<Rightarrow> session \<Rightarrow> handshake" where
  "responder_start tm dg rand s = (SetTicketManager tm (NewHandshake s rand))\<lparr>datagram := dg\<rparr>"

lemmas start_defs = initiator_start_def responder_start_def SetTicket_def SetTicketManager_def NewHandshake_def

text \<open>After the hellos: same secret and transcript, mirrored handshake ciphers.\<close>

definition hs_matched :: "handshake \<Rightarrow> handshake \<Rightarrow> bool" where
  "hs_matched hi hr \<longleftrightarrow> (\<exists>ms cs ki kr. sharedSecret hi = Some ms \<and> sharedSecret hr = Some ms \<and> length ms = 32 \<and>
     transcript hi = transcript hr \<and> length (transcript hi) \<le> 200000 \<and>
     hs_sendCipher hi = Some (fresh_aead cs ki) \<and> hs_recvCipher hi = Some (fresh_aead cs kr) \<and>
     hs_sendCipher hr = Some (fresh_aead cs kr) \<and> hs_recvCipher hr = Some (fresh_aead cs ki))"

lemma client_side:
  assumes "hash_lib_ok H" "kem_lib_ok K" "initiator_ready H K si" "static_ok H K si sr" "psk_ok si sr" "tapes_ok ri"
    "length (nil_bytes ticket) \<le> 255"
  obtains ch kp pk rnd ct idn so b k rand' where
    "CreateClientHello H K L (initiator_start ticket secret dg ri si) = (Inr ch, (initiator_start ticket secret dg rand' si)
       \<lparr>clientRandom := Some rnd, staticSecret := so, foldPSK := b, pskKey := k, transcript := ch, firstClientHello := Some ch,
        hs_state := HandshakeStateClientHelloSent, hs_session := si\<lparr>sess_state := SessionStateHandshaking\<rparr>\<rparr>)"
    "LocalKeyPair si = Some kp" "kem_serves (kemSuite si) kp" "suite_ParsePublicKey (kemSuite si) pk = Inr (PublicKey kp)"
    "EncodeClientHello (offer L (kemSuite si) rnd (nil_bytes ticket) pk ct idn) = Inr ch"
    "client_hello_fits (offer L (kemSuite si) rnd (nil_bytes ticket) pk ct idn)"
    "\<And>x. so = Some x \<Longrightarrow> length x = 32" "b \<Longrightarrow> length (nil_bytes k) = 32" "RequireStaticAuth sr \<Longrightarrow> ct \<noteq> []"
    "\<And>g. StaticKeyPair (hs_session g) = StaticKeyPair sr \<Longrightarrow> staticSecret g = None \<Longrightarrow>
       staticAnswer H K ct g = (Inr (), g\<lparr>staticSecret := so\<rparr>)"
    "\<And>g. responderPSK (hs_session g) = responderPSK sr \<Longrightarrow> RequirePSK (hs_session g) = RequirePSK sr \<Longrightarrow>
       \<not> foldPSK g \<Longrightarrow> pskKey g = None \<Longrightarrow> pskAnswer idn g = (Inr (), g\<lparr>foldPSK := b, pskKey := k\<rparr>)"
proof -
  obtain t1 t2 rest where t: "ri = t1 # t2 # rest" "64 \<le> length t1" "64 \<le> length t2"
    using assms(6) by (rule tapes_okE)
  obtain kp where kp: "LocalKeyPair si = Some kp" "kem_serves (kemSuite si) kp" "GetSuite H K (suite_ID (kemSuite si)) = Some (kemSuite si)"
    using assms(3) by (auto simp: initiator_ready_def)
  then obtain pk where pk: "PublicKey_Bytes (PublicKey kp) = Inr pk" "length pk = PublicKeySize (kemSuite si)"
      "suite_ParsePublicKey (kemSuite si) pk = Inr (PublicKey kp)"
    unfolding kem_serves_def by blast
  have n: "0 < length pk" "length pk \<le> 1600"
    using pk(2) GetSuite_sizes [OF kp(3)] by simp_all
  define h0 where "h0 = (initiator_start ticket secret dg (t2 # rest) si)\<lparr>clientRandom := Some (take 32 t1)\<rparr>"
  have h0: "hs_session h0 = si" "hs_rand h0 = t2 # rest" "staticSecret h0 = None" "\<not> foldPSK h0" "pskKey h0 = None"
    by (simp_all add: h0_def start_defs)
  obtain ct so rand' where st: "staticLeg H K h0 = (Inr ct, h0\<lparr>hs_rand := rand', staticSecret := so\<rparr>)"
    "\<And>x. so = Some x \<Longrightarrow> length x = 32" "length ct \<le> 1600" "RequireStaticAuth sr \<Longrightarrow> ct \<noteq> []"
    "\<And>g. StaticKeyPair (hs_session g) = StaticKeyPair sr \<Longrightarrow> staticSecret g = None \<Longrightarrow> staticAnswer H K ct g = (Inr (), g\<lparr>staticSecret := so\<rparr>)"
    by (rule static_legs [OF assms(1,2) assms(4) [folded h0(1)] h0(2) t(3) h0(3)]) (rule that, assumption, blast, assumption, blast, blast)
  have h1: "psk_ok (hs_session (h0\<lparr>hs_rand := rand', staticSecret := so\<rparr>)) sr" "\<not> foldPSK (h0\<lparr>hs_rand := rand', staticSecret := so\<rparr>)"
      "pskKey (h0\<lparr>hs_rand := rand', staticSecret := so\<rparr>) = None"
    using assms(5) h0(1,4,5) by simp_all
  obtain idn b k where ps: "pskLeg (h0\<lparr>hs_rand := rand', staticSecret := so\<rparr>) = (idn, h0\<lparr>hs_rand := rand', staticSecret := so, foldPSK := b, pskKey := k\<rparr>)"
    "length idn \<le> 255" "b \<Longrightarrow> length (nil_bytes k) = 32"
    "\<And>g. responderPSK (hs_session g) = responderPSK sr \<Longrightarrow> RequirePSK (hs_session g) = RequirePSK sr \<Longrightarrow>
       \<not> foldPSK g \<Longrightarrow> pskKey g = None \<Longrightarrow> pskAnswer idn g = (Inr (), g\<lparr>foldPSK := b, pskKey := k\<rparr>)"
    by (rule psk_legs [OF h1]) (rule that, assumption, assumption, blast, blast)
  obtain ch where ch: "EncodeClientHello (offer L (kemSuite si) (take 32 t1) (nil_bytes ticket) pk ct idn) = Inr ch"
      "client_hello_fits (offer L (kemSuite si) (take 32 t1) (nil_bytes ticket) pk ct idn)"
    using offer_encodes [of "take 32 t1" "nil_bytes ticket" pk ct idn L "kemSuite si"] t(2) assms(7) n st(3) ps(2) by auto
  have "CreateClientHello H K L (initiator_start ticket secret dg ri si) = (Inr ch, (initiator_start ticket secret dg rand' si)
       \<lparr>clientRandom := Some (take 32 t1), staticSecret := so, foldPSK := b, pskKey := k, transcript := ch, firstClientHello := Some ch,
        hs_state := HandshakeStateClientHelloSent, hs_session := si\<lparr>sess_state := SessionStateHandshaking\<rparr>\<rparr>)"
    using CreateClientHello_ok [of "initiator_start ticket secret dg ri si" t1 "t2 # rest" kp pk H K ct
        "h0\<lparr>hs_rand := rand', staticSecret := so\<rparr>" idn "h0\<lparr>hs_rand := rand', staticSecret := so, foldPSK := b, pskKey := k\<rparr>" L ch]
      t kp(1) pk(1) st(1) ps(1) ch(1)
    by (simp add: h0_def start_defs SetState_def)
  then show ?thesis
    by (rule that [OF _ kp(1,2) pk(3) ch st(2) ps(3) st(4,5) ps(4)])
qed

lemma server_side:
  assumes "responder_ready sr" "ticket_ok L now ticket secret tm sr" "GetSuite H K (suite_ID S) = Some S"
    "suite_ParsePublicKey S pk = Inr rpk" "RequireStaticAuth sr \<Longrightarrow> ct \<noteq> []"
    "EncodeClientHello (offer L S rnd (nil_bytes ticket) pk ct idn) = Inr ch" "client_hello_fits (offer L S rnd (nil_bytes ticket) pk ct idn)"
    "\<And>g. StaticKeyPair (hs_session g) = StaticKeyPair sr \<Longrightarrow> staticSecret g = None \<Longrightarrow>
       staticAnswer H K ct g = (Inr (), g\<lparr>staticSecret := so\<rparr>)"
    "\<And>g. responderPSK (hs_session g) = responderPSK sr \<Longrightarrow> RequirePSK (hs_session g) = RequirePSK sr \<Longrightarrow>
       \<not> foldPSK g \<Longrightarrow> pskKey g = None \<Longrightarrow> pskAnswer idn g = (Inr (), g\<lparr>foldPSK := b, pskKey := k\<rparr>)"
  obtains r ts sid where
    "ProcessClientHello H K L now ch (responder_start tm dg rr sr) = (Inr (), (responder_start tm dg rr sr)
       \<lparr>clientRandom := Some rnd, resumed := r, ticketSecret := ts, staticSecret := so, foldPSK := b, pskKey := k, transcript := ch,
        hs_session := sr\<lparr>kemSuite := S, RemotePublicKey := Some rpk, sess_ID := sid, sess_CipherSuite := CipherSuiteAES256GCM,
          sess_Version := Current, sess_state := SessionStateHandshaking\<rparr>\<rparr>)"
    "r \<Longrightarrow> ts = secret \<and> length (nil_bytes secret) = 32" "length sid \<le> 255" "(sid \<noteq> [] \<and> ticket = Some sid) \<longleftrightarrow> r"
proof -
  define g1 where "g1 = (responder_start tm dg rr sr)\<lparr>hs_session := sr\<lparr>kemSuite := S\<rparr>, clientRandom := Some rnd\<rparr>"
  have g1: "ticket_ok L now ticket secret (ticketManager g1) sr" "sess_ID (hs_session g1) = sess_ID sr" "\<not> resumed g1" "length (sess_ID sr) \<le> 255"
    using assms(1,2) by (simp_all add: g1_def start_defs responder_ready_def)
  obtain r ts sid cs where r:
    "resumeLeg L now (nil_bytes ticket) g1 = (Inr (), g1\<lparr>resumed := r, ticketSecret := (if r then ts else ticketSecret g1),
       hs_session := (hs_session g1)\<lparr>sess_ID := sid, sess_CipherSuite := cs\<rparr>\<rparr>)"
    "r \<Longrightarrow> ts = secret \<and> length (nil_bytes secret) = 32" "length sid \<le> 255" "(sid \<noteq> [] \<and> ticket = Some sid) \<longleftrightarrow> r"
    by (rule resume_legs [OF g1]) (rule that, assumption, blast, assumption, assumption)
  let ?ts = "if r then ts else None"
  define g2 where "g2 = g1\<lparr>resumed := r, ticketSecret := ?ts, hs_session := (hs_session g1)\<lparr>sess_ID := sid, sess_CipherSuite := cs\<rparr>\<rparr>"
  define g3 where "g3 = g2\<lparr>hs_session := (hs_session g2)\<lparr>RemotePublicKey := Some rpk\<rparr>\<rparr>"
  have p: "responderPSK (hs_session g3) = responderPSK sr" "RequirePSK (hs_session g3) = RequirePSK sr"
    by (simp_all add: g3_def g2_def g1_def fun_eq_iff responderPSK_def split: option.splits)
  have st: "staticAnswer H K ct g3 = (Inr (), g3\<lparr>staticSecret := so\<rparr>)"
    by (rule assms(8)) (simp_all add: g3_def g2_def g1_def start_defs)
  have ps: "pskAnswer idn (g3\<lparr>staticSecret := so\<rparr>) = (Inr (), g3\<lparr>staticSecret := so, foldPSK := b, pskKey := k\<rparr>)"
    by (rule assms(9)) (use p in \<open>simp_all add: g3_def g2_def g1_def start_defs\<close>)
  have "ticketSecret g1 = None"
    by (simp add: g1_def start_defs)
  then have "resumeLeg L now (nil_bytes ticket) g1 = (Inr (), g2)"
    using r(1) by (simp add: g2_def)
  then have rl: "resumeLeg L now (nil_bytes ticket) ((responder_start tm dg rr sr)\<lparr>hs_session := (hs_session (responder_start tm dg rr sr))\<lparr>kemSuite := S\<rparr>,
      clientRandom := Some rnd\<rparr>) = (Inr (), g2)"
    by (simp add: g1_def start_defs)
  have q: "hs_state (responder_start tm dg rr sr) = HandshakeStateInitial" "RequireStaticAuth (hs_session g2) \<longrightarrow> ct \<noteq> []"
    using assms(5) by (simp_all add: start_defs g2_def g1_def)
  note run = ProcessClientHello_ok [OF q(1) client_hello.dec_enc [OF assms(7,6)] assms(3,4) rl q(2) st [unfolded g3_def] ps [unfolded g3_def]]
  show ?thesis
    by (rule that [where r = r and ts = ?ts and sid = sid]) (use r(2-4) run in \<open>auto simp: g2_def g1_def start_defs\<close>)
qed

lemma wf_frame_length: "wf_frame f \<Longrightarrow> length f \<le> 70000"
  by (simp add: wf_frame_def constant_defs HeaderSize_def)

lemma encoded_type:
  "EncodeClientHello m = Inr d \<Longrightarrow> d ! 0 = MessageTypeClientHello"
  "EncodeServerHello m' = Inr d \<Longrightarrow> d ! 0 = MessageTypeServerHello"
  by (auto simp: EncodeClientHello_def EncodeServerHello_def result_simps header_def)

definition shook :: "session \<Rightarrow> bytes \<Rightarrow> session" where
  "shook s sid = s\<lparr>sess_ID := sid, sess_CipherSuite := CipherSuiteAES256GCM, sess_Version := Current, sess_state := SessionStateHandshaking\<rparr>"

text \<open>Server hello and its processing, between ends that agree on what the first flight settled.\<close>

definition agreed :: "bytes option \<Rightarrow> bool \<Rightarrow> bytes option \<Rightarrow> kem_suite \<Rightarrow> handshake \<Rightarrow> bool" where
  "agreed so b k S h \<longleftrightarrow> staticSecret h = so \<and> foldPSK h = b \<and> pskKey h = k \<and> kemSuite (hs_session h) = S"

lemma second_flight:
  assumes "hash_lib_ok H" "GetSuite H K sn = Some S" "kem_serves S kp" "agreed so b k S hi" "agreed so b k S hr"
    "\<And>x. so = Some x \<Longrightarrow> length x = 32" "b \<Longrightarrow> length (nil_bytes k) = 32"
    and hr: "RemotePublicKey (hs_session hr) = Some (PublicKey kp)" "hs_rand hr = t1 # t2 # rest" "64 \<le> length t1" "64 \<le> length t2"
      "sess_CipherSuite (hs_session hr) = CipherSuiteAES256GCM" "sess_Role (hs_session hr) = RoleResponder" "length (sess_ID (hs_session hr)) \<le> 255"
      "resumed hr \<Longrightarrow> ticketSecret hr = ticketSecret hi \<and> length (nil_bytes (ticketSecret hi)) = 32"
    and hi: "hs_state hi = HandshakeStateClientHelloSent" "LocalKeyPair (hs_session hi) = Some kp" "\<not> resumed hi"
      "sess_Role (hs_session hi) = RoleInitiator"
      "(sess_ID (hs_session hr) \<noteq> [] \<and> hs_ticket hi = Some (sess_ID (hs_session hr))) \<longleftrightarrow> resumed hr"
    and tr: "transcript hi = transcript hr" "length (transcript hr) \<le> 70000"
  obtains sh hr' hi' where "CreateServerHello H L hr = (Inr sh, hr')" "ProcessServerHello H L sh hi = (Inr (), hi')"
    "wf_frame sh" "sh ! 0 = MessageTypeServerHello" "hs_matched hi' hr'"
    "hs_state hi' = HandshakeStateServerHelloReceived" "hs_state hr' = HandshakeStateServerHelloSent"
    "datagram hi' = datagram hi" "datagram hr' = datagram hr" "hs_session hr' = hs_session hr"
    "hs_session hi' = (hs_session hi)\<lparr>sess_ID := sess_ID (hs_session hr), sess_Version := Current, sess_CipherSuite := CipherSuiteAES256GCM\<rparr>"
proof -
  let ?sid = "sess_ID (hs_session hr)"
  obtain ct fs c' where e: "suite_Encapsulate S t2 (Some (PublicKey kp)) KemRoleResponder = Inr (ct, fs)" "length fs = 32"
      "length (Ciphertext_Bytes ct) = CiphertextSize S" "suite_ParseCiphertext S (Ciphertext_Bytes ct) = Inr c'"
      "suite_Decapsulate S (Some c') (Some kp) KemRoleInitiator = Inr fs"
    using assms(3) hr(4) unfolding kem_serves_def by (metis surj_pair)
  obtain ss where ss: "length ss = 32" "\<And>h. resumed h = resumed hr \<Longrightarrow> (resumed hr \<Longrightarrow> ticketSecret h = ticketSecret hi) \<Longrightarrow>
      mixResumption H fs h = (Inr (), h\<lparr>sharedSecret := Some ss\<rparr>)"
    by (rule mixResumption_ok [OF assms(1) e(2), of "resumed hr" "ticketSecret hi"]) (use hr(8) in blast)+
  obtain ms ki kr where ms: "length ms = 32"
    "\<And>h. sharedSecret h = Some ss \<Longrightarrow> staticSecret h = so \<Longrightarrow> foldPSK h = b \<Longrightarrow> pskKey h = k \<Longrightarrow>
       sess_CipherSuite (hs_session h) = CipherSuiteAES256GCM \<Longrightarrow>
       keyHandshake H L h = (Inr (), h\<lparr>sharedSecret := Some ms, staticSecret := None,
         hs_sendCipher := Some (fresh_aead CipherSuiteAES256GCM (fst (by_role (sess_Role (hs_session h)) (ki, kr)))),
         hs_recvCipher := Some (fresh_aead CipherSuiteAES256GCM (snd (by_role (sess_Role (hs_session h)) (ki, kr))))\<rparr>)"
    by (rule keyHandshake_ok [OF assms(1) ss(1) assms(6,7) own_suite_usable]) blast+
  have "0 < length (Ciphertext_Bytes ct)" "length (Ciphertext_Bytes ct) \<le> 1600" "IsSupported CipherSuiteAES256GCM" "length (take 32 t1) = 32"
    using e(3) GetSuite_sizes [OF assms(2)] hr(3) by (simp_all add: IsSupported_def)
  then obtain sh where sh: "EncodeServerHello (answer S (take 32 t1) ?sid (Ciphertext_Bytes ct) CipherSuiteAES256GCM) = Inr sh"
      "server_hello_fits (answer S (take 32 t1) ?sid (Ciphertext_Bytes ct) CipherSuiteAES256GCM)"
    using answer_encodes hr(7) by blast
  note wf = server_hello.enc_frame [OF sh(2,1)]
  define hr' where "hr' = hr\<lparr>serverRandom := Some (take 32 t1), hs_rand := rest, sharedSecret := Some ms, transcript := transcript hr @ sh,
      staticSecret := None, hs_sendCipher := Some (fresh_aead CipherSuiteAES256GCM kr), hs_recvCipher := Some (fresh_aead CipherSuiteAES256GCM ki),
      hs_state := HandshakeStateServerHelloSent\<rparr>"
  have a: "kemSuite (hs_session hr) = S" "staticSecret hr = so" "foldPSK hr = b" "pskKey hr = k"
      "kemSuite (hs_session hi) = S" "staticSecret hi = so" "foldPSK hi = b" "pskKey hi = k"
    using assms(4,5) by (auto simp: agreed_def)
  have create: "CreateServerHello H L hr = (Inr sh, hr')"
    by (subst CreateServerHello_ok [OF hr(1,2) _ a(1) e(1) ss(2)]) (use hr sh a in \<open>simp_all add: ms(2) by_role_def hr'_def\<close>)
  define hi' where "hi' = hi\<lparr>serverRandom := Some (take 32 t1), resumed := resumed hr, sharedSecret := Some ms, transcript := transcript hi @ sh,
      staticSecret := None, hs_sendCipher := Some (fresh_aead CipherSuiteAES256GCM ki), hs_recvCipher := Some (fresh_aead CipherSuiteAES256GCM kr),
      hs_session := (hs_session hi)\<lparr>sess_ID := ?sid, sess_Version := Current, sess_CipherSuite := CipherSuiteAES256GCM\<rparr>,
      hs_state := HandshakeStateServerHelloReceived\<rparr>"
  have process: "ProcessServerHello H L sh hi = (Inr (), hi')"
    by (subst ProcessServerHello_ok [OF hi(1) a(5) server_hello.dec_enc [OF sh(2,1)] e(4) _ _ hi(5) ss(2)])
      (use hi e(5) a in \<open>simp_all add: ms(2) by_role_def hi'_def\<close>)
  have "hs_matched hi' hr'"
    unfolding hs_matched_def by (intro exI [of _ ms] exI [of _ CipherSuiteAES256GCM] exI [of _ ki] exI [of _ kr])
      (use ms(1) tr wf_frame_length [OF wf] in \<open>simp add: hi'_def hr'_def\<close>)
  then show ?thesis
    using that [OF create process wf encoded_type(2) [OF sh(1)]] by (simp add: hi'_def hr'_def)
qed

lemma hellos:
  assumes "hash_lib_ok H" "kem_lib_ok K" "initiator_ready H K si" "responder_ready sr" "static_ok H K si sr" "psk_ok si sr"
    "ticket_ok L now ticket secret tm sr" "tapes_ok ri" "tapes_ok rr"
  obtains ch hi1 hr1 sh hr2 hi2 rpk sid where
    "CreateClientHello H K L (initiator_start ticket secret dg ri si) = (Inr ch, hi1)"
    "ProcessClientHello H K L now ch (responder_start tm dg rr sr) = (Inr (), hr1)" "\<not> sendHRR hr1"
    "CreateServerHello H L hr1 = (Inr sh, hr2)" "ProcessServerHello H L sh hi1 = (Inr (), hi2)"
    "wf_frame ch" "wf_frame sh" "ch ! 0 = MessageTypeClientHello" "sh ! 0 = MessageTypeServerHello" "hs_matched hi2 hr2"
    "hs_state hi2 = HandshakeStateServerHelloReceived" "hs_state hr2 = HandshakeStateServerHelloSent"
    "datagram hi2 = dg" "datagram hr2 = dg"
    "hs_session hi2 = shook si sid" "hs_session hr2 = (shook sr sid)\<lparr>kemSuite := kemSuite si, RemotePublicKey := Some rpk\<rparr>"
proof -
  let ?S = "kemSuite si"
  have tk: "length (nil_bytes ticket) \<le> 255"
    using assms(7) by (auto simp: ticket_ok_def nil_bytes_def split: option.splits)
  have roles: "sess_Role si = RoleInitiator" "sess_Role sr = RoleResponder" "GetSuite H K (suite_ID ?S) = Some ?S"
    using assms(3,4) by (auto simp: initiator_ready_def responder_ready_def)
  obtain t1 t2 rest where t: "rr = t1 # t2 # rest" "64 \<le> length t1" "64 \<le> length t2"
    using assms(9) by (rule tapes_okE)
  show ?thesis
  proof (rule client_side [OF assms(1-3,5,6,8) tk, where L = L and secret = secret and dg = dg], goal_cases)
    case (1 ch kp pk rnd ct idn so b k rand')
    note c = this
    show ?case
    proof (rule server_side [OF assms(4,7) roles(3) c(4) _ c(5,6), where dg = dg and rr = rr and so = so and b = b and k = k], goal_cases)
      case (4 r ts sid)
      note sv = this
      define hi1 where "hi1 = (initiator_start ticket secret dg rand' si)
        \<lparr>clientRandom := Some rnd, staticSecret := so, foldPSK := b, pskKey := k, transcript := ch, firstClientHello := Some ch,
         hs_state := HandshakeStateClientHelloSent, hs_session := si\<lparr>sess_state := SessionStateHandshaking\<rparr>\<rparr>"
      define hr1 where "hr1 = (responder_start tm dg rr sr)
        \<lparr>clientRandom := Some rnd, resumed := r, ticketSecret := ts, staticSecret := so, foldPSK := b, pskKey := k, transcript := ch,
         hs_session := sr\<lparr>kemSuite := ?S, RemotePublicKey := Some (PublicKey kp), sess_ID := sid, sess_CipherSuite := CipherSuiteAES256GCM,
          sess_Version := Current, sess_state := SessionStateHandshaking\<rparr>\<rparr>"
      note wf = client_hello.enc_frame [OF c(6,5)]
      have ag: "agreed so b k ?S hi1" "agreed so b k ?S hr1"
        by (simp_all add: agreed_def hi1_def hr1_def)
      show ?case
      proof (rule second_flight [OF assms(1) roles(3) c(3) ag, where ?t1.0 = t1 and ?t2.0 = t2 and rest = rest and L = L], goal_cases)
        case (18 sh hr2 hi2)
        note two = this
        show ?case
          by (rule that [where sid = sid and rpk = "PublicKey kp", OF c(1) [folded hi1_def] sv(1) [folded hr1_def] _ two(1,2) wf two(3) encoded_type(1) [OF c(5)] two(4-7)])
            (use two in \<open>simp_all add: hi1_def hr1_def start_defs shook_def\<close>)
      qed (use c sv t roles wf_frame_length [OF wf] in \<open>auto simp: hi1_def hr1_def start_defs\<close>)
    qed (use c in auto)
  qed
qed

section \<open>The Finished messages\<close>

definition installed :: "hash_lib \<Rightarrow> cipher_lib \<Rightarrow> bool \<Rightarrow> int \<Rightarrow> bytes \<Rightarrow> session \<Rightarrow> session \<Rightarrow> bool" where
  "installed H L dg now ms s s' \<longleftrightarrow>
     (if dg then InitializeDatagramKeys H L now ms (sess_CipherSuite s) s
      else InitializeKeys H L now ms (sess_CipherSuite s) s) = (Inr (), s')"

lemma installed_ex:
  assumes "hash_lib_ok H" "length ms = 32" "suite_usable L (sess_CipherSuite s)" "sess_state s \<noteq> SessionStateClosed"
  shows "\<exists>s'. installed H L dg now ms s s'"
  using InitializeKeys_ok [OF assms, of now] InitializeDatagramKeys_ok [OF assms, of now]
  unfolding installed_def by (cases dg) auto

lemma initializeSessionKeys_installed:
  assumes "installed H L (datagram h) now ms (hs_session h) s'" "sharedSecret h = Some ms"
  shows "initializeSessionKeys H L now h = (Inr (), h\<lparr>hs_session := s'\<rparr>)"
  using assms by (auto simp: initializeSessionKeys_def installed_def in_session_def nil_bytes_def split: if_splits)

lemma verify_data_total:
  assumes "hash_lib_ok H" "sharedSecret h = Some ms" "length ms = 32" "length (transcript h) \<le> 300000" "length lab \<le> 100"
  obtains v where "verify_data H lab h = Inr v" "length v = 32"
  using DeriveKeyMultiple_total [OF assms(1), of lab "[ms, transcript h]" 32] assms(2-)
  by (auto simp: verify_data_def nil_bytes_def)

lemma openFinished_sealed:
  assumes "cipher_lib_ok L" "EncodeFinished ty v = Inr pt" "finished_ok ty" "hs_recvCipher h = Some (fresh_aead cs key)"
    "Seal L (fresh_aead cs key) pt [] = (Inr d, c)" "verify_data H lab h = Inr v"
  shows "openFinished H L lab d h = Inr pt"
proof -
  have "pt \<noteq> []" "DecodeFinished pt = Inr v"
    using assms(2,3) DecodeFinished_put [of ty v pt] by (auto simp: EncodeFinished_def result_simps header_def)
  then show ?thesis
    using Open_Seal [OF assms(1) _ assms(5), of "fresh_aead cs key"] assms(4,6)
    by (simp add: openFinished_def same_key_def ConstantTimeCompare_def guardR_simps)
qed

lemma Seal_fresh: "\<exists>d c. Seal L (fresh_aead cs key) pt [] = (Inr d, c) \<and> (cipher_lib_ok L \<longrightarrow> length d = length pt + 28)"
  using cipher_lib_okD(1) by (auto simp: Seal_cases fresh_aead_def)

lemma finished_exchange:
  assumes "hash_lib_ok H" "cipher_lib_ok L" "hs_matched hi hr"
    "hs_state hi = HandshakeStateServerHelloReceived" "hs_state hr = HandshakeStateServerHelloSent"
    and usable: "suite_usable L (sess_CipherSuite (hs_session hi))" "suite_usable L (sess_CipherSuite (hs_session hr))"
      "sess_state (hs_session hi) \<noteq> SessionStateClosed" "sess_state (hs_session hr) \<noteq> SessionStateClosed"
  obtains sf hr1 hi1 cf hi2 hr2 ms where
    "CreateServerFinished H L hr = (Inr sf, hr1)" "ProcessServerFinished H L sf hi = (Inr (), hi1)"
    "CreateClientFinished H L now hi1 = (Inr cf, hi2)" "ProcessClientFinished H L now' cf hr1 = (Inr (), hr2)"
    "length sf = 65" "length cf = 65" "length ms = 32" "IsComplete hi2" "IsComplete hr2"
    "installed H L (datagram hi) now ms (hs_session hi) (hs_session hi2)"
    "installed H L (datagram hr) now' ms (hs_session hr) (hs_session hr2)"
proof -
  obtain ms cs ki kr where m: "sharedSecret hi = Some ms" "sharedSecret hr = Some ms" "length ms = 32"
      "transcript hi = transcript hr" "length (transcript hi) \<le> 200000"
      "hs_sendCipher hi = Some (fresh_aead cs ki)" "hs_recvCipher hi = Some (fresh_aead cs kr)"
      "hs_sendCipher hr = Some (fresh_aead cs kr)" "hs_recvCipher hr = Some (fresh_aead cs ki)"
    using assms(3) unfolding hs_matched_def by blast
  obtain v where v: "verify_data H ServerFinishedLabel hr = Inr v" "length v = 32"
    by (rule verify_data_total [OF assms(1) m(2,3), of ServerFinishedLabel]) (use m(4,5) in \<open>simp_all add: ServerFinishedLabel_def\<close>)
  then obtain pt where pt: "EncodeFinished MessageTypeServerFinished v = Inr pt" "length pt = 37"
    by (simp add: EncodeFinished_def guardR_def header_def)
  obtain sf c where sf: "Seal L (fresh_aead cs kr) pt [] = (Inr sf, c)" "length sf = 65"
    using Seal_fresh [of L cs kr pt] assms(2) pt(2) by auto
  define hr1 where "hr1 = hr\<lparr>hs_sendCipher := Some c, transcript := transcript hr @ pt, hs_state := HandshakeStateServerFinishedSent\<rparr>"
  define hi1 where "hi1 = hi\<lparr>transcript := transcript hr @ pt, hs_state := HandshakeStateServerFinishedReceived\<rparr>"
  have create: "CreateServerFinished H L hr = (Inr sf, hr1)"
    using m(8) v(1) pt(1) sf(1) assms(5) by (simp add: CreateServerFinished_def sealFinished_def hr1_def)
  have vi: "verify_data H ServerFinishedLabel hi = Inr v"
    using v(1) m(1,2,4) by (simp add: verify_data_def)
  have process: "ProcessServerFinished H L sf hi = (Inr (), hi1)"
    using openFinished_sealed [OF assms(2) pt(1) _ m(7) sf(1) vi] m(4,7) assms(4)
    by (simp add: ProcessServerFinished_def hi1_def finished_ok_def)
  obtain w where w: "verify_data H ClientFinishedLabel hi1 = Inr w" "length w = 32"
    by (rule verify_data_total [OF assms(1) _ m(3), of hi1 ClientFinishedLabel]) (use m pt(2) in \<open>simp_all add: hi1_def ClientFinishedLabel_def\<close>)
  then obtain qt where qt: "EncodeFinished MessageTypeClientFinished w = Inr qt" "length qt = 37"
    by (simp add: EncodeFinished_def guardR_def header_def)
  obtain cf c' where cf: "Seal L (fresh_aead cs ki) qt [] = (Inr cf, c')" "length cf = 65"
    using Seal_fresh [of L cs ki qt] assms(2) qt(2) by auto
  obtain si' where si: "installed H L (datagram hi) now ms (hs_session hi) si'"
    using installed_ex [OF assms(1) m(3) usable(1,3)] by blast
  obtain sr' where sr: "installed H L (datagram hr) now' ms (hs_session hr) sr'"
    using installed_ex [OF assms(1) m(3) usable(2,4)] by blast
  have ki: "initializeSessionKeys H L now (hi1\<lparr>hs_sendCipher := Some c'\<rparr>) = (Inr (), hi1\<lparr>hs_sendCipher := Some c', hs_session := si'\<rparr>)"
    using initializeSessionKeys_installed [of H L "hi1\<lparr>hs_sendCipher := Some c'\<rparr>" now ms si'] si m(1) by (simp add: hi1_def)
  have kr: "initializeSessionKeys H L now' hr1 = (Inr (), hr1\<lparr>hs_session := sr'\<rparr>)"
    using initializeSessionKeys_installed [of H L hr1 now' ms sr'] sr m(2) by (simp add: hr1_def)
  define hi2 where "hi2 = cleanup (hi1\<lparr>hs_sendCipher := Some c', hs_session := si', hs_state := HandshakeStateComplete\<rparr>)"
  define hr2 where "hr2 = cleanup (hr1\<lparr>hs_session := sr', hs_state := HandshakeStateComplete\<rparr>)"
  have hi1: "hs_sendCipher hi1 = Some (fresh_aead cs ki)" "hs_state hi1 = HandshakeStateServerFinishedReceived"
    by (simp_all add: hi1_def m(6))
  have create2: "CreateClientFinished H L now hi1 = (Inr cf, hi2)"
    using hi1 w(1) qt(1) cf(1) ki by (simp add: CreateClientFinished_def sealFinished_def hi2_def)
  have "verify_data H ClientFinishedLabel hr1 = Inr w"
    using w(1) m(1,2) by (simp add: verify_data_def hi1_def hr1_def)
  then have process2: "ProcessClientFinished H L now' cf hr1 = (Inr (), hr2)"
    using openFinished_sealed [OF assms(2) qt(1) _ _ cf(1)] m(9) kr
    by (simp add: ProcessClientFinished_def hr2_def finished_ok_def) (simp add: hr1_def)
  show ?thesis
    by (rule that [OF create process create2 process2 sf(2) cf(2) m(3)])
      (use si sr in \<open>simp_all add: hi2_def hr2_def hi1_def hr1_def cleanup_def IsComplete_def\<close>)
qed

section \<open>The drivers\<close>

lemma be_nat_put_u32: "n < 2 ^ 32 \<Longrightarrow> be_nat (put_u32 (word_of_nat n)) = n"
  by (simp add: put_u32_def be_nat_be_bytes unat_of_nat)

lemma readEncryptedRecord_record:
  assumes "length d \<le> MaxMessageSize"
  shows "readEncryptedRecord (h, w\<lparr>rw_in := encryptedRecord d @ r\<rparr>) = (Inr d, (h, w\<lparr>rw_in := r\<rparr>))"
  using assms be_nat_put_u32 [of "length d"]
  by (simp add: readEncryptedRecord_def encryptedRecord_def ReadFull_def constant_defs)

lemmas driver_simps = step_hs_def alerting_def pinnedMismatch_def writeEncryptedRecord_def rw_Write_def rw_ReadMessage_def

lemma initiator_driver:
  assumes "CreateClientHello H K L hi0 = (Inr ch, hi1)" "wf_frame sh" "sh ! 0 = MessageTypeServerHello"
    "ProcessServerHello H L sh hi1 = (Inr (), hi2)" "ProcessServerFinished H L sf hi2 = (Inr (), hi3)" "length sf \<le> MaxMessageSize"
    "CreateClientFinished H L now hi3 = (Inr cf, hi4)"
  shows "bindS (initiatorExchangeHellos H K L (hi0, \<lparr>rw_in = sh @ encryptedRecord sf, rw_out = [], rw_down = None\<rparr>))
      (\<lambda>_ st. initiatorFinish H L now st) =
    (Inr (), (hi4, \<lparr>rw_in = [], rw_out = ch @ encryptedRecord cf, rw_down = None\<rparr>))"
proof -
  have "length sh > 0"
    using assms(2) by (auto simp: wf_frame_def HeaderSize_def)
  then have "u8_at sh 0 = Inr MessageTypeServerHello" "MessageTypeServerHello \<noteq> MessageTypeHelloRetryRequest"
    using assms(3) by (simp_all add: u8_at_def MessageTypeServerHello_def MessageTypeHelloRetryRequest_def)
  moreover have "readEncryptedRecord (hi2, \<lparr>rw_in = encryptedRecord sf, rw_out = ch, rw_down = None\<rparr>) =
      (Inr sf, (hi2, \<lparr>rw_in = [], rw_out = ch, rw_down = None\<rparr>))"
    using readEncryptedRecord_record [OF assms(6), where h = hi2 and w = "\<lparr>rw_in = [], rw_out = ch, rw_down = None\<rparr>" and r = "[]"] by simp
  ultimately show ?thesis
    using assms(1,4,5,7) ReadMessage_frame [OF assms(2)]
    by (simp add: initiatorExchangeHellos_def initiatorFinish_def driver_simps)
qed

lemma responder_driver:
  assumes "wf_frame ch" "ProcessClientHello H K L now ch hr0 = (Inr (), hr1)" "\<not> sendHRR hr1" "CreateServerHello H L hr1 = (Inr sh, hr2)"
    "CreateServerFinished H L hr2 = (Inr sf, hr3)" "length cf \<le> MaxMessageSize" "ProcessClientFinished H L now cf hr3 = (Inr (), hr4)"
  shows "bindS (responderExchangeHellos H K L now (hr0, \<lparr>rw_in = ch @ encryptedRecord cf, rw_out = [], rw_down = None\<rparr>))
      (\<lambda>_ st. responderFinish H L now st) =
    (Inr (), (hr4, \<lparr>rw_in = [], rw_out = sh @ encryptedRecord sf, rw_down = None\<rparr>))"
proof -
  have "readEncryptedRecord (hr3, \<lparr>rw_in = encryptedRecord cf, rw_out = sh @ encryptedRecord sf, rw_down = None\<rparr>) =
      (Inr cf, (hr3, \<lparr>rw_in = [], rw_out = sh @ encryptedRecord sf, rw_down = None\<rparr>))"
    using readEncryptedRecord_record [OF assms(6), where h = hr3 and w = "\<lparr>rw_in = [], rw_out = sh @ encryptedRecord sf, rw_down = None\<rparr>" and r = "[]"] by simp
  then show ?thesis
    using assms(2-5,7) ReadMessage_frame [OF assms(1)]
    by (simp add: responderExchangeHellos_def responderFinish_def driver_simps)
qed

lemma stream_installed_mirror:
  assumes "hash_lib_ok H" "length ms = 32" "suite_usable L (sess_CipherSuite si)" "sess_CipherSuite sr = sess_CipherSuite si"
    "sess_Role si = RoleInitiator" "sess_Role sr = RoleResponder" "sess_state si \<noteq> SessionStateClosed" "sess_state sr \<noteq> SessionStateClosed"
    "installed H L False now ms si si'" "installed H L False now' ms sr sr'"
  shows "masterSecret si' = Some ms" "masterSecret sr' = Some ms" "sess_state si' = SessionStateEstablished" "sess_state sr' = SessionStateEstablished"
    "sendCipher si' = recvCipher sr'" "recvCipher si' = sendCipher sr'" "sendCipher si' \<noteq> None" "recvCipher si' \<noteq> None"
    "sendNoncePrefix si' = recvNoncePrefix sr'" "recvNoncePrefix si' = sendNoncePrefix sr'"
    "sess_CipherSuite si' = sess_CipherSuite si" "sess_CipherSuite sr' = sess_CipherSuite sr"
    "sess_ID si' = sess_ID si" "sess_ID sr' = sess_ID sr" "kemSuite si' = kemSuite si" "kemSuite sr' = kemSuite sr"
  using InitializeKeys_ok [OF assms(1-3,7), of now] InitializeKeys_ok [OF assms(1,2) assms(3) [folded assms(4)] assms(8), of now'] assms(4-6,9,10)
  unfolding installed_def by (auto simp: by_role_def)

section \<open>Properties\<close>

text \<open>
  C1: The handshake completes.  An initiator with a key share of a registered suite and a responder whose
  configuration is compatible (a pinned key belongs to the responder's static identity, a pre-shared key is
  found under the initiator's identity, a ticket is accepted with the initiator's secret or rejected) run
  the drivers against each other: what each writes is exactly what the other reads.  Both return without
  error, both sessions are established with the same 32-byte master secret, session id, cipher suite and
  KEM suite, and what one end sends with the other receives with.
\<close>

theorem handshake_completes:
  assumes "hash_lib_ok H" "kem_lib_ok K" "cipher_lib_ok L" "initiator_ready H K si" "responder_ready sr" "static_ok H K si sr" "psk_ok si sr"
    "ticket_ok L now ticket secret tm sr" "tapes_ok ri" "tapes_ok rr"
  shows "\<exists>ci cr si' sr' ms.
    InitiatorResumptionHandshake H K L now ri ticket secret si \<lparr>rw_in = cr, rw_out = [], rw_down = None\<rparr> =
      (Inr (), (si', \<lparr>rw_in = [], rw_out = ci, rw_down = None\<rparr>)) \<and>
    ResponderResumptionHandshake H K L now rr tm sr \<lparr>rw_in = ci, rw_out = [], rw_down = None\<rparr> =
      (Inr (), (sr', \<lparr>rw_in = [], rw_out = cr, rw_down = None\<rparr>)) \<and>
    length ms = 32 \<and> masterSecret si' = Some ms \<and> masterSecret sr' = Some ms \<and>
    sess_state si' = SessionStateEstablished \<and> sess_state sr' = SessionStateEstablished \<and>
    sess_ID si' = sess_ID sr' \<and> sess_CipherSuite si' = sess_CipherSuite sr' \<and> kemSuite si' = kemSuite sr' \<and>
    sendCipher si' \<noteq> None \<and> sendCipher si' = recvCipher sr' \<and> recvCipher si' \<noteq> None \<and> recvCipher si' = sendCipher sr' \<and>
    sendNoncePrefix si' = recvNoncePrefix sr' \<and> recvNoncePrefix si' = sendNoncePrefix sr'"
proof (rule hellos [OF assms(1,2,4-10), where dg = False], goal_cases)
  case (1 ch hi1 hr1 sh hr2 hi2 rpk sid)
  note h = this
  have roles: "sess_Role si = RoleInitiator" "sess_Role sr = RoleResponder"
    using assms(4,5) by (simp_all add: initiator_ready_def responder_ready_def)
  have u: "suite_usable L (sess_CipherSuite (hs_session hi2))" "suite_usable L (sess_CipherSuite (hs_session hr2))"
      "sess_state (hs_session hi2) \<noteq> SessionStateClosed" "sess_state (hs_session hr2) \<noteq> SessionStateClosed"
    by (simp_all add: h shook_def own_suite_usable)
  show ?case
  proof (rule finished_exchange [OF assms(1,3) h(10-12) u, where now = now and now' = now], goal_cases)
    case (1 sf hr3 hi3 cf hi4 hr4 ms)
    note f = this
    have small: "length sf \<le> MaxMessageSize" "length cf \<le> MaxMessageSize"
      using f(5,6) by (simp_all add: constant_defs)
    have st: "initiator_start ticket secret False ri si = SetTicket ticket secret (NewHandshake si ri)"
        "responder_start tm False rr sr = SetTicketManager tm (NewHandshake sr rr)"
      by (simp_all add: start_defs)
    have ri: "InitiatorResumptionHandshake H K L now ri ticket secret si \<lparr>rw_in = sh @ encryptedRecord sf, rw_out = [], rw_down = None\<rparr> =
        (Inr (), (hs_session hi4, \<lparr>rw_in = [], rw_out = ch @ encryptedRecord cf, rw_down = None\<rparr>))"
      using initiator_driver [OF h(1) [unfolded st] h(7,9,5) f(2) small(1) f(3)] by (simp add: InitiatorResumptionHandshake_def keep_session_def)
    have rr: "ResponderResumptionHandshake H K L now rr tm sr \<lparr>rw_in = ch @ encryptedRecord cf, rw_out = [], rw_down = None\<rparr> =
        (Inr (), (hs_session hr4, \<lparr>rw_in = [], rw_out = sh @ encryptedRecord sf, rw_down = None\<rparr>))"
      using responder_driver [OF h(6) h(2) [unfolded st] h(3,4) f(1) small(2) f(4)] by (simp add: ResponderResumptionHandshake_def keep_session_def)
    have x: "sess_CipherSuite (hs_session hr2) = sess_CipherSuite (hs_session hi2)" "sess_Role (hs_session hi2) = RoleInitiator"
        "sess_Role (hs_session hr2) = RoleResponder" "sess_ID (hs_session hr2) = sess_ID (hs_session hi2)"
        "kemSuite (hs_session hr2) = kemSuite (hs_session hi2)"
      using roles by (simp_all add: h(15,16) shook_def)
    note mir = stream_installed_mirror [OF assms(1) f(7) u(1) x(1-3) u(3,4) f(10) [unfolded h(13)] f(11) [unfolded h(14)]]
    show ?case
      by (intro exI [of _ "ch @ encryptedRecord cf"] exI [of _ "sh @ encryptedRecord sf"] exI [of _ "hs_session hi4"]
          exI [of _ "hs_session hr4"] exI [of _ ms] conjI ri rr f(7) mir(1-10)) (simp_all add: mir x)
  qed
qed

text \<open>A pinned client with a pre-shared key and the server that holds the static identity and the key.\<close>

definition sample_kp :: key_pair where
  "sample_kp = v1_key_pair (ecdh_public toy_kem_lib (replicate 32 1), replicate 32 1) (mlkem_derive toy_kem_lib (replicate 64 1))"

definition sample_client :: session where
  "sample_client = (blank_session [7] RoleInitiator (chkemV1 zero_hash_lib toy_kem_lib) (Some sample_kp) 0)
     \<lparr>PinnedServerKey := Some (PublicKey sample_kp), sess_PSK := Some (replicate 32 4), PSKIdentity := Some [65]\<rparr>"

definition sample_server :: session where
  "sample_server = (blank_session [8] RoleResponder (chkemV1 zero_hash_lib toy_kem_lib) None 0)
     \<lparr>StaticKeyPair := Some sample_kp, RequireStaticAuth := True, sess_PSK := Some (replicate 32 4), PSKIdentity := Some [65], RequirePSK := True\<rparr>"

lemma sample_kp_serves:
  "kem_serves (chkemV1 zero_hash_lib toy_kem_lib) sample_kp" "kem_serves_static (chkemV1 zero_hash_lib toy_kem_lib) sample_kp"
  "PublicKey_Suite (PublicKey sample_kp) = SuiteCHKEMv1" "KeyPair_Suite sample_kp = SuiteCHKEMv1"
  unfolding sample_kp_def
  by (auto intro!: v1_serves zero_hash_lib_ok toy_kem_lib_ok)
    (simp_all add: PublicKey_Suite_def KeyPair_Suite_def PublicKey_def v1_key_pair_def)

lemma sample_config:
  "initiator_ready zero_hash_lib toy_kem_lib sample_client" "responder_ready sample_server"
  "static_ok zero_hash_lib toy_kem_lib sample_client sample_server" "psk_ok sample_client sample_server"
  "ticket_ok L now None None None sample_server" "tapes_ok [replicate 64 5, replicate 64 6]"
  using sample_kp_serves
  by (simp_all add: initiator_ready_def responder_ready_def static_ok_def psk_ok_def ticket_ok_def tapes_ok_def sample_client_def
      sample_server_def blank_session_def GetSuite_def chkemV1_def responderPSK_def nil_bytes_def constant_defs)

theorem handshake_completes_witness:
  "\<exists>ci cr si' sr' ms.
    InitiatorResumptionHandshake zero_hash_lib toy_kem_lib tag_cipher_lib 9 [replicate 64 5, replicate 64 6] None None sample_client
      \<lparr>rw_in = cr, rw_out = [], rw_down = None\<rparr> = (Inr (), (si', \<lparr>rw_in = [], rw_out = ci, rw_down = None\<rparr>)) \<and>
    ResponderResumptionHandshake zero_hash_lib toy_kem_lib tag_cipher_lib 9 [replicate 64 5, replicate 64 6] None sample_server
      \<lparr>rw_in = ci, rw_out = [], rw_down = None\<rparr> = (Inr (), (sr', \<lparr>rw_in = [], rw_out = cr, rw_down = None\<rparr>)) \<and>
    masterSecret si' = Some ms \<and> masterSecret sr' = Some ms"
  using handshake_completes [OF zero_hash_lib_ok toy_kem_lib_ok tag_cipher_lib_ok sample_config(1-4) sample_config(5,6,6)] by blast

end
