(* ===== verification/Handshake_Agree.thy ===== *)
theory Handshake_Agree
  imports Handshake_Run
begin

text \<open>
  What a verified Finished message proves, whatever the network did to the hellos: the two ends hashed the
  same secret and the same transcript, hence saw the same hellos and agree on every negotiated parameter.
  The cryptographic assumptions are about single values: the record in question opens only under the key
  that sealed it, and the two hashed inputs in question do not collide.
\<close>

section \<open>What each handler leaves alone\<close>

lemma case_pair_eq: "(case p of (a, b) \<Rightarrow> f a b) = z \<longleftrightarrow> (\<exists>a b. p = (a, b) \<and> f a b = z)"
  by (cases p) simp

lemma hs_tape_keeps: "hs_tape h = (t, h') \<Longrightarrow> h' = h\<lparr>hs_rand := hs_rand h'\<rparr>"
  by (auto simp: hs_tape_def split: list.splits)

lemma clientHelloRandom_keeps:
  "clientHelloRandom h = (r, h') \<Longrightarrow> transcript h' = transcript h \<and> hs_session h' = hs_session h"
  by (auto simp: clientHelloRandom_def hs_tape_def tryS_def split: option.splits list.splits sum.splits)

lemma staticLeg_keeps:
  "staticLeg H K h = (r, h') \<Longrightarrow> transcript h' = transcript h \<and> hs_session h' = hs_session h"
  by (auto simp: staticLeg_def hs_tape_def tryS_def split: option.splits list.splits sum.splits)

lemma pskLeg_keeps: "pskLeg h = (r, h') \<Longrightarrow> transcript h' = transcript h \<and> hs_session h' = hs_session h"
  by (auto simp: pskLeg_def split: option.splits)

lemma resumeLeg_keeps:
  "resumeLeg L now sid h = (r, h') \<Longrightarrow> transcript h' = transcript h \<and> kemSuite (hs_session h') = kemSuite (hs_session h)"
  by (auto simp: resumeLeg_def in_session_def Resume_def tryS_def split: option.splits sum.splits failure.splits if_splits prod.splits)

lemma staticAnswer_keeps:
  "staticAnswer H K ct h = (r, h') \<Longrightarrow> transcript h' = transcript h \<and> hs_session h' = hs_session h"
  by (auto simp: staticAnswer_def tryS_def split: option.splits sum.splits if_splits)

lemma pskAnswer_keeps:
  "pskAnswer idn h = (r, h') \<Longrightarrow> transcript h' = transcript h \<and> hs_session h' = hs_session h"
  by (auto simp: pskAnswer_def hs_tape_def tryS_def split: option.splits sum.splits if_splits list.splits)

lemma mixResumption_keeps:
  "mixResumption H fs h = (r, h') \<Longrightarrow> transcript h' = transcript h \<and> hs_session h' = hs_session h"
  by (auto simp: mixResumption_def tryS_def split: sum.splits if_splits)

lemma keyHandshake_keeps:
  "keyHandshake H L h = (r, h') \<Longrightarrow> transcript h' = transcript h \<and> hs_session h' = hs_session h"
  by (auto simp: keyHandshake_def foldStaticSecret_def foldPSKSecret_def deriveHandshakeKeys_def tryS_def bindS_def Let_def
      split: sum.splits if_splits option.splits prod.splits)

lemmas leg_keeps = clientHelloRandom_keeps staticLeg_keeps pskLeg_keeps resumeLeg_keeps staticAnswer_keeps pskAnswer_keeps
  mixResumption_keeps keyHandshake_keeps

lemma GetSuite_ID: "GetSuite H K sid = Some S \<Longrightarrow> suite_ID S = sid"
  by (auto simp: chkemV1_def xwingSuite_def elim!: GetSuite_cases)

section \<open>What a hello settles\<close>

lemma CreateClientHello_sends:
  assumes "CreateClientHello H K L h = (Inr d, h')"
  obtains msg where "EncodeClientHello msg = Inr d" "ch_Version msg = Current" "ch_CipherSuites msg = SupportedCipherSuites L"
    "ch_KEMSuite msg = suite_ID (kemSuite (hs_session h))" "length (ch_KEMSuites msg) \<le> 255"
    "transcript h' = transcript h @ d" "kemSuite (hs_session h') = kemSuite (hs_session h)"
proof -
  obtain rnd h1 pk ct h2 idn h3 where s: "clientHelloRandom h = (Inr rnd, h1)" "staticLeg H K h1 = (Inr ct, h2)" "pskLeg h2 = (idn, h3)"
      "EncodeClientHello \<lparr>ch_Version = Current, ch_Random = rnd, ch_SessionID = nil_bytes (hs_ticket h3),
         ch_KEMSuite = suite_ID (kemSuite (hs_session h1)), ch_KEMSuites = supportedKEMSuiteIDs, ch_CHKEMPublicKey = pk,
         ch_CipherSuites = SupportedCipherSuites L, ch_CHKEMStaticCiphertext = ct, ch_PSKIdentity = idn\<rparr> = Inr d"
      "transcript h' = transcript h3 @ d" "hs_session h' = SetState SessionStateHandshaking (hs_session h3)"
    using assms by (auto simp: CreateClientHello_def Let_def result_simps case_pair_eq)
  show ?thesis
    by (rule that [OF s(4)]) (use s leg_keeps(1) [OF s(1)] leg_keeps(2) [OF s(2)] leg_keeps(3) [OF s(3)] in
      \<open>simp_all add: SetState_def supportedKEMSuiteIDs_def SupportedSuites_def\<close>)
qed

lemma ProcessClientHello_accepts:
  assumes "ProcessClientHello H K L now d h = (Inr (), h')" "\<not> sendHRR h'"
  obtains msg where "DecodeClientHello d = Inr msg" "transcript h' = transcript h @ d"
    "sess_Version (hs_session h') = ch_Version msg" "sess_CipherSuite (hs_session h') = selectCipherSuite L (ch_CipherSuites msg)"
    "GetSuite H K (ch_KEMSuite msg) = Some (kemSuite (hs_session h'))"
proof -
  obtain msg suite where m: "DecodeClientHello d = Inr msg" "GetSuite H K (ch_KEMSuite msg) = Some suite"
    using assms by (auto simp: ProcessClientHello_def resolveKEMSuite_def result_simps failR_def split: option.splits if_splits)
  obtain h2 pk h4 h5 where s:
      "resumeLeg L now (ch_SessionID msg) (h\<lparr>hs_session := (hs_session h)\<lparr>kemSuite := suite\<rparr>, clientRandom := Some (ch_Random msg)\<rparr>) = (Inr (), h2)"
      "staticAnswer H K (ch_CHKEMStaticCiphertext msg) (h2\<lparr>hs_session := (hs_session h2)\<lparr>RemotePublicKey := Some pk\<rparr>\<rparr>) = (Inr (), h4)"
      "pskAnswer (ch_PSKIdentity msg) h4 = (Inr (), h5)"
      "h' = h5\<lparr>transcript := transcript h5 @ d, hs_session := SetState SessionStateHandshaking
         ((hs_session h5)\<lparr>sess_CipherSuite := selectCipherSuite L (ch_CipherSuites msg), sess_Version := ch_Version msg\<rparr>)\<rparr>"
    using assms(1) m by (auto simp: ProcessClientHello_def resolveKEMSuite_def Let_def result_simps)
  show ?thesis
    by (rule that [OF m(1)]) (use s(4) m(2) leg_keeps(4) [OF s(1)] leg_keeps(5) [OF s(2)] leg_keeps(6) [OF s(3)] in \<open>simp_all add: SetState_def\<close>)
qed

lemma CreateServerHello_sends:
  assumes "CreateServerHello H L h = (Inr d, h')"
  obtains msg where "EncodeServerHello msg = Inr d" "sh_Version msg = Current" "sh_CipherSuite msg = sess_CipherSuite (hs_session h)"
    "sh_KEMSuite msg = suite_ID (kemSuite (hs_session h))" "sh_SessionID msg = sess_ID (hs_session h)"
    "transcript h' = transcript h @ d" "hs_session h' = hs_session h"
proof -
  obtain t1 h1 t2 h2 rnd fs ct h3 h4 where s: "hs_tape h = (t1, h1)" "hs_tape (h1\<lparr>serverRandom := Some rnd\<rparr>) = (t2, h2)"
      "mixResumption H fs h2 = (Inr (), h3)"
      "EncodeServerHello \<lparr>sh_Version = Current, sh_Random = rnd, sh_SessionID = sess_ID (hs_session h1),
         sh_KEMSuite = suite_ID (kemSuite (hs_session h1)), sh_CHKEMCiphertext = Ciphertext_Bytes ct,
         sh_CipherSuite = sess_CipherSuite (hs_session h1)\<rparr> = Inr d"
      "keyHandshake H L (h3\<lparr>transcript := transcript h3 @ d\<rparr>) = (Inr (), h4)" "h' = h4\<lparr>hs_state := HandshakeStateServerHelloSent\<rparr>"
    using assms by (auto simp: CreateServerHello_def Let_def result_simps case_pair_eq)
  have k: "hs_session h1 = hs_session h" "transcript h1 = transcript h" "hs_session h2 = hs_session h" "transcript h2 = transcript h"
    using arg_cong [OF hs_tape_keeps [OF s(1)], of hs_session] arg_cong [OF hs_tape_keeps [OF s(1)], of transcript]
      arg_cong [OF hs_tape_keeps [OF s(2)], of hs_session] arg_cong [OF hs_tape_keeps [OF s(2)], of transcript] by simp_all
  show ?thesis
    by (rule that [OF s(4)]) (use s(6) k leg_keeps(7) [OF s(3)] leg_keeps(8) [OF s(5)] in simp_all)
qed

lemma ProcessServerHello_accepts:
  assumes "ProcessServerHello H L d h = (Inr (), h')"
  obtains msg where "DecodeServerHello d = Inr msg" "transcript h' = transcript h @ d" "sess_Version (hs_session h') = sh_Version msg"
    "sess_CipherSuite (hs_session h') = sh_CipherSuite msg" "sess_ID (hs_session h') = sh_SessionID msg"
    "sh_KEMSuite msg = suite_ID (kemSuite (hs_session h'))"
proof -
  define start where "start = (\<lambda>msg :: server_hello. (if sh_SessionID msg \<noteq> [] \<and> hs_ticket h = Some (sh_SessionID msg) then h\<lparr>resumed := True\<rparr> else h)\<lparr>serverRandom := Some (sh_Random msg)\<rparr>)"
  have st: "transcript (start m) = transcript h" "hs_session (start m) = hs_session h" for m
    by (simp_all add: start_def)
  obtain msg fs h1 h2 where s: "DecodeServerHello d = Inr msg" "sh_KEMSuite msg = suite_ID (kemSuite (hs_session h))"
      "mixResumption H fs (start msg) = (Inr (), h1)"
      "keyHandshake H L (h1\<lparr>transcript := transcript h1 @ d, hs_session := (hs_session (start msg))\<lparr>sess_ID := sh_SessionID msg,
         sess_Version := sh_Version msg, sess_CipherSuite := sh_CipherSuite msg\<rparr>\<rparr>) = (Inr (), h2)"
      "h' = h2\<lparr>hs_state := HandshakeStateServerHelloReceived\<rparr>"
    using assms unfolding ProcessServerHello_def Let_def start_def [symmetric] by (auto simp: result_simps start_def)
  show ?thesis
    by (rule that [OF s(1)]) (use s(2,5) st leg_keeps(7) [OF s(3)] leg_keeps(8) [OF s(4)] in simp_all)
qed

section \<open>What a Finished message proves\<close>

text \<open>The two assumptions, about one record and two hash inputs.\<close>

definition key_bound :: "cipher_lib \<Rightarrow> bytes \<Rightarrow> handshake \<Rightarrow> handshake \<Rightarrow> bool" where
  "key_bound L d hi hr \<longleftrightarrow> (\<forall>c c' p. hs_recvCipher hi = Some c \<longrightarrow> hs_sendCipher hr = Some c' \<longrightarrow> Open L c d [] = Inr p \<longrightarrow> same_key c c')"

definition no_collision :: "hash_lib \<Rightarrow> string \<Rightarrow> handshake \<Rightarrow> handshake \<Rightarrow> bool" where
  "no_collision H lab hi hr \<longleftrightarrow> (\<forall>x y. DeriveKeyMultiple_input lab [nil_bytes (sharedSecret hi), transcript hi] = Some x \<longrightarrow>
     DeriveKeyMultiple_input lab [nil_bytes (sharedSecret hr), transcript hr] = Some y \<longrightarrow> shake256 H x 32 = shake256 H y 32 \<longrightarrow> x = y)"

lemma verify_data_agree:
  assumes "verify_data H lab hi = Inr v" "verify_data H lab hr = Inr v" "no_collision H lab hi hr"
  shows "nil_bytes (sharedSecret hi) = nil_bytes (sharedSecret hr)" "transcript hi = transcript hr"
proof -
  obtain x y where "DeriveKeyMultiple_input lab [nil_bytes (sharedSecret hi), transcript hi] = Some x"
      "DeriveKeyMultiple_input lab [nil_bytes (sharedSecret hr), transcript hr] = Some y" "shake256 H x 32 = v" "shake256 H y 32 = v"
    using assms(1,2) by (auto simp: verify_data_def DeriveKeyMultiple_def result_simps split: option.splits)
  then have "DeriveKeyMultiple_input lab [nil_bytes (sharedSecret hi), transcript hi] =
      DeriveKeyMultiple_input lab [nil_bytes (sharedSecret hr), transcript hr]"
    "DeriveKeyMultiple_input lab [nil_bytes (sharedSecret hi), transcript hi] = Some x"
    using assms(3) unfolding no_collision_def by auto
  then show "nil_bytes (sharedSecret hi) = nil_bytes (sharedSecret hr)" "transcript hi = transcript hr"
    using DeriveKeyMultiple_input_inject(2) [of lab "[nil_bytes (sharedSecret hi), transcript hi]" x] by auto
qed

lemma openFinished_agree:
  assumes "cipher_lib_ok L" "openFinished H L lab d hi = Inr p" "key_bound L d hi hr"
    and "hs_sendCipher hr = Some c" "Seal L c pt [] = (Inr d, c')" "EncodeFinished ty v = Inr pt" "finished_ok ty"
  shows "p = pt" "verify_data H lab hi = Inr v"
proof -
  obtain k where k: "hs_recvCipher hi = Some k" "Open L k d [] = Inr p" "DecodeFinished p = verify_data H lab hi"
    using assms(2) by (auto simp: openFinished_def ConstantTimeCompare_def result_simps failR_def split: option.splits sum.splits failure.splits)
  then have "same_key c k"
    using assms(3,4) by (auto simp: key_bound_def same_key_def)
  then have "Open L k d [] = (if pt = [] then failR ErrCiphertextTooShort else Inr pt)"
    using Open_Seal [OF assms(1) _ assms(5)] by blast
  then show "p = pt"
    using k(2) by (simp add: failR_def split: if_splits)
  then show "verify_data H lab hi = Inr v"
    using k(3) DecodeFinished_put(1) [OF assms(7,6)] by simp
qed

lemma server_finished_agree:
  assumes "cipher_lib_ok L" "CreateServerFinished H L hr = (Inr d, hr')" "ProcessServerFinished H L d hi = (Inr (), hi')"
    "key_bound L d hi hr" "no_collision H ServerFinishedLabel hi hr"
  shows "nil_bytes (sharedSecret hi) = nil_bytes (sharedSecret hr)" "transcript hi = transcript hr" "transcript hi' = transcript hr'"
proof -
  obtain c v pt c' where s: "hs_sendCipher hr = Some c" "verify_data H ServerFinishedLabel hr = Inr v"
      "EncodeFinished MessageTypeServerFinished v = Inr pt" "Seal L c pt [] = (Inr d, c')" "transcript hr' = transcript hr @ pt"
    using assms(2) by (auto simp: CreateServerFinished_def sealFinished_def result_simps failR_def case_pair_eq split: option.splits)
  obtain p where p: "openFinished H L ServerFinishedLabel d hi = Inr p" "transcript hi' = transcript hi @ p"
    using assms(3) by (auto simp: ProcessServerFinished_def result_simps)
  note o = openFinished_agree [OF assms(1) p(1) assms(4) s(1,4,3)]
  show "nil_bytes (sharedSecret hi) = nil_bytes (sharedSecret hr)" "transcript hi = transcript hr" "transcript hi' = transcript hr'"
    using verify_data_agree [OF o(2) s(2) assms(5)] o(1) s(5) p(2) by (simp_all add: finished_ok_def)
qed

section \<open>Properties\<close>

lemma frames_cut:
  assumes "wf_frame f" "wf_frame g" "f @ x = g @ y"
  shows "f = g" "x = y"
proof -
  have "(Inr f :: bytes res, x) = (Inr g, y)"
    using ReadMessage_frame [OF assms(1), of x] ReadMessage_frame [OF assms(2), of y] unfolding assms(3) by (rule trans [OF sym])
  then show "f = g" "x = y"
    by simp_all
qed

lemma client_hello_small:
  assumes "EncodeClientHello m = Inr d" "length (ch_KEMSuites m) \<le> 255" "length d \<le> HeaderSize + MaxMessageSize"
  shows "client_hello_fits m"
proof -
  have "length (ch_CHKEMStaticCiphertext m) \<le> optionalLenPrefixedSize (ch_CHKEMStaticCiphertext m)"
    by (simp add: optionalLenPrefixedSize_def)
  moreover have "client_hello_payloadSize m \<le> 65536"
    using assms(3) EncodeClientHello_payload(2) [OF assms(1)] by (simp add: constant_defs)
  ultimately show ?thesis
    using assms(2) by (simp add: client_hello_fits_def client_hello_payloadSize_def constant_defs)
qed

lemma server_hello_small:
  assumes "EncodeServerHello m = Inr d" "wf_frame d"
  shows "server_hello_fits m"
  using assms(2) EncodeServerHello_payload [OF assms(1)] server_hello_valid [of m]
  by (auto simp: server_hello_fits_def wf_frame_def HeaderSize_def constant_defs)

text \<open>
  C3: No downgrade.  An initiator sends a ClientHello; the network delivers some frame \<open>ch'\<close> to a responder,
  which answers, and some frame \<open>sh'\<close> to the initiator.  If the initiator then accepts the responder's
  ServerFinished, the frames were the ones sent, both ends hold the same secret and the same transcript,
  and they agree on protocol version, session id, KEM suite and cipher suite, the latter being the first
  suite both support.
\<close>

theorem no_downgrade:
  assumes "cipher_lib_ok L"
    and client: "CreateClientHello H K L hi = (Inr ch, hi1)" "transcript hi = []" "length ch \<le> HeaderSize + MaxMessageSize"
      "ProcessServerHello H L sh' hi1 = (Inr (), hi2)" "wf_frame sh'" "ProcessServerFinished H L fin hi2 = (Inr (), hi3)"
    and server: "ProcessClientHello H K L now ch' hr = (Inr (), hr1)" "transcript hr = []" "wf_frame ch'" "\<not> sendHRR hr1"
      "CreateServerHello H L hr1 = (Inr sh, hr2)" "CreateServerFinished H L hr2 = (Inr fin, hr3)"
    and crypto: "key_bound L fin hi2 hr2" "no_collision H ServerFinishedLabel hi2 hr2"
  shows "ch' = ch \<and> sh' = sh \<and> nil_bytes (sharedSecret hi2) = nil_bytes (sharedSecret hr2) \<and> transcript hi3 = transcript hr3 \<and>
    sess_Version (hs_session hi2) = sess_Version (hs_session hr2) \<and> sess_ID (hs_session hi2) = sess_ID (hs_session hr2) \<and>
    suite_ID (kemSuite (hs_session hi2)) = suite_ID (kemSuite (hs_session hr2)) \<and>
    sess_CipherSuite (hs_session hi2) = sess_CipherSuite (hs_session hr2) \<and>
    sess_CipherSuite (hs_session hr2) = selectCipherSuite L (SupportedCipherSuites L)"
proof -
  obtain cm where cm: "EncodeClientHello cm = Inr ch" "ch_Version cm = Current" "ch_CipherSuites cm = SupportedCipherSuites L"
      "length (ch_KEMSuites cm) \<le> 255" "transcript hi1 = ch"
    by (rule CreateClientHello_sends [OF client(1)]) (use client(2) in auto)
  obtain cm' where cm': "DecodeClientHello ch' = Inr cm'" "transcript hr1 = ch'" "sess_Version (hs_session hr1) = ch_Version cm'"
      "sess_CipherSuite (hs_session hr1) = selectCipherSuite L (ch_CipherSuites cm')"
    by (rule ProcessClientHello_accepts [OF server(1,4)]) (use server(2) in auto)
  obtain sm where sm: "EncodeServerHello sm = Inr sh" "sh_Version sm = Current" "sh_CipherSuite sm = sess_CipherSuite (hs_session hr1)"
      "sh_KEMSuite sm = suite_ID (kemSuite (hs_session hr1))" "sh_SessionID sm = sess_ID (hs_session hr1)" "transcript hr2 = ch' @ sh"
      "hs_session hr2 = hs_session hr1"
    by (rule CreateServerHello_sends [OF server(5)]) (use cm'(2) in auto)
  obtain sm' where sm': "DecodeServerHello sh' = Inr sm'" "transcript hi2 = ch @ sh'" "sess_Version (hs_session hi2) = sh_Version sm'"
      "sess_CipherSuite (hs_session hi2) = sh_CipherSuite sm'" "sess_ID (hs_session hi2) = sh_SessionID sm'"
      "sh_KEMSuite sm' = suite_ID (kemSuite (hs_session hi2))"
    by (rule ProcessServerHello_accepts [OF client(4)]) (use cm(5) in auto)
  note agree = server_finished_agree [OF assms(1) server(6) client(6) crypto]
  note fits = client_hello_small [OF cm(1,4) client(3)]
  have eq: "ch = ch'" "sh' = sh"
    using frames_cut [OF client_hello.enc_frame [OF fits cm(1)] server(3)] agree(2) sm(6) sm'(2) by auto
  have "wf_frame sh"
    using client(5) eq(2) by simp
  then have m: "cm' = cm" "sm' = sm"
    using client_hello.dec_enc [OF fits cm(1)] cm'(1) server_hello.dec_enc [OF server_hello_small [OF sm(1)] sm(1)] sm'(1) eq by simp_all
  show ?thesis
    using eq agree(1,3) cm(2,3) cm'(3,4) sm(2-5) sm'(3-6) unfolding m sm(7) by simp
qed

lemma matched_crypto:
  assumes "hs_matched hi hr"
  shows "key_bound L d hi hr" "no_collision H lab hi hr"
proof -
  obtain cs kr where "hs_recvCipher hi = Some (fresh_aead cs kr)" "hs_sendCipher hr = Some (fresh_aead cs kr)"
      "sharedSecret hi = sharedSecret hr" "transcript hi = transcript hr"
    using assms unfolding hs_matched_def by auto
  then show "key_bound L d hi hr" "no_collision H lab hi hr"
    unfolding key_bound_def no_collision_def by (simp_all add: same_key_def)
qed

theorem no_downgrade_witness:
  "\<exists>ch sh fin hi1 hi2 hi3 hr1 hr2 hr3.
     CreateClientHello zero_hash_lib toy_kem_lib tag_cipher_lib
       (initiator_start None None False [replicate 64 5, replicate 64 6] sample_client) = (Inr ch, hi1) \<and>
     ProcessClientHello zero_hash_lib toy_kem_lib tag_cipher_lib 9 ch
       (responder_start None False [replicate 64 5, replicate 64 6] sample_server) = (Inr (), hr1) \<and>
     CreateServerHello zero_hash_lib tag_cipher_lib hr1 = (Inr sh, hr2) \<and> CreateServerFinished zero_hash_lib tag_cipher_lib hr2 = (Inr fin, hr3) \<and>
     ProcessServerHello zero_hash_lib tag_cipher_lib sh hi1 = (Inr (), hi2) \<and>
     ProcessServerFinished zero_hash_lib tag_cipher_lib fin hi2 = (Inr (), hi3) \<and>
     key_bound tag_cipher_lib fin hi2 hr2 \<and> no_collision zero_hash_lib ServerFinishedLabel hi2 hr2 \<and>
     sess_ID (hs_session hi2) = sess_ID (hs_session hr2) \<and> transcript hi3 = transcript hr3"
proof (rule hellos [OF zero_hash_lib_ok toy_kem_lib_ok sample_config(1-4) sample_config(5,6,6), where dg = False and L = tag_cipher_lib and now = 9], goal_cases)
  case (1 ch hi1 hr1 sh hr2 hi2 rpk sid)
  note h = this
  have u: "suite_usable tag_cipher_lib (sess_CipherSuite (hs_session hi2))" "suite_usable tag_cipher_lib (sess_CipherSuite (hs_session hr2))"
      "sess_state (hs_session hi2) \<noteq> SessionStateClosed" "sess_state (hs_session hr2) \<noteq> SessionStateClosed"
    by (simp_all add: h shook_def own_suite_usable)
  have crypto: "key_bound tag_cipher_lib d hi2 hr2" "no_collision zero_hash_lib ServerFinishedLabel hi2 hr2" for d
    by (rule matched_crypto [OF h(10)])+
  have t: "transcript (initiator_start None None False r s) = []" "transcript (responder_start None False r s) = []" for r s
    by (simp_all add: start_defs)
  have l: "length ch \<le> HeaderSize + MaxMessageSize"
    using h(6) by (simp add: wf_frame_def)
  show ?case
  proof (rule finished_exchange [OF zero_hash_lib_ok tag_cipher_lib_ok h(10-12) u, where now = 9 and now' = 9], goal_cases)
    case (1 sf hr3 hi3 cf hi4 hr4 ms)
    note d = no_downgrade [OF tag_cipher_lib_ok h(1) t(1) l h(5,7) 1(2) h(2) t(2) h(6,3,4) 1(1) crypto]
    have e: "sess_ID (hs_session hi2) = sess_ID (hs_session hr2)" "transcript hi3 = transcript hr3"
      using d by blast+
    show ?case
      by (rule exI [of _ ch], rule exI [of _ sh], rule exI [of _ sf], rule exI [of _ hi1], rule exI [of _ hi2], rule exI [of _ hi3],
          rule exI [of _ hr1], rule exI [of _ hr2], rule exI [of _ hr3])
        (rule conjI [OF h(1)] conjI [OF h(2)] conjI [OF h(4)] conjI [OF 1(1)] conjI [OF h(5)] conjI [OF 1(2)] conjI [OF crypto(1)]
          conjI [OF crypto(2)] conjI [OF e])+
  qed
qed

section \<open>No keys before verification\<close>

text \<open>Every method of a handshake that changes it, to be called in any order and with any peer data.\<close>

datatype hs_call =
    CallSetTicket "bytes option" "bytes option" | CallSetTicketManager "ticket_manager option" |
    CallClientHello | CallHelloRetry bytes | CallServerHello bytes | CallServerFinished bytes | CallClientFinished int
  | AnswerClientHello int bytes | AnswerHelloRetry | AnswerServerHello | AnswerServerFinished | AnswerClientFinished int bytes

fun hs_perform :: "hash_lib \<Rightarrow> kem_lib \<Rightarrow> cipher_lib \<Rightarrow> hs_call \<Rightarrow> handshake \<Rightarrow> handshake" where
  "hs_perform H K L (CallSetTicket ticket secret) h = SetTicket ticket secret h"
| "hs_perform H K L (CallSetTicketManager tm) h = SetTicketManager tm h"
| "hs_perform H K L CallClientHello h = snd (CreateClientHello H K L h)"
| "hs_perform H K L (CallHelloRetry d) h = snd (ProcessHelloRetryRequest H K d h)"
| "hs_perform H K L (CallServerHello d) h = snd (ProcessServerHello H L d h)"
| "hs_perform H K L (CallServerFinished d) h = snd (ProcessServerFinished H L d h)"
| "hs_perform H K L (CallClientFinished now) h = snd (CreateClientFinished H L now h)"
| "hs_perform H K L (AnswerClientHello now d) h = snd (ProcessClientHello H K L now d h)"
| "hs_perform H K L AnswerHelloRetry h = snd (CreateHelloRetryRequest H h)"
| "hs_perform H K L AnswerServerHello h = snd (CreateServerHello H L h)"
| "hs_perform H K L AnswerServerFinished h = snd (CreateServerFinished H L h)"
| "hs_perform H K L (AnswerClientFinished now d) h = snd (ProcessClientFinished H L now d h)"

text \<open>
  The data is a Finished record of the peer: it opens under the handshake's receive key, and the verify data
  inside is the one derived from this end's shared secret and transcript with the peer's label.  A call
  verifies the peer when it is made in the state that waits for that record, with such data.
\<close>

definition peer_finished :: "hash_lib \<Rightarrow> cipher_lib \<Rightarrow> string \<Rightarrow> bytes \<Rightarrow> handshake \<Rightarrow> bool" where
  "peer_finished H L lab d h \<longleftrightarrow>
     (\<exists>c p v. hs_recvCipher h = Some c \<and> Open L c d [] = Inr p \<and> DecodeFinished p = Inr v \<and>
        DeriveKeyMultiple H lab [nil_bytes (sharedSecret h), transcript h] 32 = Inr v)"

fun hs_verifies :: "hash_lib \<Rightarrow> cipher_lib \<Rightarrow> hs_call \<Rightarrow> handshake \<Rightarrow> bool" where
  "hs_verifies H L (CallServerFinished d) h \<longleftrightarrow>
     hs_state h = HandshakeStateServerHelloReceived \<and> peer_finished H L ''CH-KEM-Tunnel-ServerFinished'' d h"
| "hs_verifies H L (AnswerClientFinished now d) h \<longleftrightarrow>
     hs_state h = HandshakeStateServerFinishedSent \<and> peer_finished H L ''CH-KEM-Tunnel-ClientFinished'' d h"
| "hs_verifies H L c h \<longleftrightarrow> False"

inductive hs_reaches :: "hash_lib \<Rightarrow> kem_lib \<Rightarrow> cipher_lib \<Rightarrow> handshake \<Rightarrow> handshake \<Rightarrow> bool \<Rightarrow> bool"
  for H K L h0 where
  start: "hs_reaches H K L h0 h0 False"
| call: "hs_reaches H K L h0 h v \<Longrightarrow> hs_reaches H K L h0 (hs_perform H K L c h) (v \<or> hs_verifies H L c h)"

definition unkeyed :: "session \<Rightarrow> bool" where
  "unkeyed s \<longleftrightarrow> masterSecret s = None \<and> sendCipher s = None \<and> recvCipher s = None \<and> dgramEpochs s = None \<and>
     sess_state s \<noteq> SessionStateEstablished"

definition before_finished :: "handshake \<Rightarrow> bool" where
  "before_finished h \<longleftrightarrow> unkeyed (hs_session h) \<and> hs_state h \<noteq> HandshakeStateServerFinishedReceived \<and> hs_state h \<noteq> HandshakeStateComplete"

lemmas before_simps = before_finished_def unkeyed_def SetState_def

lemma before_legs:
  assumes "before_finished h"
  shows "clientHelloRandom h = (r, h') \<Longrightarrow> before_finished h'" "staticLeg H K h = (r, h') \<Longrightarrow> before_finished h'"
    "pskLeg h = (r2, h') \<Longrightarrow> before_finished h'" "resumeLeg L now sid h = (r3, h') \<Longrightarrow> before_finished h'"
    "staticAnswer H K ct h = (r3, h') \<Longrightarrow> before_finished h'" "pskAnswer idn h = (r3, h') \<Longrightarrow> before_finished h'"
    "mixResumption H fs h = (r3, h') \<Longrightarrow> before_finished h'" "keyHandshake H L h = (r3, h') \<Longrightarrow> before_finished h'"
    "hs_tape h = (t, h') \<Longrightarrow> before_finished h'" "replaceFirstHelloWithHash H d h = (r3, h') \<Longrightarrow> before_finished h'"
  using assms
  by (auto simp: before_simps clientHelloRandom_def staticLeg_def pskLeg_def resumeLeg_def in_session_def Resume_def staticAnswer_def
      pskAnswer_def mixResumption_def keyHandshake_def foldStaticSecret_def foldPSKSecret_def deriveHandshakeKeys_def hs_tape_def
      replaceFirstHelloWithHash_def tryS_def bindS_def Let_def
      split: option.splits list.splits sum.splits failure.splits if_splits prod.splits)

lemma before_unkeyed [simp]: "before_finished h \<Longrightarrow> unkeyed (hs_session h)"
  by (simp add: before_finished_def)

lemma before_update [simp]:
  "before_finished (h\<lparr>transcript := t\<rparr>) = before_finished h" "before_finished (h\<lparr>firstClientHello := x\<rparr>) = before_finished h"
  "before_finished (h\<lparr>serverRandom := x\<rparr>) = before_finished h" "before_finished (h\<lparr>clientRandom := x\<rparr>) = before_finished h"
  "before_finished (h\<lparr>resumed := b\<rparr>) = before_finished h" "before_finished (h\<lparr>hs_sendCipher := c\<rparr>) = before_finished h"
  "before_finished (h\<lparr>sendHRR := b\<rparr>) = before_finished h" "before_finished (h\<lparr>hrrDone := b\<rparr>) = before_finished h"
  "before_finished (h\<lparr>hrrSuite := n\<rparr>) = before_finished h"
  "before_finished h \<Longrightarrow> unkeyed s \<Longrightarrow> before_finished (h\<lparr>hs_session := s\<rparr>)"
  "before_finished h \<Longrightarrow> st \<noteq> HandshakeStateServerFinishedReceived \<Longrightarrow> st \<noteq> HandshakeStateComplete \<Longrightarrow> before_finished (h\<lparr>hs_state := st\<rparr>)"
  by (simp_all add: before_finished_def)

lemma unkeyed_update [simp]:
  "unkeyed (s\<lparr>kemSuite := S\<rparr>) = unkeyed s" "unkeyed (s\<lparr>LocalKeyPair := kp\<rparr>) = unkeyed s" "unkeyed (s\<lparr>RemotePublicKey := pk\<rparr>) = unkeyed s"
  "unkeyed (s\<lparr>sess_CipherSuite := cs\<rparr>) = unkeyed s" "unkeyed (s\<lparr>sess_Version := v\<rparr>) = unkeyed s" "unkeyed (s\<lparr>sess_ID := i\<rparr>) = unkeyed s"
  "unkeyed s \<Longrightarrow> unkeyed (SetState SessionStateHandshaking s)"
  by (auto simp: unkeyed_def SetState_def)

lemmas before_run = rejectS_state [where P = before_finished] bindS_state [where P = before_finished] tryS_state [where P = before_finished]

lemma before_CreateClientHello:
  assumes "before_finished h"
  shows "before_finished (snd (CreateClientHello H K L h))"
  unfolding CreateClientHello_def Let_def
proof (intro before_run assms, goal_cases)
  case (1 rnd h1 pk ct h2)
  then have b: "before_finished h2"
    using before_legs(1) [OF assms] before_legs(2) by metis
  obtain idn h3 where p: "pskLeg h2 = (idn, h3)" "before_finished h3"
    using before_legs(3) [OF b] by fastforce
  show ?case
    unfolding p(1) prod.case by (intro before_run p(2)) (use p(2) in simp)
qed (metis before_legs(1) [OF assms] before_legs(2))+

lemma before_HelloRetry:
  assumes "before_finished h"
  shows "before_finished (snd (ProcessHelloRetryRequest H K d h))" "before_finished (snd (CreateHelloRetryRequest H h))"
proof -
  show "before_finished (snd (CreateHelloRetryRequest H h))"
    unfolding CreateHelloRetryRequest_def
    by (intro before_run assms; drule before_legs(10) [OF assms], simp)
  obtain t h1 where p: "hs_tape h = (t, h1)" "before_finished h1"
    using before_legs(9) [OF assms] by fastforce
  have b: "before_finished (h1\<lparr>hs_session := (hs_session h1)\<lparr>kemSuite := suite, LocalKeyPair := Some kp\<rparr>\<rparr>)" for suite kp
    using p(2) by simp
  show "before_finished (snd (ProcessHelloRetryRequest H K d h))"
    unfolding ProcessHelloRetryRequest_def Let_def p(1) prod.case
    by (intro before_run assms p(2); drule before_legs(10) [OF b], simp)
qed

lemma before_ProcessServerHello:
  assumes "before_finished h"
  shows "before_finished (snd (ProcessServerHello H L d h))"
proof -
  have b: "before_finished (if c then h\<lparr>resumed := True\<rparr> else h)" for c
    using assms by simp
  note mix = before_legs(7) [OF iffD2 [OF before_update(3) b]]
  show ?thesis
    unfolding ProcessServerHello_def Let_def
  proof (intro before_run assms, goal_cases)
    case (1 msg ct fs u h1 v h2)
    then show ?case
      using before_legs(8) [OF _ 1(8)] mix [OF 1(7)] b by simp
  next
    case (2 msg ct fs u h1 e h2)
    then show ?case
      using before_legs(8) [OF _ 2(8)] mix [OF 2(7)] b by simp
  qed (use b mix in \<open>simp | metis\<close>)+
qed

lemma before_CreateServerHello:
  assumes "before_finished h"
  shows "before_finished (snd (CreateServerHello H L h))"
proof -
  obtain t1 h1 where p: "hs_tape h = (t1, h1)" "before_finished h1"
    using before_legs(9) [OF assms] by fastforce
  have b: "before_finished (snd (hs_tape (h1\<lparr>serverRandom := x\<rparr>)))" for x
    using before_legs(9) [OF iffD2 [OF before_update(3) p(2)] prod.collapse [symmetric]] .
  note mix = before_legs(7) [OF b]
  show ?thesis
    unfolding CreateServerHello_def Let_def p(1) prod.case case_prod_beta fst_conv snd_conv
  proof (intro before_run assms p(2) b, goal_cases)
    case (1 rnd r u h3 d v h4)
    then show ?case
      using before_legs(8) [OF _ 1(6)] mix [OF 1(4)] by simp
  next
    case (2 rnd r u h3 d e h4)
    then show ?case
      using before_legs(8) [OF _ 2(6)] mix [OF 2(4)] by simp
  qed (metis mix)+
qed

lemma before_ProcessClientHello:
  assumes "before_finished h"
  shows "before_finished (snd (ProcessClientHello H K L now d h))"
proof -
  have b: "before_finished (h\<lparr>hs_session := (hs_session h)\<lparr>kemSuite := S\<rparr>, clientRandom := Some x\<rparr>)" for S x
    using assms by simp
  note r = before_legs(4) [OF b]
  have key: "before_finished (snd (case resolveKEMSuite H K (ch_KEMSuite msg) of
       Inl e \<Rightarrow> if hrrDone h then (Inl e, h)
         else (case selectMutualKEMSuite (ch_KEMSuites msg) of
                 None \<Rightarrow> (failR ErrUnsupportedKEMSuite, h)
               | Some mutual \<Rightarrow> (Inr (), h\<lparr>firstClientHello := Some d, hrrSuite := mutual, sendHRR := True\<rparr>))
     | Inr suite \<Rightarrow> k suite))" if "\<And>suite. before_finished (snd (k suite))" for msg and k :: "kem_suite \<Rightarrow> unit res \<times> handshake"
    using that assms by (auto split: sum.splits option.splits)
  have st: "before_finished ta"
    if "resumeLeg L now sid (h\<lparr>hs_session := (hs_session h)\<lparr>kemSuite := S\<rparr>, clientRandom := Some x\<rparr>) = (u, t)"
      "staticAnswer H K ct (t\<lparr>hs_session := (hs_session t)\<lparr>RemotePublicKey := Some pk\<rparr>\<rparr>) = (v, ta)" for sid S x u t ct pk v ta
    using before_legs(5) [OF _ that(2)] r [OF that(1)] by simp
  show ?thesis
    unfolding ProcessClientHello_def Let_def
  proof (intro before_run assms, goal_cases)
    case (1 msg)
    show ?case
    proof (rule key, intro before_run, goal_cases)
      case (1 suite u h2 pk v h4 w h5)
      show ?case
        using before_legs(6) [OF st [OF 1(1,4)] 1(5)] by simp
    next
      case (2 suite u h2 pk v h4 w h5)
      show ?case
        using before_legs(6) [OF st [OF 2(1,4)] 2(5)] by simp
    next
      case (3 suite u h2 pk v h4 e h5)
      show ?case
        by (rule before_legs(6) [OF st [OF 3(1,4)] 3(5)])
    next
      case (4 suite u h2 pk e h4)
      show ?case
        by (rule st [OF 4(1,4)])
    next
      case (5 suite u h2 pk)
      show ?case
        using r [OF 5(1)] by simp
    qed (erule r)+
  qed
qed

lemma openFinished_peer: "openFinished H L lab d h = Inr p \<Longrightarrow> peer_finished H L lab d h"
  by (auto simp: openFinished_def peer_finished_def verify_data_def ConstantTimeCompare_def bindR_def guardR_def failR_def
      split: option.splits sum.splits failure.splits if_splits)

lemma before_rest:
  assumes "before_finished h"
  shows "before_finished (snd (CreateServerFinished H L h))" "before_finished (snd (CreateClientFinished H L now h))"
    "\<not> hs_verifies H L (CallServerFinished d) h \<Longrightarrow> before_finished (snd (ProcessServerFinished H L d h))"
    "\<not> hs_verifies H L (AnswerClientFinished now d) h \<Longrightarrow> before_finished (snd (ProcessClientFinished H L now d h))"
proof -
  have "hs_state h \<noteq> HandshakeStateServerFinishedReceived"
    using assms by (simp add: before_finished_def)
  then show "before_finished (snd (CreateClientFinished H L now h))"
    using assms by (simp add: CreateClientFinished_def split: option.splits)
  show "before_finished (snd (CreateServerFinished H L h))"
    using assms by (auto simp: CreateServerFinished_def sealFinished_def rejectS_def tryS_def bindS_def split: option.splits sum.splits prod.splits)
  show "before_finished (snd (ProcessServerFinished H L d h))" if "\<not> hs_verifies H L (CallServerFinished d) h"
    using assms that openFinished_peer by (fastforce simp: ServerFinishedLabel_def ProcessServerFinished_def rejectS_def tryS_def split: sum.splits)
  show "before_finished (snd (ProcessClientFinished H L now d h))" if "\<not> hs_verifies H L (AnswerClientFinished now d) h"
    using assms that openFinished_peer by (fastforce simp: ClientFinishedLabel_def ProcessClientFinished_def rejectS_def tryS_def split: sum.splits)
qed

lemma before_perform:
  assumes "before_finished h" "\<not> hs_verifies H L c h"
  shows "before_finished (hs_perform H K L c h)"
  using assms before_CreateClientHello before_HelloRetry before_ProcessServerHello before_CreateServerHello before_ProcessClientHello before_rest
  by (cases c) (simp_all add: SetTicket_def SetTicketManager_def before_finished_def)

text \<open>
  C4: No session key before authentication.  Start a stream or a datagram handshake on a session without keys
  and call its methods, the ticket setters included, in any order with any data from the network.  If the
  session then holds a master secret, a traffic cipher or a datagram epoch, or is established, some call was
  given, in the state that waits for it, a Finished record of the peer: one that opens under the receive key
  and carries the verify data of this end's shared secret and transcript.
\<close>

theorem keys_after_finished:
  assumes "hs_reaches H K L ((NewHandshake s rand)\<lparr>datagram := dg\<rparr>) h verified" "unkeyed s"
    and "masterSecret (hs_session h) \<noteq> None \<or> sendCipher (hs_session h) \<noteq> None \<or> recvCipher (hs_session h) \<noteq> None \<or>
      dgramEpochs (hs_session h) \<noteq> None \<or> sess_state (hs_session h) = SessionStateEstablished"
  shows verified
proof -
  have "verified \<or> before_finished h"
    using assms(1)
  proof induction
    case start
    then show ?case
      using assms(2) by (simp add: before_finished_def NewHandshake_def)
  next
    case (call h v c)
    then show ?case
      using before_perform by blast
  qed
  then show ?thesis
    using assms(3) by (auto simp: before_finished_def unkeyed_def)
qed

theorem keys_after_finished_witness:
  "\<exists>h verified. hs_reaches zero_hash_lib toy_kem_lib tag_cipher_lib
       ((NewHandshake sample_client [replicate 64 5, replicate 64 6])\<lparr>datagram := False\<rparr>) h verified \<and>
     unkeyed sample_client \<and> masterSecret (hs_session h) \<noteq> None \<and> verified"
proof (rule hellos [OF zero_hash_lib_ok toy_kem_lib_ok sample_config(1-4) sample_config(5,6,6), where dg = False and L = tag_cipher_lib and now = 9], goal_cases)
  case (1 ch hi1 hr1 sh hr2 hi2 rpk sid)
  note h = this
  let ?start = "(NewHandshake sample_client [replicate 64 5, replicate 64 6])\<lparr>datagram := False\<rparr>"
  have st: "initiator_start None None False [replicate 64 5, replicate 64 6] sample_client = ?start"
    by (simp add: start_defs)
  have u: "suite_usable tag_cipher_lib (sess_CipherSuite (hs_session hi2))" "suite_usable tag_cipher_lib (sess_CipherSuite (hs_session hr2))"
      "sess_state (hs_session hi2) \<noteq> SessionStateClosed" "sess_state (hs_session hr2) \<noteq> SessionStateClosed"
    by (simp_all add: h shook_def own_suite_usable)
  have uk: "unkeyed sample_client"
    by (simp add: unkeyed_def sample_client_def blank_session_def)
  show ?case
  proof (rule finished_exchange [OF zero_hash_lib_ok tag_cipher_lib_ok h(10-12) u, where now = 9 and now' = 9], goal_cases)
    case (1 sf hr3 hi3 cf hi4 hr4 ms)
    have steps: "hs_perform zero_hash_lib toy_kem_lib tag_cipher_lib CallClientHello ?start = hi1"
        "hs_perform zero_hash_lib toy_kem_lib tag_cipher_lib (CallServerHello sh) hi1 = hi2"
        "hs_perform zero_hash_lib toy_kem_lib tag_cipher_lib (CallServerFinished sf) hi2 = hi3"
        "hs_perform zero_hash_lib toy_kem_lib tag_cipher_lib (CallClientFinished 9) hi3 = hi4"
      using h(1) [unfolded st] h(5) 1(2,3) by simp_all
    obtain v where v: "hs_reaches zero_hash_lib toy_kem_lib tag_cipher_lib ?start hi4 v"
      using hs_reaches.call [OF hs_reaches.call [OF hs_reaches.call [OF hs_reaches.call [OF hs_reaches.start]]],
          of zero_hash_lib toy_kem_lib tag_cipher_lib ?start "CallClientFinished 9" "CallServerFinished sf" "CallServerHello sh" CallClientHello,
          unfolded steps] by blast
    have ms: "masterSecret (hs_session hi4) \<noteq> None"
      using InitializeKeys_ok [OF zero_hash_lib_ok 1(7) u(1,3), of 9] 1(10) by (auto simp: installed_def h(13))
    show ?case
      using v uk ms keys_after_finished [OF v uk] by blast
  qed
qed

end
