(* ===== verification/Dgram_Recover.thy ===== *)
theory Dgram_Recover
  imports Dgram_Fsm
begin

text \<open>
  Two datagram handshake machines over a network that loses, repeats and reorders messages.  A step of the
  network delivers any message sent so far, any number of times and at any time; not delivering it is
  losing it.  The handshake of compatible ends is described by its messages (the script); every reachable
  state is one of a few phases of the script, and from each of them one loss-free retransmission completes
  both ends.
\<close>

section \<open>The network\<close>

record dgram_net =
  nt_i :: dgram_handshake
  nt_r :: dgram_handshake
  to_r :: "hs_message set"
  to_i :: "hs_message set"

inductive dnet_step :: "hash_lib \<Rightarrow> kem_lib \<Rightarrow> cipher_lib \<Rightarrow> dgram_net \<Rightarrow> dgram_net \<Rightarrow> bool" for H K L where
  deliver_r: "m \<in> to_r n \<Longrightarrow> onMessage H K L now (hm_typ m) (hm_body m) (nt_r n) = (Inr (out, c), r) \<Longrightarrow>
    dnet_step H K L n (n\<lparr>nt_r := r, to_i := to_i n \<union> set out\<rparr>)"
| deliver_i: "m \<in> to_i n \<Longrightarrow> onMessage H K L now (hm_typ m) (hm_body m) (nt_i n) = (Inr (out, c), i) \<Longrightarrow>
    dnet_step H K L n (n\<lparr>nt_i := i, to_r := to_r n \<union> set out\<rparr>)"

text \<open>The initiator has sent its hello, the responder waits for one.\<close>

definition net_start :: "dgram_handshake \<Rightarrow> hs_message list \<Rightarrow> session \<Rightarrow> entropy list \<Rightarrow> dgram_net" where
  "net_start i out sr rr = \<lparr>nt_i = i, nt_r = newDgramHandshake sr rr, to_r = set out, to_i = {}\<rparr>"

inductive net_reach :: "hash_lib \<Rightarrow> kem_lib \<Rightarrow> cipher_lib \<Rightarrow> dgram_net \<Rightarrow> dgram_net \<Rightarrow> bool" for H K L n where
  net_here: "net_reach H K L n n"
| net_more: "net_reach H K L n n' \<Longrightarrow> dnet_step H K L n' n'' \<Longrightarrow> net_reach H K L n n''"

text \<open>What a running end resends, the delivery of a flight in order, and one loss-free round: the
  initiator resends, the responder answers and resends, the initiator answers.\<close>

definition flight :: "dgram_handshake \<Rightarrow> hs_message list" where
  "flight d = (if expecting d = 0 then [] else cached d)"

fun deliver_all :: "hash_lib \<Rightarrow> kem_lib \<Rightarrow> cipher_lib \<Rightarrow> int \<Rightarrow> hs_message list \<Rightarrow> dgram_handshake \<Rightarrow>
    hs_message list res \<times> dgram_handshake" where
  "deliver_all H K L now [] d = (Inr [], d)"
| "deliver_all H K L now (m # ms) d =
     bindS (onMessage H K L now (hm_typ m) (hm_body m) d) (\<lambda>(out, c) d.
     bindS (deliver_all H K L now ms d) (\<lambda>rest d. (Inr (out @ rest), d)))"

definition net_round :: "hash_lib \<Rightarrow> kem_lib \<Rightarrow> cipher_lib \<Rightarrow> int \<Rightarrow> dgram_net \<Rightarrow>
    (dgram_handshake \<times> dgram_handshake) res" where
  "net_round H K L now n =
     (case deliver_all H K L now (flight (nt_i n)) (nt_r n) of (o1, r) \<Rightarrow>
      bindR o1 (\<lambda>o1. case deliver_all H K L now (o1 @ flight r) (nt_i n) of (o2, i) \<Rightarrow>
      bindR o2 (\<lambda>o2. case deliver_all H K L now o2 r of (o3, r) \<Rightarrow>
      bindR o3 (\<lambda>_. Inr (i, r)))))"

section \<open>The script of an honest run\<close>

record dgram_script =
  s_ch :: bytes
  s_hi :: handshake
  s_sh :: bytes
  s_sf :: bytes
  s_hr :: handshake

text \<open>The client's Finished \<open>cf\<close>, which leaves the initiator at \<open>hi\<close>, completes the responder with the same
  keys, whenever it arrives.\<close>

definition keys_agree :: "cipher_lib \<Rightarrow> session \<Rightarrow> session \<Rightarrow> bool" where
  "keys_agree L si sr \<longleftrightarrow> dgram_synced L si sr \<and> sess_state si = SessionStateEstablished \<and> sess_state sr = SessionStateEstablished \<and>
     sess_ID si = sess_ID sr"

definition finishes :: "hash_lib \<Rightarrow> cipher_lib \<Rightarrow> bytes \<Rightarrow> handshake \<Rightarrow> handshake \<Rightarrow> bool" where
  "finishes H L cf hi hr \<longleftrightarrow> IsComplete hi \<and>
     (\<forall>now. \<exists>hr'. ProcessClientFinished H L now cf hr = (Inr (), hr') \<and> IsComplete hr' \<and> keys_agree L (hs_session hi) (hs_session hr'))"

definition accepts_sf :: "hash_lib \<Rightarrow> cipher_lib \<Rightarrow> bytes \<Rightarrow> handshake \<Rightarrow> handshake \<Rightarrow> bool" where
  "accepts_sf H L sf hi hr \<longleftrightarrow> (\<forall>now. \<exists>hi' cf hi''. ProcessServerFinished H L sf hi = (Inr (), hi') \<and>
     CreateClientFinished H L now hi' = (Inr cf, hi'') \<and> finishes H L cf hi'' hr)"

definition script_ok :: "hash_lib \<Rightarrow> kem_lib \<Rightarrow> cipher_lib \<Rightarrow> handshake \<Rightarrow> dgram_script \<Rightarrow> bool" where
  "script_ok H K L hr0 S \<longleftrightarrow>
     (\<forall>now. \<exists>hr1 hr2. ProcessClientHello H K L now (s_ch S) hr0 = (Inr (), hr1) \<and> \<not> sendHRR hr1 \<and>
        CreateServerHello H L hr1 = (Inr (s_sh S), hr2) \<and> CreateServerFinished H L hr2 = (Inr (s_sf S), s_hr S)) \<and>
     (\<exists>hi. ProcessServerHello H L (s_sh S) (s_hi S) = (Inr (), hi) \<and> accepts_sf H L (s_sf S) hi (s_hr S)) \<and> \<not> hrrDone hr0"

abbreviation msg_ch :: "dgram_script \<Rightarrow> hs_message" where "msg_ch S \<equiv> \<lparr>hm_typ = MessageTypeClientHello, hm_body = s_ch S\<rparr>"
abbreviation msg_sh :: "dgram_script \<Rightarrow> hs_message" where "msg_sh S \<equiv> \<lparr>hm_typ = MessageTypeServerHello, hm_body = s_sh S\<rparr>"
abbreviation msg_sf :: "dgram_script \<Rightarrow> hs_message" where "msg_sf S \<equiv> \<lparr>hm_typ = MessageTypeServerFinished, hm_body = s_sf S\<rparr>"
abbreviation msg_cf :: "bytes \<Rightarrow> hs_message" where "msg_cf cf \<equiv> \<lparr>hm_typ = MessageTypeClientFinished, hm_body = cf\<rparr>"

text \<open>Phases of the two machines.\<close>

definition i_waits_sh :: "dgram_script \<Rightarrow> dgram_handshake \<Rightarrow> bool" where
  "i_waits_sh S d \<longleftrightarrow> dh_role d = RoleInitiator \<and> dh_hs d = s_hi S \<and> expecting d = MessageTypeServerHello \<and> dh_prev d = 0 \<and>
     cached d = [msg_ch S] \<and> (earlyFinished d = None \<or> earlyFinished d = Some (s_sf S))"

definition i_waits_sf :: "hash_lib \<Rightarrow> cipher_lib \<Rightarrow> dgram_script \<Rightarrow> dgram_handshake \<Rightarrow> bool" where
  "i_waits_sf H L S d \<longleftrightarrow> dh_role d = RoleInitiator \<and> accepts_sf H L (s_sf S) (dh_hs d) (s_hr S) \<and>
     expecting d = MessageTypeServerFinished \<and> dh_prev d = MessageTypeServerHello \<and> cached d = [msg_ch S]"

definition i_done :: "hash_lib \<Rightarrow> cipher_lib \<Rightarrow> dgram_script \<Rightarrow> bytes \<Rightarrow> dgram_handshake \<Rightarrow> bool" where
  "i_done H L S cf d \<longleftrightarrow> dh_role d = RoleInitiator \<and> finishes H L cf (dh_hs d) (s_hr S) \<and> expecting d = 0 \<and>
     dh_prev d = MessageTypeServerFinished \<and> cached d = [msg_cf cf]"

definition r_waits_ch :: "hash_lib \<Rightarrow> kem_lib \<Rightarrow> cipher_lib \<Rightarrow> dgram_script \<Rightarrow> dgram_handshake \<Rightarrow> bool" where
  "r_waits_ch H K L S d \<longleftrightarrow> dh_role d = RoleResponder \<and> script_ok H K L (dh_hs d) S \<and> expecting d = MessageTypeClientHello \<and>
     dh_prev d = 0 \<and> cached d = []"

definition r_waits_cf :: "dgram_script \<Rightarrow> dgram_handshake \<Rightarrow> bool" where
  "r_waits_cf S d \<longleftrightarrow> dh_role d = RoleResponder \<and> dh_hs d = s_hr S \<and> expecting d = MessageTypeClientFinished \<and>
     dh_prev d = MessageTypeClientHello \<and> cached d = [msg_sh S, msg_sf S]"

definition r_done :: "cipher_lib \<Rightarrow> dgram_script \<Rightarrow> session \<Rightarrow> dgram_handshake \<Rightarrow> bool" where
  "r_done L S si d \<longleftrightarrow> dh_role d = RoleResponder \<and> IsComplete (dh_hs d) \<and> keys_agree L si (hs_session (dh_hs d)) \<and> expecting d = 0 \<and>
     dh_prev d = MessageTypeClientFinished \<and> cached d = [msg_sh S, msg_sf S]"

lemmas phase_defs = i_waits_sh_def i_waits_sf_def i_done_def r_waits_ch_def r_waits_cf_def r_done_def

section \<open>What each phase does with each message\<close>

lemmas fsm_simps = onMessage_def fsm_advance_def on_hs_def orDrop_def commit_def MessageTypeClientHello_def MessageTypeServerHello_def
  MessageTypeClientFinished_def MessageTypeServerFinished_def MessageTypeHelloRetryRequest_def

lemma advance_sf:
  assumes "dh_role d = RoleInitiator" "accepts_sf H L (s_sf S) (dh_hs d) (s_hr S)"
  obtains cf d' where "advance_serverFinished H L now (s_sf S) d = (Inr ([msg_cf cf], True), d')" "i_done H L S cf d'"
proof -
  obtain hi' cf hi'' where s: "ProcessServerFinished H L (s_sf S) (dh_hs d) = (Inr (), hi')"
      "CreateClientFinished H L now hi' = (Inr cf, hi'')" "finishes H L cf hi'' (s_hr S)"
    using assms(2) unfolding accepts_sf_def by blast
  then show ?thesis
    using assms(1) by - (rule that [of cf], simp add: advance_serverFinished_def on_hs_def orDrop_def commit_def Let_def, simp add: i_done_def)
qed

lemma waits_sh_sh:
  assumes "i_waits_sh S d" "ProcessServerHello H L (s_sh S) (s_hi S) = (Inr (), hi)" "accepts_sf H L (s_sf S) hi (s_hr S)"
  obtains d' where "onMessage H K L now MessageTypeServerHello (s_sh S) d = (Inr ([], False), d')" "i_waits_sf H L S d'"
  | cf d' where "onMessage H K L now MessageTypeServerHello (s_sh S) d = (Inr ([msg_cf cf], True), d')" "i_done H L S cf d'"
proof (cases "earlyFinished d")
  case None
  then show ?thesis
    using assms by - (rule that(1), simp add: fsm_simps advance_serverHello_def i_waits_sh_def Let_def, simp add: fsm_simps phase_defs)
next
  case (Some e)
  let ?d = "d\<lparr>dh_hs := hi, dh_prev := MessageTypeServerHello, expecting := MessageTypeServerFinished, earlyFinished := None\<rparr>"
  have "dh_role ?d = RoleInitiator" "accepts_sf H L (s_sf S) (dh_hs ?d) (s_hr S)"
    using assms(1,3) by (simp_all add: i_waits_sh_def)
  from advance_sf [OF this] obtain cf d' where a: "advance_serverFinished H L now (s_sf S) ?d = (Inr ([msg_cf cf], True), d')" "i_done H L S cf d'" .
  have "onMessage H K L now MessageTypeServerHello (s_sh S) d = advance_serverFinished H L now (s_sf S) ?d"
    using assms(1,2) Some by (simp add: fsm_simps advance_serverHello_def i_waits_sh_def Let_def)
  with a show ?thesis
    using that(2) by simp
qed

lemma waits_sh_sf:
  assumes "i_waits_sh S d"
  obtains d' where "onMessage H K L now MessageTypeServerFinished (s_sf S) d = (Inr ([], False), d')" "i_waits_sh S d'"
  using assms by - (rule that, simp add: fsm_simps i_waits_sh_def, auto simp: fsm_simps i_waits_sh_def)

lemma waits_sf_sh:
  assumes "i_waits_sf H L S d"
  shows "onMessage H K L now MessageTypeServerHello b d = (Inr ([], False), d)"
  using assms by (simp add: fsm_simps i_waits_sf_def)

lemma waits_sf_sf:
  assumes "i_waits_sf H L S d"
  obtains cf d' where "onMessage H K L now MessageTypeServerFinished (s_sf S) d = (Inr ([msg_cf cf], True), d')" "i_done H L S cf d'"
proof -
  have "onMessage H K L now MessageTypeServerFinished (s_sf S) d = advance_serverFinished H L now (s_sf S) d"
    using assms by (simp add: fsm_simps i_waits_sf_def)
  then show ?thesis
    using advance_sf that assms unfolding i_waits_sf_def by metis
qed

lemma i_done_any:
  assumes "i_done H L S cf d"
  shows "onMessage H K L now MessageTypeServerHello b d = (Inr ([], False), d)"
    "onMessage H K L now MessageTypeServerFinished b d = (Inr ([msg_cf cf], False), d)"
  using assms by (simp_all add: fsm_simps i_done_def)

lemma waits_ch_ch:
  assumes "r_waits_ch H K L S d"
  obtains d' where "onMessage H K L now MessageTypeClientHello (s_ch S) d = (Inr ([msg_sh S, msg_sf S], False), d')" "r_waits_cf S d'"
proof -
  obtain hr1 hr2 where "ProcessClientHello H K L now (s_ch S) (dh_hs d) = (Inr (), hr1)" "\<not> sendHRR hr1"
      "CreateServerHello H L hr1 = (Inr (s_sh S), hr2)" "CreateServerFinished H L hr2 = (Inr (s_sf S), s_hr S)"
    using assms unfolding r_waits_ch_def script_ok_def by blast
  then show ?thesis
    using assms by - (rule that, simp add: fsm_simps advance_clientHello_def r_waits_ch_def script_ok_def Let_def, simp add: fsm_simps phase_defs)
qed

lemma waits_cf_ch:
  assumes "r_waits_cf S d"
  shows "onMessage H K L now MessageTypeClientHello b d = (Inr ([msg_sh S, msg_sf S], False), d)"
  using assms by (simp add: fsm_simps r_waits_cf_def)

lemma waits_cf_cf:
  assumes "r_waits_cf S d" "finishes H L cf hi (s_hr S)"
  obtains d' where "onMessage H K L now MessageTypeClientFinished cf d = (Inr ([], True), d')" "r_done L S (hs_session hi) d'"
proof -
  obtain hr' where "ProcessClientFinished H L now cf (s_hr S) = (Inr (), hr')" "IsComplete hr'" "keys_agree L (hs_session hi) (hs_session hr')"
    using assms(2) unfolding finishes_def by blast
  then show ?thesis
    using assms(1) by - (rule that, simp add: fsm_simps advance_clientFinished_def r_waits_cf_def, simp add: fsm_simps phase_defs)
qed

lemma r_done_any:
  assumes "r_done L S si d"
  shows "onMessage H K L now MessageTypeClientHello b d = (Inr ([], False), d)"
    "onMessage H K L now MessageTypeClientFinished b d = (Inr ([msg_sh S, msg_sf S], False), d)"
  using assms by (simp_all add: fsm_simps r_done_def)

section \<open>The phases of the network\<close>

definition dnet_inv :: "hash_lib \<Rightarrow> kem_lib \<Rightarrow> cipher_lib \<Rightarrow> dgram_script \<Rightarrow> dgram_net \<Rightarrow> bool" where
  "dnet_inv H K L S n \<longleftrightarrow>
     (i_waits_sh S (nt_i n) \<and> to_r n \<subseteq> {msg_ch S} \<and> r_waits_ch H K L S (nt_r n) \<and> to_i n = {}) \<or>
     ((i_waits_sh S (nt_i n) \<or> i_waits_sf H L S (nt_i n)) \<and> to_r n \<subseteq> {msg_ch S} \<and> r_waits_cf S (nt_r n) \<and> to_i n \<subseteq> {msg_sh S, msg_sf S}) \<or>
     (\<exists>cf. i_done H L S cf (nt_i n) \<and> to_r n \<subseteq> {msg_ch S, msg_cf cf} \<and> to_i n \<subseteq> {msg_sh S, msg_sf S} \<and>
        (r_waits_cf S (nt_r n) \<or> r_done L S (hs_session (dh_hs (nt_i n))) (nt_r n)))"

lemma dnet_invE [consumes 1, case_names hello flight finished]:
  assumes "dnet_inv H K L S n"
  obtains "i_waits_sh S (nt_i n)" "to_r n \<subseteq> {msg_ch S}" "r_waits_ch H K L S (nt_r n)" "to_i n = {}"
  | "i_waits_sh S (nt_i n) \<or> i_waits_sf H L S (nt_i n)" "to_r n \<subseteq> {msg_ch S}" "r_waits_cf S (nt_r n)" "to_i n \<subseteq> {msg_sh S, msg_sf S}"
  | cf where "i_done H L S cf (nt_i n)" "to_r n \<subseteq> {msg_ch S, msg_cf cf}" "to_i n \<subseteq> {msg_sh S, msg_sf S}"
      "r_waits_cf S (nt_r n) \<or> r_done L S (hs_session (dh_hs (nt_i n))) (nt_r n)"
  using assms unfolding dnet_inv_def by blast

lemma deliver_r_inv:
  assumes "dnet_inv H K L S n" "m \<in> to_r n"
  shows "\<exists>out c r. onMessage H K L now (hm_typ m) (hm_body m) (nt_r n) = (Inr (out, c), r) \<and>
    dnet_inv H K L S (n\<lparr>nt_r := r, to_i := to_i n \<union> set out\<rparr>)"
  using assms(1)
proof (cases rule: dnet_invE)
  case hello
  then have m: "m = msg_ch S"
    using assms(2) by auto
  from hello(3) obtain d' where "onMessage H K L now MessageTypeClientHello (s_ch S) (nt_r n) = (Inr ([msg_sh S, msg_sf S], False), d')" "r_waits_cf S d'"
    by (rule waits_ch_ch)
  then show ?thesis
    using hello m by (auto simp: dnet_inv_def)
next
  case flight
  then have m: "m = msg_ch S"
    using assms(2) by auto
  show ?thesis
    using flight m waits_cf_ch [OF flight(3)] by (auto simp: dnet_inv_def)
next
  case (finished cf)
  have f: "finishes H L cf (dh_hs (nt_i n)) (s_hr S)"
    using finished(1) by (simp add: i_done_def)
  from finished(2) assms(2) consider "m = msg_ch S" | "m = msg_cf cf"
    by auto
  then show ?thesis
  proof cases
    case 1
    then show ?thesis
      using finished waits_cf_ch [of S "nt_r n"] r_done_any(1) [of L S "hs_session (dh_hs (nt_i n))" "nt_r n"] by (auto simp: dnet_inv_def)
  next
    case 2
    from finished(4) show ?thesis
    proof
      assume "r_waits_cf S (nt_r n)"
      from waits_cf_cf [OF this f] obtain d' where "onMessage H K L now MessageTypeClientFinished cf (nt_r n) = (Inr ([], True), d')"
          "r_done L S (hs_session (dh_hs (nt_i n))) d'" .
      then show ?thesis
        using finished(1-3) 2 by (auto simp: dnet_inv_def)
    next
      assume "r_done L S (hs_session (dh_hs (nt_i n))) (nt_r n)"
      then show ?thesis
        using finished 2 r_done_any(2) [of L S "hs_session (dh_hs (nt_i n))" "nt_r n"] by (auto simp: dnet_inv_def)
    qed
  qed
qed

lemma deliver_i_inv:
  assumes "script_ok H K L hr0 S" "dnet_inv H K L S n" "m \<in> to_i n"
  shows "\<exists>out c i. onMessage H K L now (hm_typ m) (hm_body m) (nt_i n) = (Inr (out, c), i) \<and>
    dnet_inv H K L S (n\<lparr>nt_i := i, to_r := to_r n \<union> set out\<rparr>)"
  using assms(2)
proof (cases rule: dnet_invE)
  case hello
  then show ?thesis
    using assms(3) by simp
next
  case flight
  obtain hi where hi: "ProcessServerHello H L (s_sh S) (s_hi S) = (Inr (), hi)" "accepts_sf H L (s_sf S) hi (s_hr S)"
    using assms(1) unfolding script_ok_def by blast
  have fin: ?thesis if "onMessage H K L now (hm_typ m) (hm_body m) (nt_i n) = (Inr ([msg_cf cf], True), d')" "i_done H L S cf d'" for cf d'
    by (intro exI [of _ "[msg_cf cf]"] exI [of _ True] exI [of _ d']) (use that flight in \<open>auto simp: dnet_inv_def\<close>)
  have wait: ?thesis if "onMessage H K L now (hm_typ m) (hm_body m) (nt_i n) = (Inr ([], False), d')" "i_waits_sh S d' \<or> i_waits_sf H L S d'" for d'
    by (intro exI [of _ "[]"] exI [of _ False] exI [of _ d']) (use that flight in \<open>auto simp: dnet_inv_def\<close>)
  from flight(1) show ?thesis
  proof
    assume w: "i_waits_sh S (nt_i n)"
    from flight(4) assms(3) consider "m = msg_sh S" | "m = msg_sf S"
      by auto
    then show ?thesis
    proof cases
      case 1
      show ?thesis
        by (rule waits_sh_sh [OF w hi, where K = K and now = now]) (use fin wait 1 in auto)
    next
      case 2
      show ?thesis
        by (rule waits_sh_sf [OF w, where H = H and K = K and L = L and now = now]) (use wait 2 in auto)
    qed
  next
    assume w: "i_waits_sf H L S (nt_i n)"
    from flight(4) assms(3) consider "m = msg_sh S" | "m = msg_sf S"
      by auto
    then show ?thesis
    proof cases
      case 1
      show ?thesis
        by (rule wait [of "nt_i n"]) (use w waits_sf_sh [OF w] 1 in auto)
    next
      case 2
      show ?thesis
        by (rule waits_sf_sf [OF w, where K = K and now = now]) (use fin 2 in auto)
    qed
  qed
next
  case (finished cf)
  from finished(3) assms(3) consider "m = msg_sh S" | "m = msg_sf S"
    by auto
  then show ?thesis
    by cases (use finished i_done_any [OF finished(1)] in \<open>auto simp: dnet_inv_def\<close>)
qed

lemma dnet_inv_reach:
  assumes "script_ok H K L hr0 S" "net_reach H K L n0 n" "dnet_inv H K L S n0"
  shows "dnet_inv H K L S n"
  using assms(2,3)
proof induction
  case (net_more n n')
  from net_more.hyps(2) net_more.IH [OF net_more.prems] show ?case
  proof cases
    case (deliver_r m now out c r)
    then show ?thesis
      using deliver_r_inv [OF net_more.IH [OF net_more.prems] deliver_r(2), of now] by auto
  next
    case (deliver_i m now out c i)
    then show ?thesis
      using deliver_i_inv [OF assms(1) net_more.IH [OF net_more.prems] deliver_i(2), of now] by auto
  qed
qed

section \<open>One loss-free round\<close>

lemma deliver_all_append:
  "deliver_all H K L now (xs @ ys) d =
     bindS (deliver_all H K L now xs d) (\<lambda>a d. bindS (deliver_all H K L now ys d) (\<lambda>b d. (Inr (a @ b), d)))"
  by (induction xs arbitrary: d) (auto simp: bindS_def split: prod.splits sum.splits)

lemma deliver_flight_i:
  assumes "script_ok H K L hr0 S" "i_waits_sh S d \<or> i_waits_sf H L S d \<or> (\<exists>cf. i_done H L S cf d)"
  shows "\<exists>k cf d'. deliver_all H K L now [msg_sh S, msg_sf S] d = (Inr (replicate (Suc k) (msg_cf cf)), d') \<and> i_done H L S cf d' \<and>
    (\<forall>cf'. i_done H L S cf' d \<longrightarrow> d' = d)"
proof -
  obtain hi where hi: "ProcessServerHello H L (s_sh S) (s_hi S) = (Inr (), hi)" "accepts_sf H L (s_sf S) hi (s_hr S)"
    using assms(1) unfolding script_ok_def by blast
  have nd: "\<not> i_done H L S cf' d" if "i_waits_sh S d \<or> i_waits_sf H L S d" for cf'
    using that by (auto simp: phase_defs constant_defs)
  have sf: "\<exists>cf d''. deliver_all H K L now [msg_sh S, msg_sf S] d = (Inr (replicate (Suc 0) (msg_cf cf)), d'') \<and> i_done H L S cf d''"
    if "onMessage H K L now MessageTypeServerHello (s_sh S) d = (Inr ([], False), d')" "i_waits_sf H L S d'" for d'
    by (rule waits_sf_sf [OF that(2), where K = K and now = now]) (use that(1) in \<open>auto simp: bindS_def\<close>)
  from assms(2) consider "i_waits_sh S d" | "i_waits_sf H L S d" | cf where "i_done H L S cf d"
    by blast
  then show ?thesis
  proof cases
    case 1
    show ?thesis
    proof (rule waits_sh_sh [OF 1 hi, where K = K and now = now])
      fix d' assume "onMessage H K L now MessageTypeServerHello (s_sh S) d = (Inr ([], False), d')" "i_waits_sf H L S d'"
      from sf [OF this] show ?thesis
        using nd 1 by blast
    next
      fix cf d' assume "onMessage H K L now MessageTypeServerHello (s_sh S) d = (Inr ([msg_cf cf], True), d')" "i_done H L S cf d'"
      then show ?thesis
        using nd 1 i_done_any(2) [of H L S cf d' K now "s_sf S"]
        by (intro exI [of _ 1] exI [of _ cf] exI [of _ d']) (simp add: bindS_def)
    qed
  next
    case 2
    show ?thesis
      using sf [OF waits_sf_sh [OF 2] 2] nd 2 by blast
  next
    case (3 cf)
    then show ?thesis
      using i_done_any [OF 3]
      by (intro exI [of _ 0] exI [of _ cf] exI [of _ d]) (simp add: bindS_def)
  qed
qed

lemma deliver_cf_done:
  assumes "r_done L S si d"
  shows "\<exists>out. deliver_all H K L now (replicate k (msg_cf cf)) d = (Inr out, d)"
  by (induction k) (auto simp: r_done_any(2) [OF assms] bindS_def)

lemma deliver_cf:
  assumes "r_waits_cf S d" "i_done H L S cf i"
  shows "\<exists>out d'. deliver_all H K L now (replicate (Suc k) (msg_cf cf)) d = (Inr out, d') \<and> r_done L S (hs_session (dh_hs i)) d'"
proof -
  have "finishes H L cf (dh_hs i) (s_hr S)"
    using assms(2) by (simp add: i_done_def)
  from waits_cf_cf [OF assms(1) this] obtain d' where d': "onMessage H K L now MessageTypeClientFinished cf d = (Inr ([], True), d')"
      "r_done L S (hs_session (dh_hs i)) d'" .
  then show ?thesis
    using deliver_cf_done [OF d'(2), of H K now k cf] by (auto simp: bindS_def)
qed

lemma round_from_flight:
  assumes "script_ok H K L hr0 S" "i_waits_sh S i \<or> i_waits_sf H L S i \<or> (\<exists>cf. i_done H L S cf i)" "r_waits_cf S r"
    "set fl \<subseteq> {[msg_sh S, msg_sf S]}" "fl \<noteq> []"
  shows "\<exists>o2 i' o3 r' cf. deliver_all H K L now (concat fl) i = (Inr o2, i') \<and> deliver_all H K L now o2 r = (Inr o3, r') \<and>
    i_done H L S cf i' \<and> r_done L S (hs_session (dh_hs i')) r'"
proof -
  have "\<exists>k cf i'. deliver_all H K L now (concat fl) i = (Inr (replicate (Suc k) (msg_cf cf)), i') \<and> i_done H L S cf i' \<and>
      (\<forall>cf'. i_done H L S cf' i \<longrightarrow> i' = i)"
    using assms(4,5,2)
  proof (induction fl arbitrary: i)
    case (Cons f fl)
    from deliver_flight_i [OF assms(1) Cons.prems(3), of now] obtain k cf i' where k:
        "deliver_all H K L now [msg_sh S, msg_sf S] i = (Inr (replicate (Suc k) (msg_cf cf)), i')" "i_done H L S cf i'"
        "\<forall>cf'. i_done H L S cf' i \<longrightarrow> i' = i"
      by blast
    show ?case
    proof (cases "fl = []")
      case True
      then show ?thesis
        using k Cons.prems(1) by auto
    next
      case False
      have "\<exists>k cf i''. deliver_all H K L now (concat fl) i' = (Inr (replicate (Suc k) (msg_cf cf)), i'') \<and> i_done H L S cf i'' \<and>
          (\<forall>cf'. i_done H L S cf' i' \<longrightarrow> i'' = i')"
        by (rule Cons.IH) (use Cons.prems(1) False k(2) in auto)
      then obtain k' cf' where k': "deliver_all H K L now (concat fl) i' = (Inr (replicate (Suc k') (msg_cf cf')), i')" "i_done H L S cf' i'"
        using k(2) by blast
      then have "cf' = cf"
        using k(2) by (simp add: i_done_def)
      then have "deliver_all H K L now (concat (f # fl)) i = (Inr (replicate (Suc (k + Suc k')) (msg_cf cf)), i')"
        using Cons.prems(1) k(1) k'(1) deliver_all_append [of H K L now "[msg_sh S, msg_sf S]" "concat fl" i]
        by (simp add: bindS_def replicate_add [symmetric] replicate_app_Cons_same)
      then show ?thesis
        using k(2,3) by blast
    qed
  qed simp
  then obtain k cf i' where "deliver_all H K L now (concat fl) i = (Inr (replicate (Suc k) (msg_cf cf)), i')" "i_done H L S cf i'"
    by blast
  then show ?thesis
    using deliver_cf [OF assms(3), of H L cf i' K now k] by blast
qed

definition net_complete :: "cipher_lib \<Rightarrow> dgram_handshake \<Rightarrow> dgram_handshake \<Rightarrow> bool" where
  "net_complete L i r \<longleftrightarrow> IsComplete (dh_hs i) \<and> IsComplete (dh_hs r) \<and> keys_agree L (hs_session (dh_hs i)) (hs_session (dh_hs r))"

lemma done_complete:
  assumes "i_done H L S cf i" "r_done L S (hs_session (dh_hs i)) r"
  shows "net_complete L i r"
  using assms by (simp add: i_done_def r_done_def finishes_def net_complete_def)

lemma net_round_completes:
  assumes "script_ok H K L hr0 S" "dnet_inv H K L S n"
  shows "\<exists>i r. net_round H K L now n = Inr (i, r) \<and> net_complete L i r"
proof -
  have two: ?thesis if "deliver_all H K L now (flight (nt_i n)) (nt_r n) = (Inr o1, r)" "r_waits_cf S r"
      "i_waits_sh S (nt_i n) \<or> i_waits_sf H L S (nt_i n) \<or> (\<exists>cf. i_done H L S cf (nt_i n))"
      "o1 = concat fl" "set fl \<subseteq> {[msg_sh S, msg_sf S]}" for o1 r fl
  proof -
    note t = that
    have "flight r = [msg_sh S, msg_sf S]"
      using that(2) by (simp add: flight_def r_waits_cf_def constant_defs)
    then have c: "o1 @ flight r = concat (fl @ [[msg_sh S, msg_sf S]])"
      using that(4) by simp
    obtain o2 i' o3 r' cf where "deliver_all H K L now (o1 @ flight r) (nt_i n) = (Inr o2, i')" "deliver_all H K L now o2 r = (Inr o3, r')"
        "i_done H L S cf i'" "r_done L S (hs_session (dh_hs i')) r'"
      using round_from_flight [OF assms(1) t(3,2), of "fl @ [[msg_sh S, msg_sf S]]" now] t(5) unfolding c by auto
    then show ?thesis
      using that(1) done_complete by (intro exI [of _ i'] exI [of _ r']) (auto simp: net_round_def)
  qed
  from assms(2) show ?thesis
  proof (cases rule: dnet_invE)
    case hello
    then have f: "flight (nt_i n) = [msg_ch S]"
      by (simp add: flight_def i_waits_sh_def constant_defs)
    show ?thesis
      by (rule waits_ch_ch [OF hello(3), where now = now], rule two [where fl = "[[msg_sh S, msg_sf S]]"]) (use hello f in \<open>auto simp: bindS_def\<close>)
  next
    case flight
    then have f: "flight (nt_i n) = [msg_ch S]"
      by (auto simp: flight_def i_waits_sh_def i_waits_sf_def constant_defs)
    show ?thesis
      by (rule two [where fl = "[[msg_sh S, msg_sf S]]" and r = "nt_r n"]) (use flight f waits_cf_ch [OF flight(3)] in \<open>auto simp: bindS_def\<close>)
  next
    case (finished cf)
    then have f: "flight (nt_i n) = []"
      by (simp add: flight_def i_done_def)
    from finished(4) show ?thesis
    proof
      assume "r_waits_cf S (nt_r n)"
      then show ?thesis
        by (intro two [where fl = "[]" and r = "nt_r n"]) (use finished(1) f in auto)
    next
      assume r: "r_done L S (hs_session (dh_hs (nt_i n))) (nt_r n)"
      then have "flight (nt_r n) = []"
        by (simp add: flight_def r_done_def)
      then show ?thesis
        using f done_complete [OF finished(1) r] by (simp add: net_round_def)
    qed
  qed
qed

section \<open>Compatible ends follow a script\<close>

lemma resumeLeg_now: "ticketManager h = None \<Longrightarrow> resumeLeg L now sid h = (Inr (), h)"
  by (simp add: resumeLeg_def)

lemma ProcessClientHello_now:
  assumes "ticketManager h = None"
  shows "ProcessClientHello H K L now d h = ProcessClientHello H K L now' d h"
  using assms unfolding ProcessClientHello_def by (simp add: resumeLeg_now Let_def cong: sum.case_cong)

lemma InitializeDatagramKeys_ID:
  assumes "InitializeDatagramKeys H L now ms cs s = (Inr (), s')"
  shows "sess_ID s' = sess_ID s"
  using assms by (auto simp: InitializeDatagramKeys_def result_simps Let_def case_pair_eq)

lemma installed_keys_agree:
  assumes "hash_lib_ok H" "kem_correct (kemSuite si)" "kemSuite sr = kemSuite si" "length ms = 32" "suite_usable L (sess_CipherSuite si)" "sess_CipherSuite sr = sess_CipherSuite si"
    "sess_Role si = RoleInitiator" "sess_Role sr = RoleResponder" "sess_state si \<noteq> SessionStateClosed" "sess_state sr \<noteq> SessionStateClosed"
    "installed H L True now ms si si'" "installed H L True now' ms sr sr'" "sess_ID si = sess_ID sr"
  shows "keys_agree L si' sr'"
proof -
  have "dgram_synced L si' sr'"
    using InitializeDatagramKeys_synced [OF assms(1,4,5,2,7,9) refl assms(8,10,3), of now now'] assms(6,11,12) by (auto simp: installed_def)
  moreover have "sess_state si' = SessionStateEstablished" "sess_state sr' = SessionStateEstablished"
    using InitializeDatagramKeys_ok [OF assms(1,4,5,9), of now] InitializeDatagramKeys_ok [OF assms(1,4,5,10), of now'] assms(6,11,12)
    by (auto simp: installed_def)
  ultimately show ?thesis
    using assms(11-13) InitializeDatagramKeys_ID by (fastforce simp: keys_agree_def installed_def)
qed

lemma dgram_starts:
  "dh_hs (newDgramHandshake s rand) = initiator_start None None True rand s"
  "dh_hs (newDgramHandshake s rand) = responder_start None True rand s"
  by (simp_all add: newDgramHandshake_def start_defs)

lemma compatible_script:
  assumes "hash_lib_ok H" "kem_lib_ok K" "cipher_lib_ok L" "initiator_ready H K si" "responder_ready sr" "static_ok H K si sr" "psk_ok si sr"
    "tapes_ok ri" "tapes_ok rr"
  obtains S where "fsm_start H K L (newDgramHandshake si ri) = (Inr [msg_ch S], (newDgramHandshake si ri)
      \<lparr>dh_hs := s_hi S, cached := [msg_ch S], expecting := MessageTypeServerHello\<rparr>)"
    "script_ok H K L (dh_hs (newDgramHandshake sr rr)) S"
proof -
  have tk: "ticket_ok L 0 None None None sr"
    using assms(5) by (simp add: ticket_ok_def responder_ready_def nil_bytes_def)
  have kc: "kem_correct (kemSuite si)"
    using assms(4) GetSuite_correct [OF assms(1,2)] by (auto simp: initiator_ready_def)
  have roles: "sess_Role si = RoleInitiator" "sess_Role sr = RoleResponder"
    using assms(4,5) by (simp_all add: initiator_ready_def responder_ready_def)
  show ?thesis
  proof (rule hellos [OF assms(1,2,4-7) tk assms(8,9), where dg = True], goal_cases)
    case (1 ch hi1 hr1 sh hr2 hi2 rpk sid)
    note h = this
    have u: "suite_usable L (sess_CipherSuite (hs_session hi2))" "suite_usable L (sess_CipherSuite (hs_session hr2))"
        "sess_state (hs_session hi2) \<noteq> SessionStateClosed" "sess_state (hs_session hr2) \<noteq> SessionStateClosed"
      by (simp_all add: h shook_def own_suite_usable)
    have x: "sess_CipherSuite (hs_session hr2) = sess_CipherSuite (hs_session hi2)" "sess_Role (hs_session hi2) = RoleInitiator"
        "sess_Role (hs_session hr2) = RoleResponder" "sess_ID (hs_session hi2) = sess_ID (hs_session hr2)"
        "kemSuite (hs_session hr2) = kemSuite (hs_session hi2)" "kem_correct (kemSuite (hs_session hi2))"
      using roles kc by (simp_all add: h(15,16) shook_def)
    obtain sf hr3 hi3 where f: "CreateServerFinished H L hr2 = (Inr sf, hr3)" "ProcessServerFinished H L sf hi2 = (Inr (), hi3)"
      by (rule finished_exchange [OF assms(1,3) h(10-12) u, where now = 0 and now' = 0])
    have a: "accepts_sf H L sf hi2 hr3"
      unfolding accepts_sf_def
    proof (intro allI)
      fix now
      obtain cf hi4 where c: "CreateClientFinished H L now hi3 = (Inr cf, hi4)" "IsComplete hi4"
        by (rule finished_exchange [OF assms(1,3) h(10-12) u, where now = now and now' = 0]) (use f in simp)
      have "finishes H L cf hi4 hr3"
        unfolding finishes_def
      proof (intro conjI c(2) allI)
        fix now'
        show "\<exists>hr'. ProcessClientFinished H L now' cf hr3 = (Inr (), hr') \<and> IsComplete hr' \<and> keys_agree L (hs_session hi4) (hs_session hr')"
        proof (rule finished_exchange [OF assms(1,3) h(10-12) u, where now = now and now' = now'], goal_cases)
          case (1 sf' hr3' hi3' cf' hi4' hr4 ms)
          then have e: "hr3' = hr3" "cf' = cf" "hi4' = hi4"
            using f c(1) by simp_all
          have "keys_agree L (hs_session hi4) (hs_session hr4)"
            by (rule installed_keys_agree [OF assms(1) x(6,5) _ u(1) x(1-3) u(3,4)]) (use 1 e h(13,14) x(4) in simp_all)
          then show ?case
            using 1 e by blast
        qed
      qed
      then show "\<exists>hi' cf hi''. ProcessServerFinished H L sf hi2 = (Inr (), hi') \<and> CreateClientFinished H L now hi' = (Inr cf, hi'') \<and> finishes H L cf hi'' hr3"
        using f(2) c(1) by blast
    qed
    let ?S = "\<lparr>s_ch = ch, s_hi = hi1, s_sh = sh, s_sf = sf, s_hr = hr3\<rparr>"
    have p: "ProcessClientHello H K L now ch (responder_start None True rr sr) = (Inr (), hr1)" for now
      using h(2) ProcessClientHello_now [of "responder_start None True rr sr" H K L now ch 0] by (simp add: start_defs)
    have "script_ok H K L (dh_hs (newDgramHandshake sr rr)) ?S"
      unfolding script_ok_def dgram_starts(2) using p h(3-5) f(1) a by (auto simp: start_defs)
    moreover have "fsm_start H K L (newDgramHandshake si ri) = (Inr [msg_ch ?S], (newDgramHandshake si ri)
        \<lparr>dh_hs := s_hi ?S, cached := [msg_ch ?S], expecting := MessageTypeServerHello\<rparr>)"
      unfolding fsm_start_def on_hs_def dgram_starts(1) h(1) by (simp add: bindS_def Let_def)
    ultimately show ?case
      using that by blast
  qed
qed

lemma dnet_inv_complete:
  assumes "dnet_inv H K L S n" "expecting (nt_i n) = 0" "expecting (nt_r n) = 0"
  shows "net_complete L (nt_i n) (nt_r n)"
  using assms(1)
proof (cases rule: dnet_invE)
  case (finished cf)
  then show ?thesis
    using assms(3) done_complete by (auto simp: r_waits_cf_def constant_defs)
qed (use assms(2,3) in \<open>auto simp: phase_defs constant_defs\<close>)

section \<open>Properties\<close>

text \<open>
  C5: The datagram handshake recovers from loss, duplication and reordering.  Between an initiator and a
  responder with compatible configuration, whatever messages were lost, repeated or reordered: no delivery
  panics; when neither end expects a further message they are complete; and from every reachable state one
  loss-free round of retransmissions completes both ends.  Complete means mirrored keys for epoch 0, the
  same master secret and the same session id.
\<close>

theorem dgram_handshake_recovers:
  assumes "hash_lib_ok H" "kem_lib_ok K" "cipher_lib_ok L" "initiator_ready H K si" "responder_ready sr" "static_ok H K si sr" "psk_ok si sr"
    "tapes_ok ri" "tapes_ok rr"
  shows "\<exists>hello i. fsm_start H K L (newDgramHandshake si ri) = (Inr hello, i) \<and>
    (\<forall>n. net_reach H K L (net_start i hello sr rr) n \<longrightarrow>
       (\<forall>now. \<forall>m \<in> to_r n. \<exists>x r. onMessage H K L now (hm_typ m) (hm_body m) (nt_r n) = (Inr x, r)) \<and>
       (\<forall>now. \<forall>m \<in> to_i n. \<exists>x r. onMessage H K L now (hm_typ m) (hm_body m) (nt_i n) = (Inr x, r)) \<and>
       (expecting (nt_i n) = 0 \<longrightarrow> expecting (nt_r n) = 0 \<longrightarrow> net_complete L (nt_i n) (nt_r n)) \<and>
       (\<forall>now. \<exists>i r. net_round H K L now n = Inr (i, r) \<and> net_complete L i r))"
proof (rule compatible_script [OF assms], goal_cases)
  case (1 S)
  let ?i = "(newDgramHandshake si ri)\<lparr>dh_hs := s_hi S, cached := [msg_ch S], expecting := MessageTypeServerHello\<rparr>"
  have "dnet_inv H K L S (net_start ?i [msg_ch S] sr rr)"
    using 1(2) assms(4,5) unfolding dnet_inv_def
    by (simp add: net_start_def newDgramHandshake_def phase_defs initiator_ready_def responder_ready_def)
  note inv = dnet_inv_reach [OF 1(2) _ this]
  show ?case
  proof (rule exI [of _ "[msg_ch S]"], rule exI [of _ ?i], intro conjI allI impI ballI)
    fix n assume r: "net_reach H K L (net_start ?i [msg_ch S] sr rr) n"
    show "net_complete L (nt_i n) (nt_r n)" if "expecting (nt_i n) = 0" "expecting (nt_r n) = 0"
      using dnet_inv_complete [OF inv [OF r] that] .
    show "\<exists>x d. onMessage H K L now (hm_typ m) (hm_body m) (nt_r n) = (Inr x, d)" if "m \<in> to_r n" for m now
      using deliver_r_inv [OF inv [OF r] that] by blast
    show "\<exists>x d. onMessage H K L now (hm_typ m) (hm_body m) (nt_i n) = (Inr x, d)" if "m \<in> to_i n" for m now
      using deliver_i_inv [OF 1(2) inv [OF r] that] by blast
    show "\<exists>i r. net_round H K L now n = Inr (i, r) \<and> net_complete L i r" for now
      using net_round_completes [OF 1(2) inv [OF r]] .
  qed (rule 1(1))
qed

theorem dgram_handshake_recovers_witness:
  "\<exists>hello i n i' r'. fsm_start zero_hash_lib toy_kem_lib tag_cipher_lib (newDgramHandshake sample_client [replicate 64 5, replicate 64 6]) = (Inr hello, i) \<and>
     net_reach zero_hash_lib toy_kem_lib tag_cipher_lib (net_start i hello sample_server [replicate 64 5, replicate 64 6]) n \<and>
     net_round zero_hash_lib toy_kem_lib tag_cipher_lib 3 n = Inr (i', r') \<and> net_complete tag_cipher_lib i' r'"
  using dgram_handshake_recovers [OF zero_hash_lib_ok toy_kem_lib_ok tag_cipher_lib_ok sample_config(1-4) sample_config(6,6)] net_here by blast

section \<open>An injected ServerHello\<close>

lemma Open_no_panic: "Open L a c ad \<noteq> Inl Panic"
  by (auto simp: Open_def result_simps failR_def constant_defs split: option.splits)

lemma openFinished_no_panic:
  assumes "hs_recvCipher h \<noteq> None"
  shows "openFinished H L lab d h \<noteq> Inl Panic"
  using assms other_decoders_never_panic Open_no_panic DeriveKeyMultiple_no_panic
  by (auto simp: openFinished_def verify_data_def result_simps failR_def split: option.splits sum.splits failure.splits)

lemma ProcessServerFinished_rejects:
  assumes "fst (ProcessServerFinished H L d h) \<noteq> Inr ()"
  obtains e where "ProcessServerFinished H L d h = (Inl (Err e), h)"
  using assms openFinished_no_panic [of h H L ServerFinishedLabel d]
  by (cases "openFinished H L ServerFinishedLabel d h"; cases "projl (openFinished H L ServerFinishedLabel d h)")
    (auto simp: ProcessServerFinished_def rejectS_def failR_def split: if_splits)

text \<open>
  C24: An injected ServerHello stops the handshake for good.  ServerHello is not authenticated, so an
  initiator waiting for it takes any one that parses and whose ciphertext decapsulates (ML-KEM always
  decapsulates to something).  From then on every further ServerHello is dropped, and the genuine
  ServerFinished does not verify, the transcripts being different: whatever flights of the genuine server
  arrive, in any number and order, the machine stays where it is and never completes.
\<close>

theorem injected_hello_sticks:
  assumes "cipher_lib_ok L"
    and waiting: "dh_role d = RoleInitiator" "expecting d = MessageTypeServerHello" "earlyFinished d = None"
    and injected: "ProcessServerHello H L sh' (dh_hs d) = (Inr (), hi)"
    and genuine: "CreateServerFinished H L hr = (Inr fin, hr')" "transcript hi \<noteq> transcript hr"
    and crypto: "key_bound L fin hi hr" "no_collision H ServerFinishedLabel hi hr"
    and flights: "\<And>m. m \<in> set ms \<Longrightarrow> hm_typ m = MessageTypeServerHello \<or> m = \<lparr>hm_typ = MessageTypeServerFinished, hm_body = fin\<rparr>"
  shows "\<exists>d'. onMessage H K L now MessageTypeServerHello sh' d = (Inr ([], False), d') \<and>
    deliver_all H K L now ms d' = (Inr [], d') \<and> expecting d' = MessageTypeServerFinished \<and> \<not> IsComplete (dh_hs d')"
proof -
  let ?d = "d\<lparr>dh_hs := hi, dh_prev := MessageTypeServerHello, expecting := MessageTypeServerFinished\<rparr>"
  have first: "onMessage H K L now MessageTypeServerHello sh' d = (Inr ([], False), ?d)"
    using waiting injected by (simp add: fsm_simps advance_serverHello_def Let_def)
  have "fst (ProcessServerFinished H L fin hi) \<noteq> Inr ()"
    using server_finished_agree(2) [OF assms(1) genuine(1) _ crypto] genuine(2) by (metis eq_fst_iff)
  then obtain e where e: "ProcessServerFinished H L fin hi = (Inl (Err e), hi)"
    by (rule ProcessServerFinished_rejects)
  have drop: "onMessage H K L now (hm_typ m) (hm_body m) ?d = (Inr ([], False), ?d)" if "m \<in> set ms" for m
    using flights [OF that] waiting e by (auto simp: fsm_simps advance_serverFinished_def)
  have all: "deliver_all H K L now xs ?d = (Inr [], ?d)" if "set xs \<subseteq> set ms" for xs
    using that by (induction xs) (simp_all add: drop bindS_def)
  have "hs_state hi = HandshakeStateServerHelloReceived"
    using injected by (auto simp: ProcessServerHello_def result_simps Let_def case_pair_eq)
  then show ?thesis
    using first all [of ms] by (simp add: IsComplete_def)
qed

text \<open>Two ends without authentication, over a hash that shows the end of its input.\<close>

definition plain_client :: session where
  "plain_client = blank_session [7] RoleInitiator (chkemV1 tail_hash_lib toy_kem_lib) (Some sample_kp) 0"

definition plain_server :: session where
  "plain_server = blank_session [8] RoleResponder (chkemV1 tail_hash_lib toy_kem_lib) None 0"

lemma plain_config:
  "initiator_ready tail_hash_lib toy_kem_lib plain_client" "responder_ready plain_server"
  "static_ok tail_hash_lib toy_kem_lib plain_client plain_server" "psk_ok plain_client plain_server"
  "ticket_ok L now None None None plain_server"
  using v1_serves [OF tail_hash_lib_ok toy_kem_lib_ok, of "replicate 32 1" KemRoleResponder "replicate 64 1"]
  by (simp_all add: initiator_ready_def responder_ready_def static_ok_def psk_ok_def ticket_ok_def plain_client_def plain_server_def
      blank_session_def GetSuite_def chkemV1_def sample_kp_def nil_bytes_def constant_defs)

lemma DeriveKeyMultiple_input_last:
  assumes "DeriveKeyMultiple_input lab [a, b] = Some x" "b \<noteq> []"
  shows "x \<noteq> []" "last x = last b"
  using assms by (auto simp: DeriveKeyMultiple_input_def prefixed_def safeUint32_def split: option.splits prod.splits bool.splits if_splits)

lemma tail_no_collision:
  assumes "transcript h \<noteq> []" "transcript h' \<noteq> []" "last (transcript h) \<noteq> last (transcript h')"
  shows "no_collision tail_hash_lib lab h h'"
proof -
  have "False" if "DeriveKeyMultiple_input lab [a, transcript h] = Some x" "DeriveKeyMultiple_input lab [b, transcript h'] = Some y"
      "copy_into 32 (rev x) = copy_into 32 (rev y)" for a b x y
  proof -
    note l = DeriveKeyMultiple_input_last [OF that(1) assms(1)] DeriveKeyMultiple_input_last [OF that(2) assms(2)]
    have "copy_into 32 (rev z) ! 0 = last z" if "z \<noteq> []" for z :: bytes
      using that by (simp add: copy_into_def nth_append rev_nth last_conv_nth)
    then show False
      using l assms(3) that(3) by metis
  qed
  then show ?thesis
    unfolding no_collision_def tail_hash_lib_def by auto
qed

theorem injected_hello_sticks_witness:
  "\<exists>(d :: dgram_handshake) sh' hi hr fin hr' d'. ProcessServerHello tail_hash_lib tag_cipher_lib sh' (dh_hs d) = (Inr (), hi) \<and>
     CreateServerFinished tail_hash_lib tag_cipher_lib hr = (Inr fin, hr') \<and>
     deliver_all tail_hash_lib toy_kem_lib tag_cipher_lib 3
       [\<lparr>hm_typ = MessageTypeServerHello, hm_body = sh'\<rparr>, \<lparr>hm_typ = MessageTypeServerFinished, hm_body = fin\<rparr>] d' = (Inr [], d') \<and>
     \<not> IsComplete (dh_hs d')"
proof (rule hellos [OF tail_hash_lib_ok toy_kem_lib_ok plain_config(1-4) plain_config(5) sample_config(6,6), where dg = True and L = tag_cipher_lib and now = 9], goal_cases)
  case (1 ch hi1 hr1 sh hr2 hi2 rpk sid)
  note h = this
  let ?H = tail_hash_lib and ?L = tag_cipher_lib
  have t: "transcript hi2 = ch @ sh"
    by (rule CreateClientHello_sends [OF h(1)], rule ProcessServerHello_accepts [OF h(5)]) (simp add: start_defs)
  have ne: "sh \<noteq> []"
    using h(7) by (auto simp: wf_frame_def HeaderSize_def)
  have tr: "transcript hr2 = ch @ sh"
    using h(10) t by (auto simp: hs_matched_def)
  let ?w = "last sh + 1"
  let ?hr = "hr2\<lparr>transcript := ch @ sh @ [?w]\<rparr>" and ?hi = "hi2\<lparr>transcript := ch @ sh @ [?w]\<rparr>"
  have m: "hs_matched ?hi ?hr"
    using h(10) wf_frame_length [OF h(6)] wf_frame_length [OF h(7)] by (auto simp: hs_matched_def)
  obtain fin hr' where fin: "CreateServerFinished ?H ?L ?hr = (Inr fin, hr')"
    by (rule finished_exchange [OF tail_hash_lib_ok tag_cipher_lib_ok m, where now = 0 and now' = 0])
      (simp_all add: h shook_def own_suite_usable)
  have crypto: "key_bound ?L fin hi2 ?hr" "no_collision ?H ServerFinishedLabel hi2 ?hr"
    using matched_crypto(1) [OF h(10), of ?L fin] tail_no_collision [of hi2 ?hr] t ne by (simp_all add: key_bound_def)
  let ?d = "(newDgramHandshake plain_client [])\<lparr>dh_hs := hi1, expecting := MessageTypeServerHello\<rparr>"
  have s: "dh_role ?d = RoleInitiator" "expecting ?d = MessageTypeServerHello" "earlyFinished ?d = None" "dh_hs ?d = hi1"
    by (simp_all add: newDgramHandshake_def plain_client_def blank_session_def)
  let ?ms = "[\<lparr>hm_typ = MessageTypeServerHello, hm_body = sh\<rparr>, \<lparr>hm_typ = MessageTypeServerFinished, hm_body = fin\<rparr>]"
  have fl: "hm_typ m = MessageTypeServerHello \<or> m = \<lparr>hm_typ = MessageTypeServerFinished, hm_body = fin\<rparr>" if "m \<in> set ?ms" for m
    using that by auto
  have ne': "transcript hi2 \<noteq> transcript ?hr"
    using t by simp
  have "\<exists>d'. onMessage ?H toy_kem_lib ?L 3 MessageTypeServerHello sh ?d = (Inr ([], False), d') \<and>
      deliver_all ?H toy_kem_lib ?L 3 ?ms d' = (Inr [], d') \<and> expecting d' = MessageTypeServerFinished \<and> \<not> IsComplete (dh_hs d')"
    by (rule injected_hello_sticks [OF tag_cipher_lib_ok s(1-3) _ fin ne' crypto fl]) (simp only: s(4) h(5))
  then obtain d' where d': "deliver_all ?H toy_kem_lib ?L 3 ?ms d' = (Inr [], d')" "\<not> IsComplete (dh_hs d')"
    by blast
  have p: "ProcessServerHello ?H ?L sh (dh_hs ?d) = (Inr (), hi2)"
    by (simp only: s(4) h(5))
  show ?case
    by (intro exI) (rule conjI [OF p] conjI [OF fin] conjI [OF d'])+
qed

end
