(* ===== verification/Dgram_Driver.thy ===== *)
theory Dgram_Driver
  imports Dgram_Recover
begin

text \<open>
  The retransmission driver of the datagram handshake.  Left alone, a running driver whose timer is armed
  resends its flight at most \<open>maxRetries\<close> times, backing off up to \<open>rtoMax\<close>, and then fails.  A responder's
  timer is armed only when the wrapped handshake changes state, so one that has rejected its first hello,
  or answered it with a HelloRetryRequest, waits on a timer that is never armed.
\<close>

section \<open>Timeouts\<close>

text \<open>\<open>armTimer(timer, nextWake().Sub(now()))\<close>: how long the loop waits.  The zero time lies in the past.\<close>

definition timer_wait :: "int \<Rightarrow> dgram_driver \<Rightarrow> int" where
  "timer_wait now d = (case nextWake d of None \<Rightarrow> 0 | Some t \<Rightarrow> max 0 (time_Sub t now))"

text \<open>The driver with nothing but timeouts, each handled when it is due.\<close>

definition fire :: "dgram_driver \<Rightarrow> hs_message list \<times> dgram_driver" where
  "fire d = (case nextWake d of None \<Rightarrow> ([], d) | Some t \<Rightarrow> onTimeout t d)"

fun fires :: "nat \<Rightarrow> dgram_driver \<Rightarrow> hs_message list list \<times> dgram_driver" where
  "fires 0 d = ([], d)"
| "fires (Suc n) d = (case fire d of (out, d) \<Rightarrow> case fires n d of (outs, d) \<Rightarrow> (out # outs, d))"

definition armed :: "int \<Rightarrow> dgram_driver \<Rightarrow> bool" where
  "armed t d \<longleftrightarrow> dd_status d = driverRunning \<and> retransmitAt d = Some t \<and> 0 \<le> rto d \<and> rto d \<le> rtoMax d"

lemma fire_resend:
  assumes "armed t d" "retries d < maxRetries d"
  obtains d' where "fire d = (cached (dd_fsm d), d')" "armed (t + rto d') d'" "retries d' = retries d + 1" "maxRetries d' = maxRetries d"
    "rtoMax d' = rtoMax d" "dd_fsm d' = dd_fsm d" "rto d' \<le> rtoMax d"
proof -
  let ?d = "d\<lparr>retries := retries d + 1, rto := min (rto d * 2) (rtoMax d), retransmitAt := Some (t + min (rto d * 2) (rtoMax d))\<rparr>"
  have "fire d = (cached (dd_fsm d), ?d)"
    using assms by (simp add: armed_def fire_def nextWake_def onTimeout_def lingering_def armRetransmit_def Let_def)
  then show ?thesis
    by (rule that) (use assms in \<open>simp_all add: armed_def\<close>)
qed

lemma fire_ceiling:
  assumes "armed t d" "retries d \<ge> maxRetries d"
  shows "fire d = ([], d\<lparr>retries := retries d + 1, dd_status := driverFailed, retransmitAt := None\<rparr>)"
  using assms by (simp add: armed_def fire_def nextWake_def onTimeout_def lingering_def Let_def)

lemma fires_give_up:
  assumes "armed t d" "retries d + int k = maxRetries d"
  shows "\<exists>d' t' d''. fires k d = (replicate k (cached (dd_fsm d)), d') \<and> armed t' d' \<and> t' \<le> t + int k * rtoMax d \<and>
    fire d' = ([], d'') \<and> dd_status d'' = driverFailed"
  using assms
proof (induction k arbitrary: t d)
  case 0
  then show ?case
    using fire_ceiling [of t d] by (intro exI [of _ d] exI [of _ t] exI conjI) auto
next
  case (Suc k)
  then have "retries d < maxRetries d"
    by simp
  then obtain d' where d': "fire d = (cached (dd_fsm d), d')" "armed (t + rto d') d'" "retries d' = retries d + 1" "maxRetries d' = maxRetries d"
    "rtoMax d' = rtoMax d" "dd_fsm d' = dd_fsm d" "rto d' \<le> rtoMax d"
    using fire_resend [OF Suc.prems(1)] by metis
  have "\<exists>e t' e'. fires k d' = (replicate k (cached (dd_fsm d')), e) \<and> armed t' e \<and> t' \<le> (t + rto d') + int k * rtoMax d' \<and>
      fire e = ([], e') \<and> dd_status e' = driverFailed"
    by (rule Suc.IH [OF d'(2)]) (use Suc.prems(2) d'(3,4) in simp)
  then obtain e t' e' where e: "fires k d' = (replicate k (cached (dd_fsm d)), e)" "armed t' e" "t' \<le> t + rto d' + int k * rtoMax d"
      "fire e = ([], e')" "dd_status e' = driverFailed"
    using d'(5,6) by auto
  have "t' \<le> t + int (Suc k) * rtoMax d"
    using e(3) d'(7) by (simp add: algebra_simps)
  then show ?case
    using d'(1) e by (intro exI [of _ e] exI [of _ t'] exI [of _ e']) simp
qed

text \<open>
  C23: An unanswered handshake ends.  A running driver whose timer is due at \<open>t\<close> and that hears nothing
  resends its cached flight exactly as often as its ceiling still allows, the last timeout is due no later
  than that many maximal back-offs after \<open>t\<close>, and that timeout makes the driver fail, which ends its loop.
\<close>

theorem dgram_driver_gives_up:
  assumes "dd_status d = driverRunning" "retransmitAt d = Some t" "0 \<le> rto d" "rto d \<le> rtoMax d" "retries d \<le> maxRetries d"
  shows "\<exists>d' d'' t'. fires (nat (maxRetries d - retries d)) d = (replicate (nat (maxRetries d - retries d)) (cached (dd_fsm d)), d') \<and>
    nextWake d' = Some t' \<and> t' \<le> t + (maxRetries d - retries d) * rtoMax d \<and>
    onTimeout t' d' = ([], d'') \<and> dd_status d'' = driverFailed \<and> driver_done d''"
proof -
  let ?k = "nat (maxRetries d - retries d)"
  have a: "armed t d" "retries d + int ?k = maxRetries d"
    using assms by (simp_all add: armed_def)
  from fires_give_up [OF this] obtain d' t' d'' where f: "fires ?k d = (replicate ?k (cached (dd_fsm d)), d')" "armed t' d'"
      "t' \<le> t + int ?k * rtoMax d" "fire d' = ([], d'')" "dd_status d'' = driverFailed"
    by blast
  have w: "nextWake d' = Some t'" "onTimeout t' d' = ([], d'')" "driver_done d''"
    using f(2,4,5) by (simp_all add: armed_def nextWake_def fire_def driver_done_def)
  have "t' \<le> t + (maxRetries d - retries d) * rtoMax d"
    using f(3) assms(5) by simp
  then show ?thesis
    using f(1,5) w by (intro exI [of _ d'] exI [of _ d''] exI [of _ t']) simp
qed

theorem dgram_driver_gives_up_witness:
  "\<exists>d d' d''. dd_status d = driverRunning \<and> retransmitAt d = Some initialRTO \<and> fires 8 d = (replicate 8 (cached (dd_fsm d)), d') \<and>
     onTimeout (the (nextWake d')) d' = ([], d'') \<and> driver_done d''"
proof -
  define d where "d = armRetransmit 0 (newDgramDriver sample_client [])"
  have d: "dd_status d = driverRunning" "retransmitAt d = Some initialRTO" "0 \<le> rto d" "rto d \<le> rtoMax d" "retries d \<le> maxRetries d"
      "maxRetries d - retries d = 8"
    by (simp_all add: d_def armRetransmit_def newDgramDriver_def newDgramDriverWithRTO_def initialRTO_def maxRTO_def constant_defs)
  obtain d' d'' t' where "fires 8 d = (replicate 8 (cached (dd_fsm d)), d')" "nextWake d' = Some t'" "onTimeout t' d' = ([], d'')" "driver_done d''"
    using dgram_driver_gives_up [OF d(1-5)] unfolding d(6) by auto
  then show ?thesis
    using d(1,2) by (intro exI [of _ d] exI [of _ d'] exI [of _ d'']) simp
qed

section \<open>A responder that is never armed\<close>

lemma leg_hs_state:
  "resumeLeg L now sid h = (r, h') \<Longrightarrow> hs_state h' = hs_state h"
  "staticAnswer H K ct h = (r, h') \<Longrightarrow> hs_state h' = hs_state h"
  "pskAnswer idn h = (r, h') \<Longrightarrow> hs_state h' = hs_state h"
proof -
  have "hs_state (snd (resumeLeg L now sid h)) = hs_state h" "hs_state (snd (staticAnswer H K ct h)) = hs_state h"
      "hs_state (snd (pskAnswer idn h)) = hs_state h"
    by (auto simp: resumeLeg_def in_session_def staticAnswer_def pskAnswer_def tryS_def hs_tape_def split: option.split prod.split sum.split failure.split list.split)
  then show "resumeLeg L now sid h = (r, h') \<Longrightarrow> hs_state h' = hs_state h" "staticAnswer H K ct h = (r, h') \<Longrightarrow> hs_state h' = hs_state h"
      "pskAnswer idn h = (r, h') \<Longrightarrow> hs_state h' = hs_state h"
    by (metis snd_conv)+
qed

lemma ProcessClientHello_hs_state: "hs_state (snd (ProcessClientHello H K L now d h)) = hs_state h"
proof -
  let ?P = "\<lambda>g. hs_state g = hs_state h"
  note run = rejectS_state [where P = ?P] bindS_state [where P = ?P] tryS_state [where P = ?P]
  have key: "?P (snd (case resolveKEMSuite H K (ch_KEMSuite msg) of
       Inl e \<Rightarrow> if hrrDone h then (Inl e, h)
         else (case selectMutualKEMSuite (ch_KEMSuites msg) of
                 None \<Rightarrow> (failR ErrUnsupportedKEMSuite, h)
               | Some mutual \<Rightarrow> (Inr (), h\<lparr>firstClientHello := Some d, hrrSuite := mutual, sendHRR := True\<rparr>))
     | Inr suite \<Rightarrow> k suite))" if "\<And>suite. ?P (snd (k suite))" for msg and k :: "kem_suite \<Rightarrow> unit res \<times> handshake"
    using that by (auto split: sum.splits option.splits)
  show ?thesis
    unfolding ProcessClientHello_def Let_def
  proof (intro run refl, goal_cases)
    case (1 msg)
    show ?case
      by (rule key, intro run; auto dest!: leg_hs_state)
  qed
qed

text \<open>
  C25: A responder can wait forever without a timer.  A fresh responder driver that receives a ClientHello the
  handshake rejects drops it and stays running with no timer armed: every timeout from then on does
  nothing, the loop's wait is zero at every moment, and the driver is not done, so that the loop that runs it
  spins.  The same holds when the hello is answered with a
  HelloRetryRequest.
\<close>

theorem dgram_responder_unarmed:
  assumes "dd_status d = driverRunning" "retransmitAt d = None" "dh_role (dd_fsm d) = RoleResponder" "expecting (dd_fsm d) = MessageTypeClientHello"
    "cached (dd_fsm d) = []"
    "ProcessClientHello H K L now body (dh_hs (dd_fsm d)) = (Inl (Err e), h) \<or>
     ProcessClientHello H K L now body (dh_hs (dd_fsm d)) = (Inr (), h) \<and> sendHRR h \<and> CreateHelloRetryRequest H h = (Inr hrr, h')"
  shows "\<exists>out d'. onInbound H K L now MessageTypeClientHello body d = (Inr out, d') \<and>
    (\<forall>t. onTimeout t d' = ([], d') \<and> timer_wait t d' = 0) \<and> \<not> driver_done d'"
proof -
  have st: "hs_state h = hs_state (dh_hs (dd_fsm d))"
    using assms(6) ProcessClientHello_hs_state [of H K L now body "dh_hs (dd_fsm d)"] by auto
  have st': "hs_state h' = hs_state h" if "CreateHelloRetryRequest H h = (Inr hrr, h')"
    using that by (auto simp: CreateHelloRetryRequest_def replaceFirstHelloWithHash_def result_simps)
  obtain out f where f: "onMessage H K L now MessageTypeClientHello body (dd_fsm d) = (Inr (out, False), f)"
      "hs_state (dh_hs f) = hs_state (dh_hs (dd_fsm d))"
    using assms(3-6) st st' by (auto simp: fsm_simps advance_clientHello_def Let_def)
  have "onInbound H K L now MessageTypeClientHello body d = (Inr out, d\<lparr>dd_fsm := f\<rparr>)"
    using assms(1) f by (simp add: onInbound_def lingering_def Let_def)
  then show ?thesis
    using assms(1,2) by (intro exI [of _ out] exI [of _ "d\<lparr>dd_fsm := f\<rparr>"])
      (simp add: onTimeout_def timer_wait_def nextWake_def driver_done_def lingering_def)
qed

theorem dgram_responder_unarmed_witness:
  "\<exists>out d'. onInbound zero_hash_lib toy_kem_lib tag_cipher_lib 0 MessageTypeClientHello [] (newDgramDriver sample_server []) = (Inr out, d') \<and>
     \<not> driver_done d' \<and> onTimeout 1000 d' = ([], d')"
proof -
  define d where "d = newDgramDriver sample_server []"
  have s: "dd_status d = driverRunning" "retransmitAt d = None" "dh_role (dd_fsm d) = RoleResponder" "expecting (dd_fsm d) = MessageTypeClientHello"
    "cached (dd_fsm d) = []"
    by (simp_all add: d_def newDgramDriver_def newDgramDriverWithRTO_def newDgramHandshake_def sample_server_def blank_session_def)
  have "ProcessClientHello zero_hash_lib toy_kem_lib tag_cipher_lib 0 [] (dh_hs (dd_fsm d)) = (Inl (Err ErrInvalidMessage), dh_hs (dd_fsm d))"
    by (simp add: d_def newDgramDriver_def newDgramDriverWithRTO_def newDgramHandshake_def NewHandshake_def ProcessClientHello_def
        DecodeClientHello_def hello_payloadEnd_def guardR_def failR_def constant_defs HeaderSize_def)
  then show ?thesis
    using dgram_responder_unarmed [OF s] unfolding d_def by blast
qed

end
