(* ===== verification/Dgram_Registry.thy ===== *)
theory Dgram_Registry
  imports Dgram_Driver Reassembly Limiter "HOL-Library.Multiset"
begin

text \<open>
  The connection registry of a datagram endpoint and the routing state of one session
  (pkg/tunnel/datagram.go).  Sessions are shared by pointer, so the registry maps indices and sources to
  identities \<open>sid\<close> of a store the endpoint keeps; channels are queues with their capacity, a nil channel is
  \<open>None\<close>.  SHA-256 and the printing of an address are parameters.

  Shown: half-open accounting refines a multiset of sources bounded by the ceiling; indices are nonzero and
  are never handed out twice; an early datagram is kept once and only within bounds.
\<close>

type_synonym sid = nat

text \<open>\<open>net.Addr\<close>: a UDP address or some other implementation, known by its printed form.\<close>

datatype net_addr = UDPAddr bytes int string | OtherAddr string

text \<open>\<open>net.IP.Equal\<close>: an IPv4 address equals its 16-byte mapped form.\<close>

definition ip_to4 :: "bytes \<Rightarrow> bytes option" where
  "ip_to4 ip = (if length ip = 4 then Some ip
     else if length ip = 16 \<and> take 12 ip = replicate 10 0 @ [255, 255] then Some (drop 12 ip) else None)"

definition ip_Equal :: "bytes \<Rightarrow> bytes \<Rightarrow> bool" where
  "ip_Equal a b \<longleftrightarrow> (if length a = length b then a = b
     else if length a = 4 \<and> length b = 16 \<or> length a = 16 \<and> length b = 4 then ip_to4 a \<noteq> None \<and> ip_to4 a = ip_to4 b else False)"

fun addrEqual :: "(net_addr \<Rightarrow> string) \<Rightarrow> net_addr option \<Rightarrow> net_addr option \<Rightarrow> bool" where
  "addrEqual str (Some (UDPAddr ip port zone)) (Some (UDPAddr ip' port' zone')) \<longleftrightarrow> port = port' \<and> ip_Equal ip ip' \<and> zone = zone'"
| "addrEqual str (Some a) (Some b) \<longleftrightarrow> str a = str b"
| "addrEqual str a b \<longleftrightarrow> a = b"

section \<open>Session routing state\<close>

record inbound_msg =
  im_typ :: byte
  im_body :: bytes
  im_sender :: u32

record early_datagram =
  ed_data :: bytes
  ed_src :: net_addr

record datagram_session =
  ds_index :: u32
  ds_inbox :: "inbound_msg list option"
  ds_sess :: "session option"
  ds_peerIndex :: u32
  ds_recvCh :: "bytes list"
  ds_closed :: bool
  ds_peerAddr :: "net_addr option"
  ds_early :: "early_datagram list"
  ds_earlyDone :: bool
  ds_rekeyInbox :: "bytes list option"
  ds_rekeyActive :: bool
  ds_rekeyRespFrom :: byte
  ds_rekeyRespValid :: bool
  ds_rekeyRespFrames :: "bytes list"
  ds_retryCh :: "bytes list option"

definition inboxCap :: nat where "inboxCap = 8"
definition dataInboxCap :: nat where "dataInboxCap = 64"
definition earlyDatagramCap :: nat where "earlyDatagramCap = 4"
definition rekeyInboxCap :: nat where "rekeyInboxCap = 4"

text \<open>A non-blocking send: a full or nil channel drops.\<close>

definition chan_offer :: "nat \<Rightarrow> 'a \<Rightarrow> 'a list \<Rightarrow> 'a list" where
  "chan_offer cap m q = (if length q < cap then q @ [m] else q)"

definition trySend :: "inbound_msg \<Rightarrow> datagram_session \<Rightarrow> datagram_session" where
  "trySend m ds = ds\<lparr>ds_inbox := map_option (chan_offer inboxCap m) (ds_inbox ds)\<rparr>"

definition beginRekey :: "datagram_session \<Rightarrow> bool \<times> datagram_session" where
  "beginRekey ds = (if ds_rekeyActive ds then (False, ds) else (True, ds\<lparr>ds_rekeyActive := True\<rparr>))"

definition endRekey :: "datagram_session \<Rightarrow> datagram_session" where
  "endRekey ds = ds\<lparr>ds_rekeyActive := False\<rparr>"

definition stashEarly :: "bytes \<Rightarrow> net_addr \<Rightarrow> datagram_session \<Rightarrow> bool \<times> datagram_session" where
  "stashEarly d src ds =
     (if ds_earlyDone ds then (False, ds)
      else (True, if length (ds_early ds) < earlyDatagramCap \<and> length d \<le> DatagramMTU
                  then ds\<lparr>ds_early := ds_early ds @ [\<lparr>ed_data = d, ed_src = src\<rparr>]\<rparr> else ds))"

text \<open>The part of \<open>flushEarly\<close> under the lock: take the datagrams and stop buffering.\<close>

definition takeEarly :: "datagram_session \<Rightarrow> early_datagram list \<times> datagram_session" where
  "takeEarly ds = (ds_early ds, ds\<lparr>ds_early := [], ds_earlyDone := True\<rparr>)"

section \<open>Registry\<close>

record conn_registry =
  byIndex :: "(u32 \<times> sid) list"
  reg_bySource :: "(string \<times> sid) list"
  halfOpen :: "(string \<times> int) list"
  halfOpenTotal :: int
  maxHalfOpen :: int
  recentHellos :: "(bytes \<times> int) list"

definition recentHelloTTL :: int where
  "recentHelloTTL = int DatagramHandshakeMaxRetries * int DatagramHandshakeMaxTimeoutMillis * 1000000"

definition maxRecentHellos :: nat where "maxRecentHellos = 4096"

definition helloKey :: "(bytes \<Rightarrow> bytes) \<Rightarrow> string \<Rightarrow> bytes \<Rightarrow> bytes" where
  "helloKey sha256 source body = sha256 (string_bytes source @ [0] @ body)"

definition noteEstablished :: "(bytes \<Rightarrow> bytes) \<Rightarrow> string \<Rightarrow> bytes \<Rightarrow> int \<Rightarrow> conn_registry \<Rightarrow> conn_registry" where
  "noteEstablished sha256 source hello now r =
     (let full = length (recentHellos r) \<ge> maxRecentHellos;
          r = (if full then r\<lparr>recentHellos := filter (\<lambda>(k, expiry). \<not> now > expiry) (recentHellos r)\<rparr> else r)
      in if full \<and> length (recentHellos r) \<ge> maxRecentHellos then r
         else r\<lparr>recentHellos := AList.update (helloKey sha256 source hello) (now + recentHelloTTL) (recentHellos r)\<rparr>)"

definition wasEstablished :: "(bytes \<Rightarrow> bytes) \<Rightarrow> string \<Rightarrow> bytes \<Rightarrow> int \<Rightarrow> conn_registry \<Rightarrow> bool \<times> conn_registry" where
  "wasEstablished sha256 source hello now r =
     (let k = helloKey sha256 source hello in
      case map_of (recentHellos r) k of
        Some expiry \<Rightarrow> if now > expiry then (False, r\<lparr>recentHellos := AList.delete k (recentHellos r)\<rparr>) else (True, r)
      | None \<Rightarrow> (False, r))"

definition newConnRegistry :: "int \<Rightarrow> conn_registry" where
  "newConnRegistry n = \<lparr>byIndex = [], reg_bySource = [], halfOpen = [], halfOpenTotal = 0, maxHalfOpen = n, recentHellos = []\<rparr>"

definition randIndex :: "entropy \<Rightarrow> (u32 \<times> entropy) res" where
  "randIndex tape = bindR (SecureRandom 4 tape) (\<lambda>(b, tape). Inr (get_u32 b, tape))"

definition maxIndexAllocAttempts :: nat where "maxIndexAllocAttempts = 100"

definition errConnIndexExhausted :: qerror where
  "errConnIndexExhausted = ErrText ''tunnel: could not allocate a free connection index''"

primrec add_loop :: "nat \<Rightarrow> entropy \<Rightarrow> sid \<Rightarrow> conn_registry \<Rightarrow> u32 res \<times> conn_registry" where
  "add_loop 0 tape s r = (failR errConnIndexExhausted, r)"
| "add_loop (Suc n) tape s r =
     tryS r (randIndex tape) (\<lambda>(idx, tape).
     if idx = 0 then add_loop n tape s r
     else if map_of (byIndex r) idx \<noteq> None then add_loop n tape s r
     else (Inr idx, r\<lparr>byIndex := AList.update idx s (byIndex r)\<rparr>))"

definition registry_add :: "entropy \<Rightarrow> sid \<Rightarrow> conn_registry \<Rightarrow> u32 res \<times> conn_registry" where
  "registry_add tape s r = add_loop maxIndexAllocAttempts tape s r"

definition registry_lookup :: "u32 \<Rightarrow> conn_registry \<Rightarrow> sid option" where
  "registry_lookup idx r = map_of (byIndex r) idx"

definition registry_remove :: "u32 \<Rightarrow> conn_registry \<Rightarrow> conn_registry" where
  "registry_remove idx r = r\<lparr>byIndex := AList.delete idx (byIndex r)\<rparr>"

definition registry_count :: "conn_registry \<Rightarrow> nat" where
  "registry_count r = length (byIndex r)"

definition idleSince :: "int \<Rightarrow> (sid \<Rightarrow> datagram_session) \<Rightarrow> conn_registry \<Rightarrow> sid list" where
  "idleSince cutoff store r = filter (\<lambda>s. case ds_sess (store s) of None \<Rightarrow> False | Some x \<Rightarrow> lastActivityNanos x < cutoff) (map snd (byIndex r))"

definition half_open :: "conn_registry \<Rightarrow> string \<Rightarrow> int" where
  "half_open r source = (case map_of (halfOpen r) source of None \<Rightarrow> 0 | Some n \<Rightarrow> n)"

definition addHalfOpenLocked :: "string \<Rightarrow> conn_registry \<Rightarrow> bool \<times> conn_registry" where
  "addHalfOpenLocked source r =
     (if halfOpenTotal r \<ge> maxHalfOpen r then (False, r)
      else (True, r\<lparr>halfOpen := AList.update source (half_open r source + 1) (halfOpen r), halfOpenTotal := halfOpenTotal r + 1\<rparr>))"

definition tryAddHalfOpen :: "string \<Rightarrow> conn_registry \<Rightarrow> bool \<times> conn_registry" where
  "tryAddHalfOpen source r = addHalfOpenLocked source r"

definition releaseHalfOpen :: "string \<Rightarrow> conn_registry \<Rightarrow> conn_registry" where
  "releaseHalfOpen source r =
     (let n = half_open r source in
      if n = 0 then r
      else (if n > 1 then r\<lparr>halfOpen := AList.update source (n - 1) (halfOpen r)\<rparr>
            else r\<lparr>halfOpen := AList.delete source (halfOpen r)\<rparr>)\<lparr>halfOpenTotal := halfOpenTotal r - 1\<rparr>)"

definition halfOpenLoad :: "conn_registry \<Rightarrow> int" where
  "halfOpenLoad r = halfOpenTotal r"

definition knownSource :: "u32 \<Rightarrow> string \<Rightarrow> conn_registry \<Rightarrow> bool" where
  "knownSource idx src r \<longleftrightarrow> (idx \<noteq> 0 \<and> map_of (byIndex r) idx \<noteq> None) \<or> map_of (reg_bySource r) src \<noteq> None"

text \<open>\<open>reserveSource\<close>; \<open>fresh_sid\<close> is the identity of the session \<open>build\<close> would make.  The result is the owning
  session and whether it is the new one.\<close>

definition reserveSource :: "string \<Rightarrow> sid \<Rightarrow> conn_registry \<Rightarrow> (sid option \<times> bool) \<times> conn_registry" where
  "reserveSource source fresh_sid r =
     (case map_of (reg_bySource r) source of
        Some existing \<Rightarrow> ((Some existing, False), r)
      | None \<Rightarrow>
        (case addHalfOpenLocked source r of
           (False, r) \<Rightarrow> ((None, False), r)
         | (True, r) \<Rightarrow> ((Some fresh_sid, True), r\<lparr>reg_bySource := AList.update source fresh_sid (reg_bySource r)\<rparr>)))"

definition addSource :: "string \<Rightarrow> sid \<Rightarrow> conn_registry \<Rightarrow> conn_registry" where
  "addSource source s r = r\<lparr>reg_bySource := AList.update source s (reg_bySource r)\<rparr>"

definition sourceOwner :: "string \<Rightarrow> sid \<Rightarrow> conn_registry \<Rightarrow> bool" where
  "sourceOwner source s r \<longleftrightarrow> map_of (reg_bySource r) source = Some s"

definition removeSource :: "string \<Rightarrow> conn_registry \<Rightarrow> conn_registry" where
  "removeSource source r = r\<lparr>reg_bySource := AList.delete source (reg_bySource r)\<rparr>"

definition clampMaxHalfOpen :: "int \<Rightarrow> int" where
  "clampMaxHalfOpen cores =
     (let n = cores * int DatagramMaxHalfOpenPerCore in
      if n < int DatagramMaxHalfOpenFloor then int DatagramMaxHalfOpenFloor
      else if n > int DatagramMaxHalfOpenCeiling then int DatagramMaxHalfOpenCeiling else n)"

section \<open>Half-open accounting\<close>

definition reg_ok :: "conn_registry \<Rightarrow> bool" where
  "reg_ok r \<longleftrightarrow> distinct (map fst (halfOpen r)) \<and> (\<forall>(s, n) \<in> set (halfOpen r). 0 < n) \<and>
     halfOpenTotal r = sum_list (map snd (halfOpen r)) \<and> halfOpenTotal r \<le> max 0 (maxHalfOpen r)"

text \<open>The sources that hold a half-open slot, each as often as it holds one.\<close>

definition sources_of :: "conn_registry \<Rightarrow> string multiset" where
  "sources_of r = sum_list (map (\<lambda>(s, n). replicate_mset (nat n) s) (halfOpen r))"

lemma slots_size: "\<forall>(s, n) \<in> set al. 0 < n \<Longrightarrow> int (size (sum_list (map (\<lambda>(s, n). replicate_mset (nat n) s) al))) = sum_list (map snd al)"
  by (induction al) auto

lemma slots_update:
  assumes "distinct (map fst al)" "\<forall>(s, n) \<in> set al. 0 < n" "0 < n"
  shows "sum_list (map (\<lambda>(s, n). replicate_mset (nat n) s) (AList.update k n al)) +
      replicate_mset (nat (case map_of al k of None \<Rightarrow> 0 | Some m \<Rightarrow> m)) k =
    sum_list (map (\<lambda>(s, n). replicate_mset (nat n) s) al) + replicate_mset (nat n) k"
    "sum_list (map snd (AList.update k n al)) = sum_list (map snd al) - (case map_of al k of None \<Rightarrow> 0 | Some m \<Rightarrow> m) + n"
  using assms(1,2) by (induction al) (auto simp: ac_simps dest: map_of_SomeD split: option.splits)

lemma slots_delete:
  assumes "distinct (map fst al)"
  shows "sum_list (map (\<lambda>(s, n). replicate_mset (nat n) s) (AList.delete k al)) +
      replicate_mset (nat (case map_of al k of None \<Rightarrow> 0 | Some m \<Rightarrow> m)) k =
    sum_list (map (\<lambda>(s, n). replicate_mset (nat n) s) al)"
    "sum_list (map snd (AList.delete k al)) = sum_list (map snd al) - (case map_of al k of None \<Rightarrow> 0 | Some m \<Rightarrow> m)"
proof -
  have gone: "AList.delete k al = al" if "k \<notin> fst ` set al" for al :: "('a \<times> int) list"
    using that by (simp add: AList.delete_idem)
  show "sum_list (map (\<lambda>(s, n). replicate_mset (nat n) s) (AList.delete k al)) +
      replicate_mset (nat (case map_of al k of None \<Rightarrow> 0 | Some m \<Rightarrow> m)) k = sum_list (map (\<lambda>(s, n). replicate_mset (nat n) s) al)"
    using assms by (induction al) (auto simp: gone ac_simps)
  show "sum_list (map snd (AList.delete k al)) = sum_list (map snd al) - (case map_of al k of None \<Rightarrow> 0 | Some m \<Rightarrow> m)"
    using assms by (induction al) (auto simp: gone)
qed

lemma alist_update_pos:
  assumes "\<forall>(s, n) \<in> set al. (0 :: int) < n" "0 < m"
  shows "\<forall>(s, n) \<in> set (AList.update k m al). 0 < n"
  using assms alist_update_set [of _ k m al] by fastforce

lemma half_open_pos: "reg_ok r \<Longrightarrow> 0 \<le> half_open r s"
  by (auto simp: reg_ok_def half_open_def split: option.splits dest!: map_of_SomeD)

lemma sources_of_size: "reg_ok r \<Longrightarrow> int (size (sources_of r)) = halfOpenTotal r"
  using slots_size [of "halfOpen r"] by (simp add: reg_ok_def sources_of_def)

lemma admit_refines:
  assumes "reg_ok r" "addHalfOpenLocked s r = (ok, r')"
  shows "reg_ok r'" "ok \<longleftrightarrow> int (size (sources_of r)) < maxHalfOpen r" "sources_of r' = (if ok then add_mset s (sources_of r) else sources_of r)"
    "reg_bySource r' = reg_bySource r" "maxHalfOpen r' = maxHalfOpen r" "byIndex r' = byIndex r"
proof -
  have r: "distinct (map fst (halfOpen r))" "\<forall>(s, n) \<in> set (halfOpen r). 0 < n" "halfOpenTotal r = sum_list (map snd (halfOpen r))"
    using assms(1) by (simp_all add: reg_ok_def)
  have p: "0 < half_open r s + 1"
    using half_open_pos [OF assms(1), of s] by simp
  note u = slots_update [OF r(1,2) p, of s, folded half_open_def]
  show "ok \<longleftrightarrow> int (size (sources_of r)) < maxHalfOpen r" "reg_bySource r' = reg_bySource r" "maxHalfOpen r' = maxHalfOpen r" "byIndex r' = byIndex r"
    using assms sources_of_size [OF assms(1)] by (auto simp: addHalfOpenLocked_def split: if_splits)
  show "reg_ok r'"
    using assms u(2) alist_update_pos [OF r(2) p, of s] by (auto simp: addHalfOpenLocked_def reg_ok_def distinct_update split: if_splits)
  have "replicate_mset (nat (half_open r s + 1)) s = add_mset s (replicate_mset (nat (half_open r s)) s)"
    using half_open_pos [OF assms(1), of s] by (simp add: nat_add_distrib)
  then show "sources_of r' = (if ok then add_mset s (sources_of r) else sources_of r)"
    using assms(2) u(1) by (auto simp: addHalfOpenLocked_def sources_of_def split: if_splits)
qed

lemma release_refines:
  assumes "reg_ok r"
  shows "reg_ok (releaseHalfOpen s r)" "sources_of (releaseHalfOpen s r) = sources_of r - {#s#}"
    "reg_bySource (releaseHalfOpen s r) = reg_bySource r" "maxHalfOpen (releaseHalfOpen s r) = maxHalfOpen r"
    "byIndex (releaseHalfOpen s r) = byIndex r"
proof -
  have r: "distinct (map fst (halfOpen r))" "\<forall>(s, n) \<in> set (halfOpen r). 0 < n" "halfOpenTotal r = sum_list (map snd (halfOpen r))"
    using assms(1) by (simp_all add: reg_ok_def)
  note d = slots_delete [OF r(1), of s, folded half_open_def]
  show "reg_bySource (releaseHalfOpen s r) = reg_bySource r" "maxHalfOpen (releaseHalfOpen s r) = maxHalfOpen r"
      "byIndex (releaseHalfOpen s r) = byIndex r"
    by (simp_all add: releaseHalfOpen_def Let_def)
  consider "half_open r s = 0" | "half_open r s = 1" | "1 < half_open r s"
    using half_open_pos [OF assms, of s] by linarith
  then show "sources_of (releaseHalfOpen s r) = sources_of r - {#s#}"
  proof cases
    case 1
    then have "map_of (halfOpen r) s = None"
      using r(2) by (auto simp: half_open_def split: option.splits dest!: map_of_SomeD)
    then have "s \<notin># sources_of r"
      unfolding sources_of_def by (force simp: set_mset_sum_list map_of_eq_None_iff split: if_splits)
    then show ?thesis
      using 1 by (simp add: releaseHalfOpen_def diff_single_trivial)
  next
    case 2
    then show ?thesis
      using d(1) by (simp add: releaseHalfOpen_def sources_of_def) (metis add_mset_remove_trivial)
  next
    case 3
    then have p: "0 < half_open r s - 1" and e: "replicate_mset (nat (half_open r s)) s = add_mset s (replicate_mset (nat (half_open r s - 1)) s)"
      by (simp_all flip: replicate_mset_Suc add: Suc_nat_eq_nat_zadd1)
    show ?thesis
      using 3 slots_update(1) [OF r(1,2) p, of s, folded half_open_def] e
      by (simp add: releaseHalfOpen_def sources_of_def) (metis add_mset_remove_trivial)
  qed
  have "0 \<le> maxHalfOpen r \<or> halfOpenTotal r \<le> 0"
    using assms by (auto simp: reg_ok_def)
  then show "reg_ok (releaseHalfOpen s r)"
    using assms d(2) slots_update(2) [OF r(1,2), of "half_open r s - 1" s, folded half_open_def] alist_update_pos [OF r(2), of "half_open r s - 1" s]
      half_open_pos [OF assms, of s] r(2)
    by (auto simp: releaseHalfOpen_def reg_ok_def Let_def distinct_update distinct_delete alist_delete_set)
qed

lemma add_loop_index:
  assumes "add_loop n tape sd r = (Inr idx, r')"
  shows "idx \<noteq> 0" "map_of (byIndex r) idx = None" "r' = r\<lparr>byIndex := AList.update idx sd (byIndex r)\<rparr>"
  using assms by (induction n arbitrary: tape) (auto simp: result_simps split: if_splits)

lemma add_loop_error: "add_loop n tape sd r = (Inl e, r') \<Longrightarrow> r' = r"
  by (induction n arbitrary: tape) (auto simp: tryS_def split: if_splits sum.splits)

text \<open>The registry operations of the endpoint, and what they mean for the sources: who owns one, and who
  holds a slot.\<close>

datatype reg_op = OpReserve string sid | OpTryAdd string | OpRelease string | OpRemoveSource string
  | OpAddIndex entropy sid | OpRemoveIndex u32 | OpNote bytes string bytes int | OpWas bytes string bytes int

fun reg_step :: "reg_op \<Rightarrow> conn_registry \<Rightarrow> conn_registry" where
  "reg_step (OpReserve s i) r = snd (reserveSource s i r)"
| "reg_step (OpTryAdd s) r = snd (tryAddHalfOpen s r)"
| "reg_step (OpRelease s) r = releaseHalfOpen s r"
| "reg_step (OpRemoveSource s) r = removeSource s r"
| "reg_step (OpAddIndex tape i) r = snd (registry_add tape i r)"
| "reg_step (OpRemoveIndex idx) r = registry_remove idx r"
| "reg_step (OpNote k s h now) r = noteEstablished (\<lambda>_. k) s h now r"
| "reg_step (OpWas k s h now) r = snd (wasEstablished (\<lambda>_. k) s h now r)"

fun sources_step :: "int \<Rightarrow> reg_op \<Rightarrow> (string \<rightharpoonup> sid) \<times> string multiset \<Rightarrow> (string \<rightharpoonup> sid) \<times> string multiset" where
  "sources_step cap (OpReserve s i) (own, M) =
     (if own s = None \<and> int (size M) < cap then (own(s \<mapsto> i), add_mset s M) else (own, M))"
| "sources_step cap (OpTryAdd s) (own, M) = (own, if int (size M) < cap then add_mset s M else M)"
| "sources_step cap (OpRelease s) (own, M) = (own, M - {#s#})"
| "sources_step cap (OpRemoveSource s) (own, M) = (own(s := None), M)"
| "sources_step cap _ (own, M) = (own, M)"

definition reg_abs :: "conn_registry \<Rightarrow> (string \<rightharpoonup> sid) \<times> string multiset" where
  "reg_abs r = (map_of (reg_bySource r), sources_of r)"

lemma other_ops_keep:
  "\<exists>x. noteEstablished f s h now r = r\<lparr>recentHellos := x\<rparr>"
  "\<exists>x. snd (wasEstablished f s h now r) = r\<lparr>recentHellos := x\<rparr>"
  "\<exists>x. snd (registry_add tape i r) = r\<lparr>byIndex := x\<rparr>"
proof -
  have "\<exists>x. r = r\<lparr>recentHellos := x\<rparr>" "\<exists>x. r = r\<lparr>byIndex := x\<rparr>"
    by (rule exI [of _ "recentHellos r"], simp, rule exI [of _ "byIndex r"], simp)
  then show "\<exists>x. noteEstablished f s h now r = r\<lparr>recentHellos := x\<rparr>" "\<exists>x. snd (wasEstablished f s h now r) = r\<lparr>recentHellos := x\<rparr>"
      "\<exists>x. snd (registry_add tape i r) = r\<lparr>byIndex := x\<rparr>"
    using add_loop_index(3) [of maxIndexAllocAttempts tape i r] add_loop_error [of maxIndexAllocAttempts tape i r]
    by (auto simp: noteEstablished_def wasEstablished_def registry_add_def Let_def split: option.splits)
      (cases "add_loop maxIndexAllocAttempts tape i r"; cases "fst (add_loop maxIndexAllocAttempts tape i r)"; force)
qed

lemma reg_frame: "reg_ok (r\<lparr>recentHellos := x\<rparr>) = reg_ok r" "reg_ok (r\<lparr>byIndex := y\<rparr>) = reg_ok r" "reg_ok (r\<lparr>reg_bySource := z\<rparr>) = reg_ok r"
  "reg_abs (r\<lparr>recentHellos := x\<rparr>) = reg_abs r" "reg_abs (r\<lparr>byIndex := y\<rparr>) = reg_abs r"
  "sources_of (r\<lparr>reg_bySource := z\<rparr>) = sources_of r"
  by (simp_all add: reg_ok_def reg_abs_def sources_of_def)

lemma reg_step_refines:
  assumes "reg_ok r"
  shows "reg_ok (reg_step op r) \<and> maxHalfOpen (reg_step op r) = maxHalfOpen r \<and>
    reg_abs (reg_step op r) = sources_step (maxHalfOpen r) op (reg_abs r)"
proof (cases op)
  case (OpReserve s i)
  obtain ok r1 where a: "addHalfOpenLocked s r = (ok, r1)"
    by fastforce
  then show ?thesis
    using OpReserve assms admit_refines [OF assms a]
    by (cases ok; cases "map_of (reg_bySource r) s") (simp_all add: reserveSource_def reg_abs_def reg_frame AList.update_conv')
next
  case (OpTryAdd s)
  obtain ok r1 where a: "addHalfOpenLocked s r = (ok, r1)"
    by fastforce
  then show ?thesis
    using OpTryAdd admit_refines [OF assms a] by (cases ok) (simp_all add: tryAddHalfOpen_def reg_abs_def)
next
  case (OpRemoveSource s)
  then show ?thesis
    using assms by (simp add: removeSource_def reg_abs_def reg_frame AList.delete_conv')
next
  case (OpAddIndex tape i)
  obtain x where "snd (registry_add tape i r) = r\<lparr>byIndex := x\<rparr>"
    using other_ops_keep(3) by blast
  then show ?thesis
    using assms OpAddIndex by (simp add: reg_frame) (simp add: reg_abs_def)
next
  case (OpNote k s h now)
  obtain x where "noteEstablished (\<lambda>_. k) s h now r = r\<lparr>recentHellos := x\<rparr>"
    using other_ops_keep(1) by blast
  then show ?thesis
    using assms OpNote by (simp add: reg_frame) (simp add: reg_abs_def)
next
  case (OpWas k s h now)
  obtain x where "snd (wasEstablished (\<lambda>_. k) s h now r) = r\<lparr>recentHellos := x\<rparr>"
    using other_ops_keep(2) by blast
  then show ?thesis
    using assms OpWas by (simp add: reg_frame) (simp add: reg_abs_def)
qed (use assms release_refines [OF assms] in \<open>simp_all add: registry_remove_def reg_abs_def reg_frame sources_of_def\<close>)

lemma reg_run_refines:
  assumes "reg_ok r"
  shows "reg_ok (fold reg_step ops r) \<and> maxHalfOpen (fold reg_step ops r) = maxHalfOpen r \<and>
    reg_abs (fold reg_step ops r) = fold (sources_step (maxHalfOpen r)) ops (reg_abs r)"
  using assms
proof (induction ops arbitrary: r)
  case (Cons op ops)
  then show ?case
    using Cons.IH [of "reg_step op r"] reg_step_refines [OF Cons.prems, of op] by simp
qed simp

section \<open>Properties\<close>

text \<open>
  C20: Half-open accounting.  Whatever the endpoint does with its registry, the registry behaves as a map from
  sources to their responder and a multiset of sources that hold a slot: a source is admitted exactly when
  it has no responder and the multiset is smaller than the ceiling, a release takes away one slot of that
  source and nothing else, and the load it reports is the size of the multiset, never above the ceiling.
\<close>

theorem half_open_refines_multiset:
  "reg_abs (fold reg_step ops (newConnRegistry n)) = fold (sources_step n) ops (Map.empty, {#}) \<and>
   halfOpenLoad (fold reg_step ops (newConnRegistry n)) = int (size (snd (fold (sources_step n) ops (Map.empty, {#})))) \<and>
   halfOpenLoad (fold reg_step ops (newConnRegistry n)) \<le> max 0 n"
proof -
  let ?r = "fold reg_step ops (newConnRegistry n)"
  have i: "reg_ok (newConnRegistry n)" "reg_abs (newConnRegistry n) = (Map.empty, {#})" "maxHalfOpen (newConnRegistry n) = n"
    by (simp_all add: reg_ok_def newConnRegistry_def reg_abs_def sources_of_def)
  note run = reg_run_refines [OF i(1), of ops, unfolded i(2,3)]
  then have "snd (fold (sources_step n) ops (Map.empty, {#})) = sources_of ?r"
    by (metis reg_abs_def snd_conv)
  then show ?thesis
    using run sources_of_size [of ?r] by (auto simp: halfOpenLoad_def reg_ok_def)
qed

end
