(* ===== verification/Dgram_Endpoint.thy ===== *)
theory Dgram_Endpoint
  imports Dgram_Registry
begin

text \<open>
  The datagram endpoint: construction and routing (pkg/tunnel/datagram.go), the loop that runs one handshake
  and the dial and accept paths around it (dgram_handshake_wire.go), the application handle (dgram_conn.go) and
  the transport half of rekeying (dgram_rekey.go).  The endpoint state holds the sessions by identity, the
  datagrams written so far and the entropy still to be drawn.  A goroutine that runs a handshake or a rekey
  is a record, and one iteration of its select loop a step with the event that was ready.  Each step is
  atomic; time is an argument.
\<close>

section \<open>State\<close>

text \<open>The code the endpoint calls outside the library.\<close>

record dgram_env =
  ev_hash :: hash_lib
  ev_kem :: kem_lib
  ev_cipher :: cipher_lib
  ev_hmac :: hmac
  ev_sha256 :: "bytes \<Rightarrow> bytes"
  ev_addr :: "net_addr \<Rightarrow> string"

record dgram_endpoint =
  ep_registry :: conn_registry
  ep_store :: "datagram_session list"
  ep_reasm :: reassembler
  ep_acceptCh :: "sid list"
  ep_cookie :: bytes
  ep_highWater :: int
  ep_rtoInitial :: int
  ep_maxRetries :: int
  ep_rtoMax :: int
  ep_idleTimeout :: int
  ep_padHandshake :: bool
  ep_receiveSockets :: int
  ep_maxHalfOpen :: int
  ep_offload :: bool
  ep_staticIdentity :: "key_pair option"
  ep_pinnedServerKey :: "public_key option"
  ep_requireStaticAuth :: bool
  ep_psk :: "bytes option"
  ep_pskIdentity :: "bytes option"
  ep_pskLookup :: "(bytes \<Rightarrow> bytes option) option"
  ep_requirePSK :: bool
  ep_done :: bool
  ep_rand :: "entropy list"
  ep_sent :: "(net_addr option \<times> bytes) list"
  ep_sockErr :: "qerror option"

definition errHandshakeFailed :: qerror where "errHandshakeFailed = ErrText ''tunnel: datagram handshake failed''"
definition errEndpointClosed :: qerror where "errEndpointClosed = ErrText ''tunnel: datagram endpoint closed''"

text \<open>Entropy, the store, and the socket: \<open>writeAll\<close> ignores errors, \<open>WriteTo\<close> reports them.\<close>

definition ep_draw :: "nat \<Rightarrow> dgram_endpoint \<Rightarrow> entropy list \<times> dgram_endpoint" where
  "ep_draw n e = (take n (ep_rand e), e\<lparr>ep_rand := drop n (ep_rand e)\<rparr>)"

definition first_tape :: "entropy list \<Rightarrow> entropy" where
  "first_tape ts = (case ts of [] \<Rightarrow> [] | t # _ \<Rightarrow> t)"

definition on_ds :: "sid \<Rightarrow> (datagram_session \<Rightarrow> datagram_session) \<Rightarrow> dgram_endpoint \<Rightarrow> dgram_endpoint" where
  "on_ds s f e = e\<lparr>ep_store := (ep_store e)[s := f (ep_store e ! s)]\<rparr>"

definition on_registry :: "(conn_registry \<Rightarrow> conn_registry) \<Rightarrow> dgram_endpoint \<Rightarrow> dgram_endpoint" where
  "on_registry f e = e\<lparr>ep_registry := f (ep_registry e)\<rparr>"

definition ep_writeAll :: "bytes list \<Rightarrow> net_addr option \<Rightarrow> dgram_endpoint \<Rightarrow> dgram_endpoint" where
  "ep_writeAll frames dst e = (if ep_sockErr e = None then e\<lparr>ep_sent := ep_sent e @ map (Pair dst) frames\<rparr> else e)"

definition ep_WriteTo :: "bytes \<Rightarrow> net_addr option \<Rightarrow> dgram_endpoint \<Rightarrow> unit res \<times> dgram_endpoint" where
  "ep_WriteTo frame dst e =
     (case ep_sockErr e of Some err \<Rightarrow> (failR err, e) | None \<Rightarrow> (Inr (), e\<lparr>ep_sent := ep_sent e @ [(dst, frame)]\<rparr>))"

section \<open>Construction\<close>

datatype endpoint_option =
    WithHandshakePadding | WithReceiveSockets int | WithMaxHalfOpen int | WithDatagramOffload
  | WithStaticIdentity "key_pair option" | WithRequireStaticAuth | WithPSK "bytes option" "bytes option"
  | WithPSKLookup "(bytes \<Rightarrow> bytes option) option" | WithRequirePSK | WithPinnedServerKey "public_key option"

fun apply_option :: "endpoint_option \<Rightarrow> dgram_endpoint \<Rightarrow> dgram_endpoint" where
  "apply_option WithHandshakePadding e = e\<lparr>ep_padHandshake := True\<rparr>"
| "apply_option (WithReceiveSockets n) e = e\<lparr>ep_receiveSockets := n\<rparr>"
| "apply_option (WithMaxHalfOpen n) e = e\<lparr>ep_maxHalfOpen := n\<rparr>"
| "apply_option WithDatagramOffload e = e\<lparr>ep_offload := True\<rparr>"
| "apply_option (WithStaticIdentity kp) e = e\<lparr>ep_staticIdentity := kp\<rparr>"
| "apply_option WithRequireStaticAuth e = e\<lparr>ep_requireStaticAuth := True\<rparr>"
| "apply_option (WithPSK identity key) e = e\<lparr>ep_psk := key, ep_pskIdentity := identity\<rparr>"
| "apply_option (WithPSKLookup f) e = e\<lparr>ep_pskLookup := f\<rparr>"
| "apply_option WithRequirePSK e = e\<lparr>ep_requirePSK := True\<rparr>"
| "apply_option (WithPinnedServerKey pk) e = e\<lparr>ep_pinnedServerKey := pk\<rparr>"

definition validateRequirePSK :: "bool \<Rightarrow> bytes option \<Rightarrow> (bytes \<Rightarrow> bytes option) option \<Rightarrow> unit res" where
  "validateRequirePSK require psk lookup = guardR (require \<and> psk = None \<and> lookup = None) ErrPSKMisconfigured (Inr ())"

definition validatePSK :: "bytes option \<Rightarrow> bytes option \<Rightarrow> unit res" where
  "validatePSK psk idn =
     (if psk = None \<and> idn = None then Inr ()
      else guardR (length (nil_bytes psk) \<noteq> PSKSize \<or> length (nil_bytes idn) = 0 \<or> length (nil_bytes idn) > MaxPSKIdentitySize)
             ErrInvalidPSK (Inr ()))"

definition blank_endpoint :: "bytes \<Rightarrow> entropy list \<Rightarrow> dgram_endpoint" where
  "blank_endpoint cookie rand = \<lparr>ep_registry = newConnRegistry 0, ep_store = [], ep_reasm = NewReassembler 0 0 0, ep_acceptCh = [],
     ep_cookie = cookie, ep_highWater = 0, ep_rtoInitial = initialRTO, ep_maxRetries = 0, ep_rtoMax = maxRTO,
     ep_idleTimeout = int DatagramIdleTimeoutSeconds * 1000000000, ep_padHandshake = False, ep_receiveSockets = 0, ep_maxHalfOpen = 0,
     ep_offload = False, ep_staticIdentity = None, ep_pinnedServerKey = None, ep_requireStaticAuth = False, ep_psk = None,
     ep_pskIdentity = None, ep_pskLookup = None, ep_requirePSK = False, ep_done = False, ep_rand = rand, ep_sent = [], ep_sockErr = None\<rparr>"

definition newEndpoint :: "int \<Rightarrow> entropy list \<Rightarrow> endpoint_option list \<Rightarrow> dgram_endpoint res" where
  "newEndpoint cores rand opts =
     bindR (newCookieSigner (first_tape rand)) (\<lambda>cookie.
     let e = fold apply_option opts (blank_endpoint cookie (drop 1 rand)) in
     guardR (ep_requireStaticAuth e \<and> ep_staticIdentity e = None) ErrStaticAuthMisconfigured (
     bindR (validatePSK (ep_psk e) (ep_pskIdentity e)) (\<lambda>_.
     bindR (validateRequirePSK (ep_requirePSK e) (ep_psk e) (ep_pskLookup e)) (\<lambda>_.
     let e = (if ep_maxHalfOpen e < 1 then e\<lparr>ep_maxHalfOpen := clampMaxHalfOpen cores\<rparr> else e) in
     Inr (e\<lparr>ep_highWater := ep_maxHalfOpen e div 2, ep_registry := newConnRegistry (ep_maxHalfOpen e),
            ep_reasm := (ep_reasm e)\<lparr>maxSources := nat (ep_maxHalfOpen e)\<rparr>\<rparr>)))))"

text \<open>The socket count of \<open>ListenDatagram\<close>.\<close>

definition listen_sockets :: "int \<Rightarrow> endpoint_option list \<Rightarrow> int" where
  "listen_sockets cores opts =
     (let n = ep_receiveSockets (fold apply_option opts (blank_endpoint [] []));
          n = (if n \<le> 0 then cores else n);
          n = (if n > int DatagramMaxReceiveSockets then int DatagramMaxReceiveSockets else n)
      in if n < 1 then 1 else n)"

definition underCookiePressure :: "dgram_endpoint \<Rightarrow> bool" where
  "underCookiePressure e \<longleftrightarrow> int (sourceCount (ep_reasm e)) \<ge> ep_highWater e \<or> halfOpenLoad (ep_registry e) \<ge> ep_highWater e"

definition endpoint_Close :: "dgram_endpoint \<Rightarrow> dgram_endpoint" where
  "endpoint_Close e = e\<lparr>ep_done := True\<rparr>"

definition teardown :: "sid \<Rightarrow> dgram_endpoint \<Rightarrow> dgram_endpoint" where
  "teardown s e = on_ds s (\<lambda>ds. ds\<lparr>ds_closed := True\<rparr>) (on_registry (registry_remove (ds_index (ep_store e ! s))) e)"

text \<open>One tick of \<open>reapIdle\<close>.\<close>

definition reapIdle :: "int \<Rightarrow> dgram_endpoint \<Rightarrow> dgram_endpoint" where
  "reapIdle now e =
     fold (\<lambda>s e. teardown s (on_ds s (\<lambda>ds. ds\<lparr>ds_sess := map_option session_Close (ds_sess ds)\<rparr>) e))
       (idleSince (now - ep_idleTimeout e) (\<lambda>s. ep_store e ! s) (ep_registry e)) e"

section \<open>The handshake loop\<close>

record handshake_loop =
  hl_ds :: sid
  hl_src :: net_addr
  hl_driver :: dgram_driver
  hl_localIndex :: u32
  hl_peerIndex :: u32
  hl_seq :: u64
  hl_cookie :: bytes
  hl_retriesHonored :: nat
  hl_established :: "bytes option"
  hl_surfaced :: bool

definition maxHonoredRetries :: nat where "maxHonoredRetries = 3"

definition retryCeiling :: "dgram_endpoint \<Rightarrow> int" where
  "retryCeiling e = (if ep_maxRetries e > 0 then ep_maxRetries e else int DatagramHandshakeMaxRetries)"

definition newDriver :: "session \<Rightarrow> entropy list \<Rightarrow> dgram_endpoint \<Rightarrow> dgram_driver" where
  "newDriver s rand e =
     (let d = newDgramDriverWithRTO s rand (ep_rtoInitial e) (ep_rtoMax e)
      in if ep_maxRetries e > 0 then d\<lparr>maxRetries := ep_maxRetries e\<rparr> else d)"

fun loop_send :: "hs_message list \<Rightarrow> handshake_loop \<times> dgram_endpoint \<Rightarrow> handshake_loop \<times> dgram_endpoint" where
  "loop_send [] st = st"
| "loop_send (m # ms) (l, e) =
     (let b = \<lparr>dh_Type = DatagramFrameHandshake, dh_Epoch = 0, dh_RecvIndex = hl_peerIndex l, dh_Seq = hl_seq l,
           hh_SenderIndex = hl_localIndex l, hh_MsgType = hm_typ m, hh_FragOffset = 0, hh_FragLength = 0, hh_TotalLength = 0,
           hh_Cookie = (if hm_typ m = MessageTypeClientHello then hl_cookie l else [])\<rparr>
      in case fragmentHandshake b (hm_body m) (ep_padHandshake e) of
           Inl _ \<Rightarrow> (l, e)
         | Inr frames \<Rightarrow> loop_send ms (l\<lparr>hl_seq := hl_seq l + of_nat (length frames)\<rparr>, ep_writeAll frames (Some (hl_src l)) e))"

definition onRetry :: "bytes \<Rightarrow> handshake_loop \<times> dgram_endpoint \<Rightarrow> handshake_loop \<times> dgram_endpoint" where
  "onRetry cookie = (\<lambda>(l, e).
     if hl_retriesHonored l \<ge> maxHonoredRetries then (l, e)
     else (let fl = cachedFlight (hl_driver l) in
       if fl = [] \<or> hm_typ (fl ! 0) \<noteq> MessageTypeClientHello then (l, e)
       else loop_send fl (l\<lparr>hl_retriesHonored := hl_retriesHonored l + 1, hl_cookie := cookie\<rparr>, e)))"

section \<open>Bootstrapping a responder\<close>

definition responder_session :: "net_addr \<Rightarrow> datagram_session" where
  "responder_session src = \<lparr>ds_index = 0, ds_inbox = Some [], ds_sess = None, ds_peerIndex = 0, ds_recvCh = [], ds_closed = False,
     ds_peerAddr = Some src, ds_early = [], ds_earlyDone = False, ds_rekeyInbox = None, ds_rekeyActive = False, ds_rekeyRespFrom = 0,
     ds_rekeyRespValid = False, ds_rekeyRespFrames = [], ds_retryCh = None\<rparr>"

definition unreserve :: "string \<Rightarrow> dgram_endpoint \<Rightarrow> dgram_endpoint" where
  "unreserve source e = on_registry (\<lambda>r. releaseHalfOpen source (removeSource source r)) e"

text \<open>\<open>startResponder\<close> returns the loop the new goroutine runs, if the setup succeeds.  The handshake draws
  from the next eight tapes.\<close>

definition startResponder :: "dgram_env \<Rightarrow> int \<Rightarrow> net_addr \<Rightarrow> sid \<Rightarrow> inbound_msg \<Rightarrow> dgram_endpoint \<Rightarrow> handshake_loop option \<times> dgram_endpoint" where
  "startResponder EV now src s m e =
     (case ep_draw 1 e of (ts, e) \<Rightarrow>
      case NewSession (ev_hash EV) (ev_kem EV) (first_tape ts) now RoleResponder of
        Inl _ \<Rightarrow> (None, unreserve (ev_addr EV src) e)
      | Inr session \<Rightarrow>
        let session = session\<lparr>StaticKeyPair := ep_staticIdentity e, RequireStaticAuth := ep_requireStaticAuth e, sess_PSK := ep_psk e,
              PSKIdentity := ep_pskIdentity e, PSKLookup := ep_pskLookup e, RequirePSK := ep_requirePSK e\<rparr>
        in case ep_draw 1 e of (ts, e) \<Rightarrow>
           (case registry_add (first_tape ts) s (ep_registry e) of
              (Inl _, r) \<Rightarrow> (None, unreserve (ev_addr EV src) (e\<lparr>ep_registry := r\<rparr>))
            | (Inr idx, r) \<Rightarrow>
              let e = on_ds s (\<lambda>ds. trySend m (ds\<lparr>ds_index := idx\<rparr>)) (e\<lparr>ep_registry := r\<rparr>)
              in case ep_draw 8 e of (ts, e) \<Rightarrow>
                (Some \<lparr>hl_ds = s, hl_src = src, hl_driver = newDriver session ts e, hl_localIndex = idx, hl_peerIndex = im_sender m,
                   hl_seq = 0, hl_cookie = [], hl_retriesHonored = 0, hl_established = Some (im_body m), hl_surfaced = False\<rparr>, e)))"

text \<open>\<open>deliverHandshake\<close>; the fuel bounds the re-dispatch, which happens only if the owner of the source changes
  between the reservation and the send.\<close>

fun deliverHandshake :: "dgram_env \<Rightarrow> nat \<Rightarrow> int \<Rightarrow> net_addr \<Rightarrow> datagram_handshake_header \<Rightarrow> bytes \<Rightarrow> dgram_endpoint \<Rightarrow>
    handshake_loop option \<times> dgram_endpoint" where
  "deliverHandshake EV 0 now src h msg e = (None, e)"
| "deliverHandshake EV (Suc n) now src h msg e =
     (let m = \<lparr>im_typ = hh_MsgType h, im_body = msg, im_sender = hh_SenderIndex h\<rparr>; source = ev_addr EV src in
      if dh_RecvIndex h \<noteq> 0 then
        (None, case registry_lookup (dh_RecvIndex h) (ep_registry e) of None \<Rightarrow> e | Some s \<Rightarrow> on_ds s (trySend m) e)
      else if hh_MsgType h \<noteq> MessageTypeClientHello then (None, e)
      else (case wasEstablished (ev_sha256 EV) source msg now (ep_registry e) of (stale, r) \<Rightarrow>
        let e = e\<lparr>ep_registry := r\<rparr> in
        if stale then (None, e)
        else (case reserveSource source (length (ep_store e)) (ep_registry e) of ((owner, won), r) \<Rightarrow>
          let e = e\<lparr>ep_registry := r\<rparr> in
          if won then startResponder EV now src (length (ep_store e)) m (e\<lparr>ep_store := ep_store e @ [responder_session src]\<rparr>)
          else (case owner of None \<Rightarrow> (None, e)
                | Some s \<Rightarrow> let e = on_ds s (trySend m) e in
                    if sourceOwner source s (ep_registry e) then (None, e) else deliverHandshake EV n now src h msg e))))"

declare deliverHandshake.simps [simp del]

section \<open>Rekey on the receive path\<close>

definition handleRekeyInit :: "dgram_env \<Rightarrow> int \<Rightarrow> sid \<Rightarrow> byte \<Rightarrow> bytes \<Rightarrow> dgram_endpoint \<Rightarrow> unit res \<times> dgram_endpoint" where
  "handleRekeyInit EV now s epoch body e =
     (let ds = ep_store e ! s in
      if ds_rekeyRespValid ds \<and> ds_rekeyRespFrom ds = epoch then (Inr (), ep_writeAll (ds_rekeyRespFrames ds) (ds_peerAddr ds) e)
      else (case ds_sess ds of None \<Rightarrow> (Inl Panic, e)
        | Some sess \<Rightarrow>
          tryS e (datagramSendEpoch sess) (\<lambda>cur.
          if epoch \<noteq> cur then (Inr (), e)
          else (case ep_draw 1 e of (ts, e) \<Rightarrow>
            case respondToDatagramRekey (ev_hash EV) (ev_cipher EV) now (first_tape ts) epoch body sess of (r, sess) \<Rightarrow>
            let e = on_ds s (\<lambda>ds. ds\<lparr>ds_sess := Some sess\<rparr>) e in
            case r of Inl Panic \<Rightarrow> (Inl Panic, e) | Inl (Err _) \<Rightarrow> (Inr (), e)
            | Inr (respBody, respEpoch) \<Rightarrow>
              (case fragmentRekey (ds_peerIndex ds) (ds_index ds) respEpoch MessageTypeDatagramRekeyResponse respBody (ep_padHandshake e) of
                 Inl _ \<Rightarrow> (Inr (), e)
               | Inr frames \<Rightarrow>
                 (Inr (), ep_writeAll frames (ds_peerAddr ds)
                   (on_ds s (\<lambda>ds. ds\<lparr>ds_rekeyRespFrom := epoch, ds_rekeyRespFrames := frames, ds_rekeyRespValid := True\<rparr>) e)))))))"

definition endpoint_handleRekey :: "dgram_env \<Rightarrow> int \<Rightarrow> datagram_handshake_header \<Rightarrow> bytes \<Rightarrow> dgram_endpoint \<Rightarrow> unit res \<times> dgram_endpoint" where
  "endpoint_handleRekey EV now h body e =
     (case registry_lookup (dh_RecvIndex h) (ep_registry e) of None \<Rightarrow> (Inr (), e)
      | Some s \<Rightarrow>
        if ds_sess (ep_store e ! s) = None then (Inr (), e)
        else if hh_MsgType h = MessageTypeDatagramRekeyInit then handleRekeyInit EV now s (dh_Epoch h) body e
        else if hh_MsgType h = MessageTypeDatagramRekeyResponse then
          (Inr (), on_ds s (\<lambda>ds. ds\<lparr>ds_rekeyInbox := map_option (chan_offer rekeyInboxCap body) (ds_rekeyInbox ds)\<rparr>) e)
        else (Inr (), e))"

section \<open>Routing\<close>

definition cookieGateRejects :: "dgram_env \<Rightarrow> int \<Rightarrow> net_addr \<Rightarrow> datagram_handshake_header \<Rightarrow> bytes \<Rightarrow> dgram_endpoint \<Rightarrow> bool \<times> dgram_endpoint" where
  "cookieGateRejects EV now src h d e =
     (let source = ev_addr EV src in
      if \<not> underCookiePressure e then (False, e)
      else if knownSource (dh_RecvIndex h) source (ep_registry e) then (False, e)
      else if cookie_verify (ev_hmac EV) (ep_cookie e) now (string_bytes source) (hh_Cookie h) then (False, e)
      else (let retry = EncodeDatagramRetry (hh_SenderIndex h) (cookie_issue (ev_hmac EV) (ep_cookie e) now (string_bytes source)) in
        (True, if hh_MsgType h = MessageTypeClientHello \<and> hh_FragOffset h = 0 \<and> length d \<ge> length retry
               then snd (ep_WriteTo retry (Some src) e) else e)))"

text \<open>The three steps a data or close frame goes through: peek, authenticate, commit.  The result is the
  plaintext of a fresh authentic frame, with the session afterwards.\<close>

definition open_fresh :: "cipher_lib \<Rightarrow> int \<Rightarrow> datagram_header \<Rightarrow> bytes \<Rightarrow> bytes \<Rightarrow> session \<Rightarrow> bytes option res \<times> session" where
  "open_fresh L now hdr body d sess =
     (case dgramReplay sess of None \<Rightarrow> (Inl Panic, sess)
      | Some w \<Rightarrow>
        if \<not> Admissible w (dh_Seq hdr) then (Inr None, sess)
        else tryS sess (DatagramAAD d) (\<lambda>aad.
          case DatagramOpen L now now (dh_Epoch hdr) (dh_Seq hdr) body aad sess of
            (Inl Panic, sess) \<Rightarrow> (Inl Panic, sess)
          | (Inl (Err _), sess) \<Rightarrow> (Inr None, sess)
          | (Inr pt, sess) \<Rightarrow>
            (case Check w (dh_Seq hdr) of
               (False, w) \<Rightarrow> (Inr None, sess\<lparr>dgramReplay := Some w\<rparr>)
             | (True, w) \<Rightarrow> (Inr (Some pt), sess\<lparr>dgramReplay := Some w\<rparr>))))"

definition deliver_data :: "dgram_env \<Rightarrow> net_addr \<Rightarrow> sid \<Rightarrow> bytes \<Rightarrow> session \<Rightarrow> dgram_endpoint \<Rightarrow> dgram_endpoint" where
  "deliver_data EV src s pt sess e =
     on_ds s (\<lambda>ds.
       let ds = (if addrEqual (ev_addr EV) (ds_peerAddr ds) (Some src) then ds else ds\<lparr>ds_peerAddr := Some src\<rparr>)
       in ds\<lparr>ds_sess := Some (sess\<lparr>BytesReceived := BytesReceived sess + word_of_nat (length pt), PacketsRecv := PacketsRecv sess + 1\<rparr>),
             ds_recvCh := chan_offer dataInboxCap pt (ds_recvCh ds)\<rparr>) e"

definition set_sess :: "sid \<Rightarrow> session \<Rightarrow> dgram_endpoint \<Rightarrow> dgram_endpoint" where
  "set_sess s sess e = on_ds s (\<lambda>ds. ds\<lparr>ds_sess := Some sess\<rparr>) e"

definition route_data :: "dgram_env \<Rightarrow> int \<Rightarrow> net_addr \<Rightarrow> bytes \<Rightarrow> dgram_endpoint \<Rightarrow> unit res \<times> dgram_endpoint" where
  "route_data EV now src d e =
     tryS e (ParseDatagramHeader d) (\<lambda>(hdr, body).
     case registry_lookup (dh_RecvIndex hdr) (ep_registry e) of None \<Rightarrow> (Inr (), e)
     | Some s \<Rightarrow>
       (case ds_sess (ep_store e ! s) of
          None \<Rightarrow> (Inr (), on_ds s (\<lambda>ds. snd (stashEarly d src ds)) e)
        | Some sess \<Rightarrow>
          (case open_fresh (ev_cipher EV) now hdr body d sess of
             (Inl f, sess) \<Rightarrow> (Inl f, set_sess s sess e)
           | (Inr None, sess) \<Rightarrow> (Inr (), set_sess s sess e)
           | (Inr (Some pt), sess) \<Rightarrow> (Inr (), deliver_data EV src s pt sess e))))"

definition route_close :: "dgram_env \<Rightarrow> int \<Rightarrow> bytes \<Rightarrow> dgram_endpoint \<Rightarrow> unit res \<times> dgram_endpoint" where
  "route_close EV now d e =
     tryS e (ParseDatagramHeader d) (\<lambda>(hdr, body).
     case registry_lookup (dh_RecvIndex hdr) (ep_registry e) of None \<Rightarrow> (Inr (), e)
     | Some s \<Rightarrow>
       (case ds_sess (ep_store e ! s) of None \<Rightarrow> (Inr (), e)
        | Some sess \<Rightarrow>
          (case open_fresh (ev_cipher EV) now hdr body d sess of
             (Inl f, sess) \<Rightarrow> (Inl f, set_sess s sess e)
           | (Inr None, sess) \<Rightarrow> (Inr (), set_sess s sess e)
           | (Inr (Some _), sess) \<Rightarrow> (Inr (), teardown s (set_sess s (session_Close sess) e)))))"

definition route_retry :: "bytes \<Rightarrow> dgram_endpoint \<Rightarrow> unit res \<times> dgram_endpoint" where
  "route_retry d e =
     tryS e (ParseDatagramRetry d) (\<lambda>(recvIndex, cookie).
     case registry_lookup recvIndex (ep_registry e) of None \<Rightarrow> (Inr (), e)
     | Some s \<Rightarrow> (Inr (), on_ds s (\<lambda>ds. ds\<lparr>ds_retryCh := map_option (chan_offer 1 cookie) (ds_retryCh ds)\<rparr>) e))"

definition route_handshake :: "dgram_env \<Rightarrow> int \<Rightarrow> net_addr \<Rightarrow> bytes \<Rightarrow> dgram_endpoint \<Rightarrow> handshake_loop option res \<times> dgram_endpoint" where
  "route_handshake EV now src d e =
     tryS e (ParseDatagramHandshake d) (\<lambda>(h, fragment).
     case cookieGateRejects EV now src h d e of (True, e) \<Rightarrow> (Inr None, e)
     | (False, e) \<Rightarrow>
       (case Add now (ep_reasm e) (ev_addr EV src) h fragment of (r, reasm) \<Rightarrow>
        let e = e\<lparr>ep_reasm := reasm\<rparr> in
        tryS e r (\<lambda>complete.
        case complete of None \<Rightarrow> (Inr None, e)
        | Some msg \<Rightarrow>
          if hh_MsgType h = MessageTypeDatagramRekeyInit \<or> hh_MsgType h = MessageTypeDatagramRekeyResponse
          then bindS (endpoint_handleRekey EV now h msg e) (\<lambda>_ e. (Inr None, e))
          else (case deliverHandshake EV 1 now src h msg e of (l, e) \<Rightarrow> (Inr l, e)))))"

text \<open>\<open>routeDatagram\<close>; the result is the loop of a responder it started.\<close>

definition routeDatagram :: "dgram_env \<Rightarrow> int \<Rightarrow> net_addr \<Rightarrow> bytes \<Rightarrow> dgram_endpoint \<Rightarrow> handshake_loop option res \<times> dgram_endpoint" where
  "routeDatagram EV now src d e =
     tryS e (PeekDatagramType d) (\<lambda>ft.
     if ft = DatagramFrameHandshake then route_handshake EV now src d e
     else if ft = DatagramFrameData then bindS (route_data EV now src d e) (\<lambda>_ e. (Inr None, e))
     else if ft = DatagramFrameClose then bindS (route_close EV now d e) (\<lambda>_ e. (Inr None, e))
     else if ft = DatagramFrameRetry then bindS (route_retry d e) (\<lambda>_ e. (Inr None, e))
     else (Inr None, e))"

definition flushEarly :: "dgram_env \<Rightarrow> int \<Rightarrow> sid \<Rightarrow> dgram_endpoint \<Rightarrow> dgram_endpoint" where
  "flushEarly EV now s e =
     (case takeEarly (ep_store e ! s) of (pending, ds) \<Rightarrow>
      fold (\<lambda>p e. snd (routeDatagram EV now (ed_src p) (ed_data p) e)) pending (on_ds s (\<lambda>_. ds) e))"

section \<open>Running a handshake\<close>

definition surface :: "sid \<Rightarrow> dgram_endpoint \<Rightarrow> dgram_endpoint" where
  "surface s e = e\<lparr>ep_acceptCh := chan_offer 16 s (ep_acceptCh e)\<rparr>"

definition maybeSurface :: "dgram_env \<Rightarrow> int \<Rightarrow> handshake_loop \<times> dgram_endpoint \<Rightarrow> handshake_loop \<times> dgram_endpoint" where
  "maybeSurface EV now = (\<lambda>(l, e).
     if hl_surfaced l \<or> dd_status (hl_driver l) \<noteq> driverEstablished then (l, e)
     else
       (let source = ev_addr EV (hl_src l);
            e = on_ds (hl_ds l) (\<lambda>ds. ds\<lparr>ds_sess := Some (hs_session (dh_hs (dd_fsm (hl_driver l)))), ds_peerIndex := hl_peerIndex l\<rparr>) e;
            e = flushEarly EV now (hl_ds l) (unreserve source e)
        in (l\<lparr>hl_surfaced := True\<rparr>,
            case hl_established l of None \<Rightarrow> e
            | Some hello \<Rightarrow> surface (hl_ds l) (on_registry (noteEstablished (ev_sha256 EV) source hello now) e))))"

text \<open>What made the select of the loop ready, and how an iteration leaves it: running, returned to the caller
  (a lingering initiator goes on in the background), or ended with an error.\<close>

datatype loop_event = LoopInbox | LoopRetry | LoopTimer | LoopClosed

datatype loop_status = LoopRunning | LoopReturned | LoopLingers | LoopError qerror

definition loop_handle :: "dgram_env \<Rightarrow> int \<Rightarrow> loop_event \<Rightarrow> handshake_loop \<times> dgram_endpoint \<Rightarrow> bool res \<times> (handshake_loop \<times> dgram_endpoint)" where
  "loop_handle EV now ev = (\<lambda>(l, e).
     let ds = ep_store e ! hl_ds l in
     case ev of
       LoopInbox \<Rightarrow>
         (case ds_inbox ds of
            Some (m # q) \<Rightarrow>
              let e = on_ds (hl_ds l) (\<lambda>ds. ds\<lparr>ds_inbox := Some q\<rparr>) e;
                  l = (if im_sender m \<noteq> 0 then l\<lparr>hl_peerIndex := im_sender m\<rparr> else l)
              in case onInbound (ev_hash EV) (ev_kem EV) (ev_cipher EV) now (im_typ m) (im_body m) (hl_driver l) of (r, d) \<Rightarrow>
                 let l = l\<lparr>hl_driver := d\<rparr> in
                 tryS (l, e) r (\<lambda>out. (Inr True, loop_send out (l, e)))
          | _ \<Rightarrow> (Inr True, (l, e)))
     | LoopRetry \<Rightarrow>
         (case ds_retryCh ds of
            Some (cookie # q) \<Rightarrow> (Inr True, onRetry cookie (l, on_ds (hl_ds l) (\<lambda>ds. ds\<lparr>ds_retryCh := Some q\<rparr>) e))
          | _ \<Rightarrow> (Inr True, (l, e)))
     | LoopTimer \<Rightarrow> (case onTimeout now (hl_driver l) of (out, d) \<Rightarrow> (Inr True, loop_send out (l\<lparr>hl_driver := d\<rparr>, e)))
     | LoopClosed \<Rightarrow> (Inr False, (l, e)))"

definition loop_end :: "dgram_env \<Rightarrow> handshake_loop \<times> dgram_endpoint \<Rightarrow> loop_status \<times> (handshake_loop \<times> dgram_endpoint)" where
  "loop_end EV = (\<lambda>(l, e).
     if \<not> driver_done (hl_driver l) then (LoopRunning, (l, e))
     else if dd_status (hl_driver l) = driverFailed then
       (LoopError errHandshakeFailed, (l, on_registry (registry_remove (hl_localIndex l)) (unreserve (ev_addr EV (hl_src l)) e)))
     else (LoopReturned, (l, e)))"

definition loop_step :: "dgram_env \<Rightarrow> int \<Rightarrow> bool \<Rightarrow> loop_event \<Rightarrow> handshake_loop \<times> dgram_endpoint \<Rightarrow> loop_status res \<times> (handshake_loop \<times> dgram_endpoint)" where
  "loop_step EV now earlyReturn ev st =
     bindS (loop_handle EV now ev st) (\<lambda>goes_on st.
     if \<not> goes_on then (Inr (LoopError errEndpointClosed), st)
     else (case maybeSurface EV now st of (l, e) \<Rightarrow>
       if earlyReturn \<and> dd_status (hl_driver l) = driverEstablished
       then (Inr (if lingering (hl_driver l) then LoopLingers else LoopReturned), (l, e))
       else (case loop_end EV (l, e) of (status, st) \<Rightarrow> (Inr status, st))))"

text \<open>\<open>run\<close> before the loop: the initiator's first flight.\<close>

definition loop_begin :: "dgram_env \<Rightarrow> int \<Rightarrow> handshake_loop \<times> dgram_endpoint \<Rightarrow> unit res \<times> (handshake_loop \<times> dgram_endpoint)" where
  "loop_begin EV now = (\<lambda>(l, e).
     if dh_role (dd_fsm (hl_driver l)) = RoleInitiator then
       (case driver_start (ev_hash EV) (ev_kem EV) (ev_cipher EV) now (hl_driver l) of (r, d) \<Rightarrow>
        tryS (l\<lparr>hl_driver := d\<rparr>, e) r (\<lambda>msgs. (Inr (), loop_send msgs (l\<lparr>hl_driver := d\<rparr>, e))))
     else (Inr (), (l, e)))"

text \<open>\<open>redeliverHellos\<close>, after a responder's loop; the loops it starts are returned.\<close>

definition redeliverHellos :: "dgram_env \<Rightarrow> int \<Rightarrow> net_addr \<Rightarrow> sid \<Rightarrow> dgram_endpoint \<Rightarrow> handshake_loop list \<times> dgram_endpoint" where
  "redeliverHellos EV now src s e =
     fold (\<lambda>m (ls, e).
       if im_typ m = MessageTypeClientHello
       then (case deliverHandshake EV 1 now src \<lparr>dh_Type = 0, dh_Epoch = 0, dh_RecvIndex = 0, dh_Seq = 0, hh_SenderIndex = im_sender m,
               hh_MsgType = im_typ m, hh_FragOffset = 0, hh_FragLength = 0, hh_TotalLength = 0, hh_Cookie = []\<rparr> (im_body m) e of
               (None, e) \<Rightarrow> (ls, e) | (Some l, e) \<Rightarrow> (ls @ [l], e))
       else (ls, e))
     (case ds_inbox (ep_store e ! s) of None \<Rightarrow> [] | Some q \<Rightarrow> q)
     ([], on_ds s (\<lambda>ds. ds\<lparr>ds_inbox := map_option (\<lambda>_. []) (ds_inbox ds)\<rparr>) e)"

text \<open>\<open>DialDatagram\<close> up to the loop, and what it makes of the loop's end.\<close>

definition initiator_dgram_session :: "net_addr \<Rightarrow> datagram_session" where
  "initiator_dgram_session dst = (responder_session dst)\<lparr>ds_rekeyInbox := Some [], ds_retryCh := Some []\<rparr>"

definition dial_begin :: "dgram_env \<Rightarrow> int \<Rightarrow> net_addr \<Rightarrow> dgram_endpoint \<Rightarrow> handshake_loop res \<times> dgram_endpoint" where
  "dial_begin EV now dst e =
     (case ep_draw 1 e of (ts, e) \<Rightarrow>
      tryS e (NewSession (ev_hash EV) (ev_kem EV) (first_tape ts) now RoleInitiator) (\<lambda>session.
      let session = session\<lparr>PinnedServerKey := ep_pinnedServerKey e, sess_PSK := ep_psk e, PSKIdentity := ep_pskIdentity e\<rparr>;
          s = length (ep_store e);
          e = e\<lparr>ep_store := ep_store e @ [initiator_dgram_session dst]\<rparr>
      in case ep_draw 1 e of (ts, e) \<Rightarrow>
         (case registry_add (first_tape ts) s (ep_registry e) of
            (Inl f, r) \<Rightarrow> (Inl f, e\<lparr>ep_registry := r\<rparr>)
          | (Inr idx, r) \<Rightarrow>
            (case ep_draw 8 (on_ds s (\<lambda>ds. ds\<lparr>ds_index := idx\<rparr>) (e\<lparr>ep_registry := r\<rparr>)) of (ts, e) \<Rightarrow>
             (Inr \<lparr>hl_ds = s, hl_src = dst, hl_driver = newDriver session ts e, hl_localIndex = idx, hl_peerIndex = 0, hl_seq = 0,
                hl_cookie = [], hl_retriesHonored = 0, hl_established = None, hl_surfaced = False\<rparr>, e)))))"

definition dial_end :: "loop_status \<Rightarrow> handshake_loop \<Rightarrow> dgram_endpoint \<Rightarrow> sid res \<times> dgram_endpoint" where
  "dial_end status l e =
     (case status of
        LoopError err \<Rightarrow> (failR (if ep_pinnedServerKey e \<noteq> None then ErrServerKeyMismatch else err), on_registry (registry_remove (hl_localIndex l)) e)
      | _ \<Rightarrow> (Inr (hl_ds l), e))"

text \<open>A blocking select: \<open>None\<close> when the chosen case is not ready.\<close>

datatype wait_case = WaitData | WaitClosed | WaitDone

definition Accept :: "wait_case \<Rightarrow> dgram_endpoint \<Rightarrow> (sid res \<times> dgram_endpoint) option" where
  "Accept w e =
     (case w of
        WaitData \<Rightarrow> (case ep_acceptCh e of s # q \<Rightarrow> Some (Inr s, e\<lparr>ep_acceptCh := q\<rparr>) | [] \<Rightarrow> None)
      | WaitDone \<Rightarrow> if ep_done e then Some (failR errEndpointClosed, e) else None
      | WaitClosed \<Rightarrow> None)"

section \<open>The application handle\<close>

definition data_header :: "byte \<Rightarrow> byte \<Rightarrow> u32 \<Rightarrow> u64 \<Rightarrow> datagram_header" where
  "data_header ft epoch idx sq = \<lparr>dh_Type = ft, dh_Epoch = epoch, dh_RecvIndex = idx, dh_Seq = sq\<rparr>"

text \<open>Sealing one payload behind \<open>buf\<close>, as \<open>Send\<close> does with an empty buffer and \<open>SendBatch\<close> with the frames so far;
  the frame's own sequence number is returned with the buffer.\<close>

definition seal_data :: "cipher_lib \<Rightarrow> int \<Rightarrow> u32 \<Rightarrow> bytes \<Rightarrow> bytes \<Rightarrow> session \<Rightarrow> (bytes \<times> u64) res \<times> session" where
  "seal_data L coarse idx buf p s =
     (case nextDatagramSeq s of (sq, s) \<Rightarrow>
      tryS s (datagramSendEpoch s) (\<lambda>epoch.
      let header = AppendDatagramDataHeader buf (data_header 0 epoch idx sq) in
      bindS (DatagramSealTo L coarse header (drop (length buf) header) sq p s) (\<lambda>frame s. (Inr (frame, sq), s))))"

text \<open>After a send: the counters, and whether a background rekey starts.\<close>

definition after_send :: "int \<Rightarrow> sid \<Rightarrow> i64 \<Rightarrow> i64 \<Rightarrow> u64 \<Rightarrow> dgram_endpoint \<Rightarrow> bool res \<times> dgram_endpoint" where
  "after_send now s bytes packets sq e =
     (let ds = ep_store e ! s in
      case ds_sess ds of None \<Rightarrow> (Inl Panic, e)
      | Some sess \<Rightarrow>
        let sess = sess\<lparr>BytesSent := BytesSent sess + bytes, PacketsSent := PacketsSent sess + packets\<rparr>; e = set_sess s sess e in
        if sess_Role sess = RoleInitiator \<and> \<not> ds_rekeyActive ds
        then tryS e (datagramRekeyDue now sq sess) (\<lambda>due. (Inr due, e))
        else (Inr False, e))"

definition conn_Send :: "dgram_env \<Rightarrow> int \<Rightarrow> sid \<Rightarrow> bytes \<Rightarrow> dgram_endpoint \<Rightarrow> bool res \<times> dgram_endpoint" where
  "conn_Send EV now s p e =
     rejectS (length p > DatagramMaxDataPayload) ErrMessageTooLarge e (
     let ds = ep_store e ! s in
     case ds_sess ds of None \<Rightarrow> (Inl Panic, e)
     | Some sess \<Rightarrow>
       (case seal_data (ev_cipher EV) now (ds_peerIndex ds) [] p sess of (r, sess) \<Rightarrow>
        let e = set_sess s sess e in
        tryS e r (\<lambda>(frame, sq).
        bindS (ep_WriteTo frame (ds_peerAddr ds) e) (\<lambda>_ e.
        after_send now s (word_of_nat (length p)) 1 sq e))))"

text \<open>\<open>SendBatch\<close>: seal every payload back to back, then walk the frames.\<close>

definition maxGSOSegments :: nat where "maxGSOSegments = 64"
definition maxGSOBytes :: nat where "maxGSOBytes = 65507"

fun seal_batch :: "cipher_lib \<Rightarrow> int \<Rightarrow> u32 \<Rightarrow> bytes list \<Rightarrow> bytes \<Rightarrow> nat list \<Rightarrow> u64 \<Rightarrow> session \<Rightarrow> (bytes \<times> nat list \<times> u64) res \<times> session" where
  "seal_batch L coarse idx [] buf ends lastSeq s = (Inr (buf, ends, lastSeq), s)"
| "seal_batch L coarse idx (p # ps) buf ends lastSeq s =
     bindS (seal_data L coarse idx buf p s) (\<lambda>(buf, sq) s. seal_batch L coarse idx ps buf (ends @ [length buf]) sq s)"

text \<open>The run of frames from position \<open>i\<close> that may go out in one segmented send: the inner loop, with \<open>n\<close> frames
  ending at \<open>runEnd\<close> so far.\<close>

function gso_run :: "nat list \<Rightarrow> nat \<Rightarrow> nat \<Rightarrow> nat \<Rightarrow> nat \<Rightarrow> nat \<Rightarrow> nat \<times> nat" where
  "gso_run ends start segSize runEnd n j =
     (if j < length ends \<and> n < maxGSOSegments then
        (let size = ends ! j - ends ! (j - 1) in
         if size > segSize \<or> runEnd + size - start > maxGSOBytes then (runEnd, n)
         else if size < segSize then (ends ! j, n + 1)
         else gso_run ends start segSize (ends ! j) (n + 1) (j + 1))
      else (runEnd, n))"
  by auto

termination by (relation "measure (\<lambda>(ends, start, segSize, runEnd, n, j). length ends - j)") auto

text \<open>\<open>writeGSO\<close> cuts the buffer into segments; the kernel accepts or refuses it as a whole.\<close>

fun segments :: "nat \<Rightarrow> nat \<Rightarrow> bytes \<Rightarrow> bytes list" where
  "segments 0 segSize buf = []"
| "segments (Suc n) segSize buf = (if n = 0 then [buf] else take segSize buf # segments n segSize (drop segSize buf))"

definition writeGSO :: "(bytes \<Rightarrow> bool) \<Rightarrow> bytes \<Rightarrow> nat \<Rightarrow> nat \<Rightarrow> net_addr option \<Rightarrow> dgram_endpoint \<Rightarrow> bool \<times> dgram_endpoint" where
  "writeGSO seg_ok buf segSize n dst e =
     (if ep_offload e \<and> ep_sockErr e = None \<and> seg_ok buf then (True, e\<lparr>ep_sent := ep_sent e @ map (Pair dst) (segments n segSize buf)\<rparr>) else (False, e))"

function write_frames :: "(bytes \<Rightarrow> bool) \<Rightarrow> bytes \<Rightarrow> nat list \<Rightarrow> net_addr option \<Rightarrow> nat \<Rightarrow> nat \<Rightarrow> dgram_endpoint \<Rightarrow> unit res \<times> dgram_endpoint" where
  "write_frames seg_ok buf ends dst start i e =
     (if i < length ends then
        (let segSize = ends ! i - start in
         case gso_run ends start segSize (ends ! i) 1 (i + 1) of (runEnd, n) \<Rightarrow>
         if n > 1 \<and> fst (writeGSO seg_ok (take (runEnd - start) (drop start buf)) segSize n dst e)
         then write_frames seg_ok buf ends dst runEnd (i + n) (snd (writeGSO seg_ok (take (runEnd - start) (drop start buf)) segSize n dst e))
         else bindS (ep_WriteTo (take (ends ! i - start) (drop start buf)) dst e) (\<lambda>_ e.
              write_frames seg_ok buf ends dst (ends ! i) (i + 1) e))
      else (Inr (), e))"
  by auto

termination by (relation "measure (\<lambda>(seg_ok, buf, ends, dst, start, i, e). length ends - i)") auto

declare gso_run.simps [simp del] write_frames.simps [simp del]

definition conn_SendBatch :: "dgram_env \<Rightarrow> (bytes \<Rightarrow> bool) \<Rightarrow> int \<Rightarrow> sid \<Rightarrow> bytes list \<Rightarrow> dgram_endpoint \<Rightarrow> bool res \<times> dgram_endpoint" where
  "conn_SendBatch EV seg_ok now s payloads e =
     (if payloads = [] then (Inr False, e)
      else rejectS (list_ex (\<lambda>p. length p > DatagramMaxDataPayload) payloads) ErrMessageTooLarge e (
        let ds = ep_store e ! s in
        case ds_sess ds of None \<Rightarrow> (Inl Panic, e)
        | Some sess \<Rightarrow>
          (case seal_batch (ev_cipher EV) now (ds_peerIndex ds) payloads [] [] 0 sess of (r, sess) \<Rightarrow>
           let e = set_sess s sess e in
           tryS e r (\<lambda>(buf, ends, lastSeq).
           bindS (write_frames seg_ok buf ends (ds_peerAddr ds) 0 0 e) (\<lambda>_ e.
           after_send now s (sum_list (map (word_of_nat \<circ> length) payloads)) (word_of_nat (length payloads)) lastSeq e)))))"

definition conn_Recv :: "wait_case \<Rightarrow> sid \<Rightarrow> dgram_endpoint \<Rightarrow> (bytes res \<times> dgram_endpoint) option" where
  "conn_Recv w s e =
     (case w of
        WaitData \<Rightarrow> (case ds_recvCh (ep_store e ! s) of b # q \<Rightarrow> Some (Inr b, on_ds s (\<lambda>ds. ds\<lparr>ds_recvCh := q\<rparr>) e) | [] \<Rightarrow> None)
      | WaitClosed \<Rightarrow> if ds_closed (ep_store e ! s) then Some (failR ErrTunnelClosed, e) else None
      | WaitDone \<Rightarrow> if ep_done e then Some (failR errEndpointClosed, e) else None)"

definition conn_Close :: "dgram_env \<Rightarrow> int \<Rightarrow> sid \<Rightarrow> dgram_endpoint \<Rightarrow> unit res \<times> dgram_endpoint" where
  "conn_Close EV now s e =
     (let ds = ep_store e ! s in
      case ds_sess ds of None \<Rightarrow> (Inr (), teardown s e)
      | Some sess \<Rightarrow>
        (case nextDatagramSeq sess of (sq, sess) \<Rightarrow>
         tryS (set_sess s sess e) (datagramSendEpoch sess) (\<lambda>epoch.
         let header = EncodeDatagramHeader (data_header DatagramFrameClose epoch (ds_peerIndex ds) sq) in
         case DatagramSeal (ev_cipher EV) now header sq [] sess of
           (Inl Panic, sess) \<Rightarrow> (Inl Panic, set_sess s sess e)
         | (Inl (Err _), sess) \<Rightarrow> (Inr (), teardown s (set_sess s (session_Close sess) e))
         | (Inr tag, sess) \<Rightarrow>
           (Inr (), teardown s (set_sess s (session_Close sess) (snd (ep_WriteTo (header @ tag) (ds_peerAddr ds) e)))))))"

section \<open>Rekey, the initiator's side\<close>

definition errRekeyTimeout :: qerror where "errRekeyTimeout = ErrText ''tunnel: datagram rekey timed out''"

record rekey_loop =
  rl_ds :: sid
  rl_kp :: key_pair
  rl_epoch :: byte
  rl_frames :: "bytes list"
  rl_rto :: int
  rl_attempts :: int

definition rekey_begin :: "dgram_env \<Rightarrow> sid \<Rightarrow> dgram_endpoint \<Rightarrow> rekey_loop res \<times> dgram_endpoint" where
  "rekey_begin EV s e =
     (let ds = ep_store e ! s in
      case ds_sess ds of None \<Rightarrow> (Inl Panic, e)
      | Some sess \<Rightarrow>
        rejectS (sess_Role sess \<noteq> RoleInitiator) ErrInvalidState e (
        case beginRekey ds of (False, _) \<Rightarrow> (failR ErrRekeyInProgress, e)
        | (True, ds) \<Rightarrow>
          let stop = (\<lambda>e. on_ds s endRekey e) in
          case ep_draw 1 (on_ds s (\<lambda>_. ds) e) of (ts, e) \<Rightarrow>
          tryS (stop e) (suite_GenerateKeyPair (kemSuite sess) (first_tape ts)) (\<lambda>kp.
          case buildDatagramRekeyInit (ev_cipher EV) kp sess of (r, sess) \<Rightarrow>
          let e = set_sess s sess e in
          tryS (stop e) r (\<lambda>(body, epoch).
          tryS (stop e) (fragmentRekey (ds_peerIndex ds) (ds_index ds) epoch MessageTypeDatagramRekeyInit body (ep_padHandshake e)) (\<lambda>frames.
          (Inr \<lparr>rl_ds = s, rl_kp = kp, rl_epoch = epoch, rl_frames = frames, rl_rto = ep_rtoInitial e, rl_attempts = 0\<rparr>,
           on_ds s (\<lambda>ds. ds\<lparr>ds_rekeyInbox := map_option (drop 1) (ds_rekeyInbox ds)\<rparr>) e))))))"

datatype rekey_event = RekeyTimer | RekeyResponse | RekeyClosed | RekeyDone

text \<open>One iteration; \<open>Some r\<close> is what \<open>Rekey\<close> returns.\<close>

definition rekey_step :: "dgram_env \<Rightarrow> int \<Rightarrow> rekey_event \<Rightarrow> rekey_loop \<times> dgram_endpoint \<Rightarrow> unit res option \<times> (rekey_loop \<times> dgram_endpoint)" where
  "rekey_step EV now ev = (\<lambda>(l, e).
     let s = rl_ds l; ds = ep_store e ! s; stop = (\<lambda>e. on_ds s endRekey e) in
     case ev of
       RekeyTimer \<Rightarrow>
         if rl_attempts l > retryCeiling e then (Some (failR errRekeyTimeout), (l, stop e))
         else (None, (l\<lparr>rl_attempts := rl_attempts l + 1, rl_rto := min (rl_rto l * 2) (ep_rtoMax e)\<rparr>, ep_writeAll (rl_frames l) (ds_peerAddr ds) e))
     | RekeyResponse \<Rightarrow>
         (case (ds_rekeyInbox ds, ds_sess ds) of
            (Some (resp # q), Some sess) \<Rightarrow>
              let e = on_ds s (\<lambda>ds. ds\<lparr>ds_rekeyInbox := Some q\<rparr>) e in
              (case completeDatagramRekey (ev_hash EV) (ev_cipher EV) now (rl_epoch l) resp (rl_kp l) sess of (r, sess) \<Rightarrow>
               let e = set_sess s sess e in
               case r of Inr () \<Rightarrow> (Some (Inr ()), (l, stop e)) | Inl Panic \<Rightarrow> (Some (Inl Panic), (l, stop e)) | Inl (Err _) \<Rightarrow> (None, (l, e)))
          | _ \<Rightarrow> (None, (l, e)))
     | RekeyClosed \<Rightarrow> if ds_closed ds then (Some (failR ErrTunnelClosed), (l, stop e)) else (None, (l, e))
     | RekeyDone \<Rightarrow> if ep_done e then (Some (failR errEndpointClosed), (l, stop e)) else (None, (l, e)))"

end
