(* ===== verification/Dgram_Cookie.thy ===== *)
theory Dgram_Cookie
  imports Dgram_Endpoint
begin

text \<open>
  The anti-amplification gate of the datagram endpoint: which cookies verify, and what a handshake frame
  without one leaves behind under load.
\<close>

lemma put_u64_time:
  assumes "0 \<le> now" "now < 2 ^ 63"
  shows "sint (get_u64 (put_u64 (word_of_int now :: u64) @ r)) = now"
proof -
  have "get_u64 (put_u64 (word_of_int now :: u64) @ r) = word_of_int now"
    by simp
  then show ?thesis
    using assms signed_take_bit_int_eq_self [of 63 now] by (simp add: signed_of_int)
qed

text \<open>
  C22: Which cookies verify.  For a 32-byte MAC that does not collide on the two inputs at hand, a cookie issued
  to \<open>a\<close> at a time of the Unix epoch that fits 63 bits verifies for \<open>a'\<close> at \<open>now'\<close> exactly when \<open>a'\<close> is \<open>a\<close> and
  \<open>now'\<close> lies within the ten seconds from its issue; and whatever verifies carries the MAC of the address
  it is presented from.
\<close>

theorem cookie_valid_iff:
  assumes "\<And>x. length (M k x) = cookieMACSize" "0 \<le> now" "now < 2 ^ 63"
    and "M k (a' @ put_u64 (word_of_int now)) = M k (a @ put_u64 (word_of_int now)) \<Longrightarrow> a' @ put_u64 (word_of_int now) = a @ put_u64 (word_of_int now :: u64)"
  shows "(cookie_verify M k now' a' (cookie_issue M k now a) \<longleftrightarrow> a' = a \<and> now \<le> now' \<and> now' \<le> now + cookieLifetime) \<and>
    (cookie_verify M k now' a' c \<longrightarrow> drop 8 c = M k (a' @ take 8 c))"
proof -
  let ?ts = "put_u64 (word_of_int now :: u64)"
  have l: "length ?ts = 8"
    by simp
  have c: "cookie_issue M k now a = ?ts @ M k (a @ ?ts)"
    using assms(1) by (simp add: cookie_issue_def cookie_mac_def copy_into_def Let_def)
  have t: "sint (get_u64 ?ts) = now"
    using put_u64_time [OF assms(2,3), of "[]"] by simp
  have "cookie_verify M k now' a' (cookie_issue M k now a) \<longleftrightarrow> M k (a @ ?ts) = M k (a' @ ?ts) \<and> now \<le> now' \<and> now' \<le> now + cookieLifetime"
    unfolding cookie_verify_def c using assms(1) l t by (auto simp: cookieTimestampSize_def cookieSize_def cookie_mac_def time_Sub_compare cookieLifetime_def)
  moreover have "M k (a @ ?ts) = M k (a' @ ?ts) \<longleftrightarrow> a' = a"
    using assms(4) by auto
  ultimately show ?thesis
    by (auto simp: cookie_verify_def cookie_mac_def cookieTimestampSize_def)
qed

theorem cookie_valid_iff_witness:
  "cookie_verify (\<lambda>k x. copy_into 32 x) [] 5 [1] (cookie_issue (\<lambda>k x. copy_into 32 x) [] 3 [1]) \<and>
   \<not> cookie_verify (\<lambda>k x. copy_into 32 x) [] 5 [2] (cookie_issue (\<lambda>k x. copy_into 32 x) [] 3 [1])"
proof -
  have l: "length (copy_into 32 (x :: bytes)) = cookieMACSize" for x
    by (simp add: cookieMACSize_def)
  have n: "copy_into 32 ([2 :: byte] @ y) \<noteq> copy_into 32 ([1] @ y)" for y
    by (simp add: copy_into_def)
  have "cookie_verify (\<lambda>k x. copy_into 32 x) [] 5 [1] (cookie_issue (\<lambda>k x. copy_into 32 x) [] 3 [1])"
    using cookie_valid_iff [of "\<lambda>k x. copy_into 32 x" "[]" 3 "[1]" "[1]" 5, OF l] by (simp add: cookieLifetime_def)
  moreover have "\<not> cookie_verify (\<lambda>k x. copy_into 32 x) [] 5 [2] (cookie_issue (\<lambda>k x. copy_into 32 x) [] 3 [1])"
    using cookie_valid_iff [of "\<lambda>k x. copy_into 32 x" "[]" 3 "[2]" "[1]" 5, OF l] n by auto
  ultimately show ?thesis ..
qed

text \<open>
  C21: No state and no amplification for unproven sources.  Under cookie pressure, a handshake frame from a
  source without a session or responder and without a valid cookie changes nothing but the datagrams sent:
  registry, sessions, reassembly buffers and entropy stay as they are, no responder starts, and at most one
  datagram goes back to the source, a RETRY no longer than the frame that caused it.
\<close>

theorem cookie_gate_stateless:
  assumes "PeekDatagramType d = Inr DatagramFrameHandshake" "ParseDatagramHandshake d = Inr (h, fragment)" "underCookiePressure e"
    "\<not> knownSource (dh_RecvIndex h) (ev_addr EV src) (ep_registry e)"
    "\<not> cookie_verify (ev_hmac EV) (ep_cookie e) now (string_bytes (ev_addr EV src)) (hh_Cookie h)"
  shows "\<exists>sent. routeDatagram EV now src d e = (Inr None, e\<lparr>ep_sent := ep_sent e @ map (Pair (Some src)) sent\<rparr>) \<and>
    (sent = [] \<or> (\<exists>retry. sent = [retry] \<and> length retry \<le> length d \<and> PeekDatagramType retry = Inr DatagramFrameRetry))"
proof -
  let ?retry = "EncodeDatagramRetry (hh_SenderIndex h) (cookie_issue (ev_hmac EV) (ep_cookie e) now (string_bytes (ev_addr EV src)))"
  have p: "PeekDatagramType ?retry = Inr DatagramFrameRetry"
    by (simp add: EncodeDatagramRetry_def PeekDatagramType_def putDatagramHeader_def guardR_def DatagramHeaderSize_def u8_at_def)
  show ?thesis
  proof (cases "hh_MsgType h = MessageTypeClientHello \<and> hh_FragOffset h = 0 \<and> length ?retry \<le> length d \<and> ep_sockErr e = None")
    case True
    then have "routeDatagram EV now src d e = (Inr None, e\<lparr>ep_sent := ep_sent e @ map (Pair (Some src)) [?retry]\<rparr>)"
      using assms by (simp add: routeDatagram_def route_handshake_def cookieGateRejects_def ep_WriteTo_def Let_def)
    then show ?thesis
      using p True by blast
  next
    case False
    then have "routeDatagram EV now src d e = (Inr None, e\<lparr>ep_sent := ep_sent e @ map (Pair (Some src)) []\<rparr>)"
      using assms by (auto simp: routeDatagram_def route_handshake_def cookieGateRejects_def ep_WriteTo_def failR_def Let_def split: option.splits)
    then show ?thesis
      by blast
  qed
qed

text \<open>A bootstrap hello fragment without a cookie, at an endpoint that always asks for one.\<close>

definition hello_fragment :: bytes where
  "hello_fragment = [1, 0, 0, 0, 0, 0, 0, 0, 0, 0, 0, 0, 0, 0, 0, 0, 0, 7, 1, 0, 0, 0, 40, 0, 40, 0] @ replicate 40 9"

definition sample_env :: dgram_env where
  "sample_env = \<lparr>ev_hash = zero_hash_lib, ev_kem = toy_kem_lib, ev_cipher = tag_cipher_lib, ev_hmac = (\<lambda>k x. copy_into 32 x),
     ev_sha256 = copy_into 32, ev_addr = (\<lambda>_. ''a'')\<rparr>"

lemma hello_fragment_parses:
  "PeekDatagramType hello_fragment = Inr DatagramFrameHandshake"
  "case ParseDatagramHandshake hello_fragment of Inl _ \<Rightarrow> False | Inr (h, fragment) \<Rightarrow> dh_RecvIndex h = 0 \<and> hh_Cookie h = []"
  by code_simp+

theorem cookie_gate_stateless_witness:
  "\<exists>sent. routeDatagram sample_env 3 (OtherAddr ''a'') hello_fragment (blank_endpoint [] []) =
     (Inr None, (blank_endpoint [] [])\<lparr>ep_sent := ep_sent (blank_endpoint [] []) @ map (Pair (Some (OtherAddr ''a''))) sent\<rparr>)"
proof -
  obtain h fragment where h: "ParseDatagramHandshake hello_fragment = Inr (h, fragment)" "dh_RecvIndex h = 0" "hh_Cookie h = []"
    using hello_fragment_parses(2) by (auto split: sum.splits)
  have "underCookiePressure (blank_endpoint [] [])"
    by (simp add: underCookiePressure_def blank_endpoint_def)
  moreover have "\<not> knownSource (dh_RecvIndex h) (ev_addr sample_env (OtherAddr ''a'')) (ep_registry (blank_endpoint [] []))"
    by (simp add: h(2) knownSource_def blank_endpoint_def newConnRegistry_def)
  moreover have "\<not> cookie_verify (ev_hmac sample_env) (ep_cookie (blank_endpoint [] [])) 3 (string_bytes (ev_addr sample_env (OtherAddr ''a''))) (hh_Cookie h)"
    by (simp add: h(3) cookie_verify_def cookieSize_def cookieTimestampSize_def)
  ultimately show ?thesis
    using cookie_gate_stateless [OF hello_fragment_parses(1) h(1)] by blast
qed

end
