(* ===== verification/Dgram_Routing.thy ===== *)
theory Dgram_Routing
  imports Dgram_Cookie
begin

text \<open>
  What routing does to the sessions of an endpoint.  Every branch of \<open>routeDatagram\<close> leaves the established
  sessions as they are, up to a rekey's new epoch, except that data and close frames go through the
  replay window; from this follow the well-formedness of the endpoint, the absence of panics and the
  at-most-once delivery of application data.
\<close>

section \<open>What a step keeps of a session\<close>

definition sess_keeps :: "session \<Rightarrow> session \<Rightarrow> bool" where
  "sess_keeps a b \<longleftrightarrow> dgramReplay b = dgramReplay a \<and> kemSuite b = kemSuite a \<and> (cur_epoch a \<noteq> None \<longrightarrow> cur_epoch b \<noteq> None)"

lemma sess_keeps_refl [simp]: "sess_keeps a a"
  by (simp add: sess_keeps_def)

lemma sess_keeps_trans: "sess_keeps a b \<Longrightarrow> sess_keeps b c \<Longrightarrow> sess_keeps a c"
  by (simp add: sess_keeps_def)

lemma sess_keeps_run:
  "(\<And>x. r = Inr x \<Longrightarrow> sess_keeps s (snd (k x))) \<Longrightarrow> sess_keeps s s' \<Longrightarrow> sess_keeps s (snd (tryS s' r k))"
  "(\<not> b \<Longrightarrow> sess_keeps s (snd k')) \<Longrightarrow> sess_keeps s s' \<Longrightarrow> sess_keeps s (snd (rejectS b e s' k'))"
  "(\<And>x t. m = (Inr x, t) \<Longrightarrow> sess_keeps s (snd (k'' x t))) \<Longrightarrow> (\<And>e t. m = (Inl e, t) \<Longrightarrow> sess_keeps s t) \<Longrightarrow> sess_keeps s (snd (bindS m k''))"
  by (rule tryS_state [where P = "sess_keeps s"], assumption+, rule rejectS_state [where P = "sess_keeps s"], assumption+,
      rule bindS_state [where P = "sess_keeps s"]) blast+

lemma sealRekeyControl_keeps: "sess_keeps s (snd (sealRekeyControl L ty p s))"
  by (auto simp: sealRekeyControl_def nextDatagramSeq_def tryS_def sess_keeps_def cur_epoch_def split: sum.split option.split)

lemma AdvanceDatagramEpoch_keeps: "sess_keeps s (snd (AdvanceDatagramEpoch H L now x s))"
  by (auto simp: AdvanceDatagramEpoch_def rejectS_def tryS_def sess_keeps_def cur_epoch_def Let_def split: sum.split option.split)

lemma respond_keeps: "sess_keeps s (snd (respondToDatagramRekey H L now tape epoch body s))"
proof -
  have seal: "sess_keeps s t" if "sealRekeyControl L ty p s = (x, t)" for ty p x t
    using that sealRekeyControl_keeps [of s L ty p] by simp
  have adv: "sess_keeps s t'" if "AdvanceDatagramEpoch H L now y t = (x, t')" "sess_keeps s t" for y t x t'
    using that AdvanceDatagramEpoch_keeps [of t H L now y] sess_keeps_trans by fastforce
  show ?thesis
    unfolding respondToDatagramRekey_def
    by (auto intro!: sess_keeps_run split: prod.split dest: seal intro: adv)
qed

lemma session_Close_keeps: "sess_keeps s (session_Close s)"
  by (simp add: session_Close_def sess_keeps_def cur_epoch_def)

section \<open>What a step keeps of the endpoint\<close>

definition sess_at :: "dgram_endpoint \<Rightarrow> sid \<Rightarrow> session option" where
  "sess_at e s = (if s < length (ep_store e) then ds_sess (ep_store e ! s) else None)"

definition recv_at :: "dgram_endpoint \<Rightarrow> sid \<Rightarrow> bytes list" where
  "recv_at e s = (if s < length (ep_store e) then ds_recvCh (ep_store e ! s) else [])"

definition store_keeps :: "dgram_endpoint \<Rightarrow> dgram_endpoint \<Rightarrow> bool" where
  "store_keeps e e' \<longleftrightarrow> length (ep_store e) \<le> length (ep_store e') \<and>
     (\<forall>s. rel_option sess_keeps (sess_at e s) (sess_at e' s) \<and> recv_at e' s = recv_at e s)"

lemma store_keeps_refl [simp]: "store_keeps e e"
  by (simp add: store_keeps_def option.rel_refl)

lemma store_keeps_trans:
  assumes "store_keeps a b" "store_keeps b c"
  shows "store_keeps a c"
proof -
  have "transp sess_keeps"
    by (rule transpI) (rule sess_keeps_trans)
  then have "rel_option sess_keeps (sess_at a s) (sess_at c s)" for s
    using assms option.rel_transp [of sess_keeps] unfolding store_keeps_def by (meson transpD)
  then show ?thesis
    using assms by (auto simp: store_keeps_def)
qed

lemma store_keeps_same: "ep_store e' = ep_store e \<Longrightarrow> store_keeps e e'"
  by (simp add: store_keeps_def sess_at_def recv_at_def option.rel_refl)

lemma sess_at_on_ds: "sess_at (on_ds s f e) t = (if t = s \<and> s < length (ep_store e) then ds_sess (f (ep_store e ! s)) else sess_at e t)"
  "recv_at (on_ds s f e) t = (if t = s \<and> s < length (ep_store e) then ds_recvCh (f (ep_store e ! s)) else recv_at e t)"
  by (auto simp: sess_at_def recv_at_def on_ds_def nth_list_update)

lemma store_keeps_on_ds:
  assumes "rel_option sess_keeps (ds_sess (ep_store e ! s)) (ds_sess (f (ep_store e ! s)))" "ds_recvCh (f (ep_store e ! s)) = ds_recvCh (ep_store e ! s)"
  shows "store_keeps e (on_ds s f e)"
  using assms by (auto simp: store_keeps_def sess_at_on_ds option.rel_refl) (auto simp: on_ds_def sess_at_def recv_at_def)

lemma store_keeps_on_ds_same [simp]:
  "(\<And>ds. ds_sess (f ds) = ds_sess ds \<and> ds_recvCh (f ds) = ds_recvCh ds) \<Longrightarrow> store_keeps e (on_ds s f e)"
  by (rule store_keeps_on_ds) (simp_all add: option.rel_refl)

lemma store_keeps_push: "ds_sess ds = None \<Longrightarrow> ds_recvCh ds = [] \<Longrightarrow> store_keeps e (e\<lparr>ep_store := ep_store e @ [ds]\<rparr>)"
  by (auto simp: store_keeps_def sess_at_def recv_at_def nth_append option.rel_refl)

lemma ep_frame [simp]:
  "ep_store (on_registry f e) = ep_store e" "ep_store (ep_writeAll fr dst e) = ep_store e" "ep_store (unreserve x e) = ep_store e"
  "ep_store (snd (ep_WriteTo fr' dst e)) = ep_store e" "ep_store (snd (ep_draw n e)) = ep_store e"
  "ep_registry (on_ds s g e) = ep_registry e" "ep_reasm (on_ds s g e) = ep_reasm e" "length (ep_store (on_ds s g e)) = length (ep_store e)"
  "ep_registry (ep_writeAll fr dst e) = ep_registry e" "ep_reasm (ep_writeAll fr dst e) = ep_reasm e"
  by (simp_all add: on_registry_def ep_writeAll_def unreserve_def ep_WriteTo_def ep_draw_def on_ds_def split: option.split)

lemma ds_trySend [simp]: "ds_sess (trySend m ds) = ds_sess ds" "ds_recvCh (trySend m ds) = ds_recvCh ds"
  by (simp_all add: trySend_def)

lemma startResponder_keeps: "store_keeps e (snd (startResponder EV now src s m e))"
proof -
  have "store_keeps e (on_ds s (\<lambda>ds. trySend m (ds\<lparr>ds_index := idx\<rparr>)) (e\<lparr>ep_rand := x, ep_registry := r\<rparr>)\<lparr>ep_rand := y\<rparr>)" for idx x y r
    by (rule store_keeps_trans [OF store_keeps_same store_keeps_trans [OF store_keeps_on_ds_same store_keeps_same]]) simp_all
  then show ?thesis
    by (auto simp: startResponder_def ep_draw_def Let_def store_keeps_same split: sum.split prod.split)
qed

text \<open>In one atomic delivery the source keeps its owner, so the re-dispatch never runs.\<close>

lemma deliverHandshake_fuel: "deliverHandshake EV (Suc n) now src h msg e = deliverHandshake EV 1 now src h msg e"
proof -
  have "sourceOwner x s (ep_registry (on_ds s f (e\<lparr>ep_registry := r'\<rparr>)))"
    if "reserveSource x y r = ((Some s, False), r')" for x y s f r r' and e :: dgram_endpoint
    using that by (auto simp: reserveSource_def sourceOwner_def on_ds_def split: option.splits prod.splits bool.splits)
  then show ?thesis
    by (auto simp: deliverHandshake.simps Let_def split: option.split prod.split)
qed

lemma deliverHandshake_keeps: "store_keeps e (snd (deliverHandshake EV n now src h msg e))"
proof (induction n arbitrary: e)
  case (Suc n)
  have send: "store_keeps e (on_ds s (trySend m) (e\<lparr>ep_registry := r\<rparr>))" for s m r
    by (rule store_keeps_trans [OF store_keeps_same store_keeps_on_ds_same]) simp_all
  have start: "store_keeps e (snd (startResponder EV now src s m (e\<lparr>ep_registry := r, ep_store := ep_store e @ [responder_session src]\<rparr>)))" for s m r
  proof -
    have "store_keeps e (e\<lparr>ep_registry := r\<rparr>)" "store_keeps (e\<lparr>ep_registry := r\<rparr>) (e\<lparr>ep_registry := r, ep_store := ep_store e @ [responder_session src]\<rparr>)"
      using store_keeps_push [of "responder_session src" "e\<lparr>ep_registry := r\<rparr>"] by (simp_all add: store_keeps_same responder_session_def)
    then show ?thesis
      using startResponder_keeps store_keeps_trans by blast
  qed
  show ?case
    using Suc.IH send start by (auto simp: deliverHandshake.simps Let_def store_keeps_same split: option.split prod.split intro: store_keeps_trans [OF send])
qed (simp add: deliverHandshake.simps)

lemma handleRekey_keeps: "store_keeps e (snd (endpoint_handleRekey EV now h body e))"
proof -
  have resp: "store_keeps e (snd (handleRekeyInit EV now s epoch body e))" if "ds_sess (ep_store e ! s) = Some sess" for s epoch sess
  proof -
    have set: "store_keeps e (on_ds s (\<lambda>ds. ds\<lparr>ds_sess := Some t\<rparr>) (e\<lparr>ep_rand := x\<rparr>))" if "sess_keeps sess t" for t x
      by (rule store_keeps_trans [OF store_keeps_same [of "e\<lparr>ep_rand := x\<rparr>"] store_keeps_on_ds]) (use that \<open>ds_sess (ep_store e ! s) = Some sess\<close> in simp_all)
    have cache: "store_keeps e (ep_writeAll fr dst (on_ds s (\<lambda>ds. ds\<lparr>ds_rekeyRespFrom := a, ds_rekeyRespFrames := b, ds_rekeyRespValid := True\<rparr>)
        (on_ds s (\<lambda>ds. ds\<lparr>ds_sess := Some t\<rparr>) (e\<lparr>ep_rand := x\<rparr>))))" if "sess_keeps sess t" for t x fr dst a b
      by (rule store_keeps_trans [OF set [OF that] store_keeps_trans [OF store_keeps_on_ds_same store_keeps_same]]) simp_all
    have "sess_keeps sess (snd (respondToDatagramRekey (ev_hash EV) (ev_cipher EV) now tape epoch body sess))" for tape
      by (rule respond_keeps)
    then show ?thesis
      using that set cache by (auto simp: handleRekeyInit_def ep_draw_def tryS_def Let_def store_keeps_same split: sum.split failure.split prod.split) (metis snd_conv)+
  qed
  then show ?thesis
    by (auto simp: endpoint_handleRekey_def split: option.split)
qed

lemma cookieGate_store [simp]: "ep_store (snd (cookieGateRejects EV now src h d e)) = ep_store e"
  by (simp add: cookieGateRejects_def Let_def)

lemma route_handshake_keeps: "store_keeps e (snd (route_handshake EV now src d e))"
  unfolding route_handshake_def
proof (rule tryS_state [where P = "store_keeps e"], goal_cases)
  case (1 x)
  obtain h fragment where x: "x = (h, fragment)"
    by fastforce
  obtain b e' where g: "cookieGateRejects EV now src h d e = (b, e')"
    by fastforce
  then have e': "ep_store e' = ep_store e"
    using cookieGate_store [of EV now src h d e] by simp
  obtain r reasm where a: "Add now (ep_reasm e') (ev_addr EV src) h fragment = (r, reasm)"
    by fastforce
  have k: "store_keeps e (e'\<lparr>ep_reasm := reasm\<rparr>)"
    by (rule store_keeps_same) (simp add: e')
  have rk: "store_keeps e (snd (endpoint_handleRekey EV now h m (e'\<lparr>ep_reasm := reasm\<rparr>)))" "store_keeps e (snd (deliverHandshake EV 1 now src h m (e'\<lparr>ep_reasm := reasm\<rparr>)))" for m
    using store_keeps_trans [OF k handleRekey_keeps] store_keeps_trans [OF k deliverHandshake_keeps] by blast+
  have "store_keeps e (snd (bindS (endpoint_handleRekey EV now h m (e'\<lparr>ep_reasm := reasm\<rparr>)) (\<lambda>_ e. (Inr None :: handshake_loop option res, e))))"
      "store_keeps e (snd (case deliverHandshake EV 1 now src h m (e'\<lparr>ep_reasm := reasm\<rparr>) of (l, e) \<Rightarrow> (Inr l :: handshake_loop option res, e)))" for m
    using rk [of m] by (auto simp: bindS_def split: prod.split sum.split)
  then show ?case
    unfolding x using g a k e' by (cases b; cases r; cases "projr r") (simp_all add: store_keeps_same Let_def)
qed simp

lemma route_retry_keeps: "store_keeps e (snd (route_retry d e))"
  by (auto simp: route_retry_def tryS_def split: sum.split prod.split option.split)

section \<open>The replay window on the receive path\<close>

lemma DatagramOpen_frame:
  assumes "DatagramOpen L now now' ep sq c aad sess = (r, sess')"
  shows "dgramReplay sess' = dgramReplay sess" "kemSuite sess' = kemSuite sess" "cur_epoch sess' = cur_epoch sess" "r \<noteq> Inl Panic"
  using assms by (auto simp: DatagramOpen_def tryS_def failR_def cur_epoch_def split: option.splits sum.splits dest: OpenWithNonce_no_panic [THEN notE])

lemma cur_epoch_window [simp]: "cur_epoch (s\<lparr>dgramReplay := w\<rparr>) = cur_epoch s"
  by (simp add: cur_epoch_def)

lemma open_fresh_frame:
  assumes "open_fresh L now hdr body d sess = (r, sess')"
  shows "kemSuite sess' = kemSuite sess" "cur_epoch sess' = cur_epoch sess"
  using assms DatagramOpen_frame(2,3) [of L now now "dh_Epoch hdr" "dh_Seq hdr" body _ sess]
  by (auto simp: open_fresh_def tryS_def split: option.splits if_splits sum.splits prod.splits failure.splits bool.splits)

lemma open_fresh_window:
  assumes "open_fresh L now hdr body d sess = (r, sess')" "dgramReplay sess = Some w"
  shows "dgramReplay sess' = Some w \<and> (\<forall>pt. r \<noteq> Inr (Some pt)) \<or>
    dgramReplay sess' = Some (snd (Check w (dh_Seq hdr))) \<and> ((\<exists>pt. r = Inr (Some pt)) \<longleftrightarrow> fst (Check w (dh_Seq hdr)))"
  using assms
  by (auto simp: open_fresh_def tryS_def split: if_splits sum.splits prod.splits failure.splits bool.splits dest!: DatagramOpen_frame(1))

lemma open_fresh_no_panic:
  assumes "dgramReplay sess \<noteq> None" "ParseDatagramHeader d = Inr (hdr, body)"
  shows "fst (open_fresh L now hdr body d sess) \<noteq> Inl Panic"
proof -
  have "DatagramHeaderSize \<le> length d"
    using assms(2) by (auto simp: ParseDatagramHeader_def parseDatagramHeader_def result_simps)
  then show ?thesis
    using assms(1) DatagramOpen_frame(4) [of L now now "dh_Epoch hdr" "dh_Seq hdr" body _ sess "Inl Panic"]
    by (auto simp: open_fresh_def tryS_def DatagramAAD_def slice_at_def split: option.splits sum.splits prod.splits failure.splits bool.splits)
qed

text \<open>The sequence number and payload of a data frame that is accepted for session \<open>s\<close>.\<close>

definition accepts_data :: "dgram_env \<Rightarrow> int \<Rightarrow> bytes \<Rightarrow> sid \<Rightarrow> dgram_endpoint \<Rightarrow> (u64 \<times> bytes) option" where
  "accepts_data EV now d s e =
     (case (PeekDatagramType d, ParseDatagramHeader d) of
        (Inr ft, Inr (hdr, body)) \<Rightarrow>
          if ft = DatagramFrameData \<and> registry_lookup (dh_RecvIndex hdr) (ep_registry e) = Some s then
            (case sess_at e s of None \<Rightarrow> None
             | Some sess \<Rightarrow> (case open_fresh (ev_cipher EV) now hdr body d sess of (Inr (Some pt), _) \<Rightarrow> Some (dh_Seq hdr, pt) | _ \<Rightarrow> None))
          else None
      | _ \<Rightarrow> None)"

definition tracks :: "nat \<Rightarrow> sid \<Rightarrow> u64 set \<Rightarrow> dgram_endpoint \<Rightarrow> bool" where
  "tracks n s S e \<longleftrightarrow> (\<exists>sess w. sess_at e s = Some sess \<and> dgramReplay sess = Some w \<and> window_rel n w S)"

lemma tracks_keeps: "store_keeps e e' \<Longrightarrow> tracks n s S e \<Longrightarrow> tracks n s S e'"
  by (auto simp: tracks_def store_keeps_def sess_keeps_def rel_option_iff split: option.splits) (metis option.distinct(1) option.exhaust)

lemma tracks_step:
  assumes "tracks n s S e" "sess_at e s = Some sess" "open_fresh L now hdr body d sess = (r, sess')"
    "sess_at e' s = Some sess''" "dgramReplay sess'' = dgramReplay sess'"
  shows "\<exists>S'. S \<subseteq> S' \<and> tracks n s S' e' \<and> (\<forall>pt. r = Inr (Some pt) \<longrightarrow> dh_Seq hdr \<notin> S \<and> dh_Seq hdr \<in> S')"
proof -
  obtain w where w: "dgramReplay sess = Some w" "window_rel n w S"
    using assms(1,2) by (auto simp: tracks_def)
  from open_fresh_window [OF assms(3) w(1)] show ?thesis
  proof
    assume "dgramReplay sess' = Some w \<and> (\<forall>pt. r \<noteq> Inr (Some pt))"
    then show ?thesis
      using assms(4,5) w(2) by (intro exI [of _ S]) (auto simp: tracks_def)
  next
    assume c: "dgramReplay sess' = Some (snd (Check w (dh_Seq hdr))) \<and> ((\<exists>pt. r = Inr (Some pt)) \<longleftrightarrow> fst (Check w (dh_Seq hdr)))"
    let ?S = "if fresh n S (dh_Seq hdr) then insert (dh_Seq hdr) S else S"
    have "tracks n s ?S e'"
      using check_rel_window [OF w(2), of "dh_Seq hdr"] c assms(4,5) by (auto simp: tracks_def)
    then show ?thesis
      using c check_decides_window [OF w(2), of "dh_Seq hdr"] by (intro exI [of _ ?S]) (auto simp: fresh_def)
  qed
qed

text \<open>The outcome of a step for the session \<open>s\<close>: nothing accepted and nothing delivered, or one payload offered
  whose number is new.\<close>

definition step_result :: "nat \<Rightarrow> sid \<Rightarrow> u64 set \<Rightarrow> (u64 \<times> bytes) option \<Rightarrow> dgram_endpoint \<Rightarrow> dgram_endpoint \<Rightarrow> bool" where
  "step_result n s S acc e e' \<longleftrightarrow> (\<exists>S'. S \<subseteq> S' \<and> tracks n s S' e' \<and>
     (case acc of None \<Rightarrow> recv_at e' s = recv_at e s
      | Some (sq, pt) \<Rightarrow> sq \<notin> S \<and> sq \<in> S' \<and> recv_at e' s = chan_offer dataInboxCap pt (recv_at e s)))"

lemma step_result_keeps: "tracks n s S e \<Longrightarrow> store_keeps e e' \<Longrightarrow> step_result n s S None e e'"
  using tracks_keeps [of e e' n s S] by (auto simp: step_result_def store_keeps_def)

lemma sess_at_frame [simp]:
  "sess_at (set_sess s x e) t = (if t = s \<and> s < length (ep_store e) then Some x else sess_at e t)"
  "recv_at (set_sess s x e) t = recv_at e t"
  "sess_at (teardown s e) t = sess_at e t" "recv_at (teardown s e) t = recv_at e t"
  "length (ep_store (set_sess s x e)) = length (ep_store e)"
  by (auto simp: set_sess_def teardown_def sess_at_on_ds) (auto simp: sess_at_def recv_at_def on_registry_def)

lemma deliver_data_at:
  "sess_at (deliver_data EV src s pt x e) t = (if t = s \<and> s < length (ep_store e)
     then Some (x\<lparr>BytesReceived := BytesReceived x + word_of_nat (length pt), PacketsRecv := PacketsRecv x + 1\<rparr>) else sess_at e t)"
  "recv_at (deliver_data EV src s pt x e) t = (if t = s \<and> s < length (ep_store e) then chan_offer dataInboxCap pt (recv_at e s) else recv_at e t)"
  by (auto simp: deliver_data_def sess_at_on_ds Let_def) (auto simp: recv_at_def)

lemma tracks_other: "sess_at e' s = sess_at e s \<Longrightarrow> tracks n s S e' = tracks n s S e"
  by (simp add: tracks_def)

lemma route_data_step:
  assumes "tracks n s S e" "PeekDatagramType d = Inr DatagramFrameData"
  shows "step_result n s S (accepts_data EV now d s e) e (snd (route_data EV now src d e))"
proof (cases "ParseDatagramHeader d")
  case (Inl f)
  then show ?thesis
    using assms by (auto simp: route_data_def accepts_data_def step_result_def)
next
  case (Inr x)
  then obtain hdr body where p: "ParseDatagramHeader d = Inr (hdr, body)"
    by (cases x) auto
  have same: "step_result n s S None e e'" if "sess_at e' s = sess_at e s" "recv_at e' s = recv_at e s" for e'
    using assms(1) that tracks_other [of e' s e n S] by (auto simp: step_result_def)
  show ?thesis
  proof (cases "registry_lookup (dh_RecvIndex hdr) (ep_registry e) = Some s")
    case True
    obtain sess where sess: "sess_at e s = Some sess"
      using assms(1) by (auto simp: tracks_def)
    then have at: "ds_sess (ep_store e ! s) = Some sess" "s < length (ep_store e)"
      by (auto simp: sess_at_def split: if_splits)
    obtain r sess' where o: "open_fresh (ev_cipher EV) now hdr body d sess = (r, sess')"
      by fastforce
    note st = tracks_step [OF assms(1) sess o]
    show ?thesis
    proof (cases "\<exists>pt. r = Inr (Some pt)")
      case True
      then obtain pt where pt: "r = Inr (Some pt)" ..
      then show ?thesis
        using p \<open>registry_lookup _ _ = Some s\<close> at o assms(2) sess st [of "deliver_data EV src s pt sess' e"]
        by (auto simp: route_data_def accepts_data_def step_result_def deliver_data_at)
    next
      case False
      then have "snd (route_data EV now src d e) = set_sess s sess' e"
        using p \<open>registry_lookup _ _ = Some s\<close> at o by (auto simp: route_data_def split: sum.split option.split)
      then show ?thesis
        using False p \<open>registry_lookup _ _ = Some s\<close> at(2) o assms(2) sess st [of "set_sess s sess' e"]
        by (auto simp: accepts_data_def step_result_def split: sum.split option.split)
    qed
  next
    case False
    then have "accepts_data EV now d s e = None"
      by (simp add: accepts_data_def assms(2) p)
    moreover have "sess_at (snd (route_data EV now src d e)) s = sess_at e s" "recv_at (snd (route_data EV now src d e)) s = recv_at e s"
      using False p by (auto simp: route_data_def sess_at_on_ds deliver_data_at split: option.split sum.split prod.split)
    ultimately show ?thesis
      using same by simp
  qed
qed

lemma route_close_step:
  assumes "tracks n s S e"
  shows "step_result n s S None e (snd (route_close EV now d e))"
proof (cases "ParseDatagramHeader d")
  case (Inl f)
  then show ?thesis
    using assms by (auto simp: route_close_def step_result_def)
next
  case (Inr x)
  then obtain hdr body where p: "ParseDatagramHeader d = Inr (hdr, body)"
    by (cases x) auto
  show ?thesis
  proof (cases "registry_lookup (dh_RecvIndex hdr) (ep_registry e) = Some s")
    case True
    obtain sess where sess: "sess_at e s = Some sess"
      using assms(1) by (auto simp: tracks_def)
    then have at: "ds_sess (ep_store e ! s) = Some sess" "s < length (ep_store e)"
      by (auto simp: sess_at_def split: if_splits)
    obtain r sess' where o: "open_fresh (ev_cipher EV) now hdr body d sess = (r, sess')"
      by fastforce
    have "snd (route_close EV now d e) = set_sess s sess' e \<or> snd (route_close EV now d e) = teardown s (set_sess s (session_Close sess') e)"
      using p True at o by (auto simp: route_close_def split: sum.split option.split)
    moreover have "dgramReplay (session_Close sess') = dgramReplay sess'"
      by (simp add: session_Close_def)
    ultimately obtain sess'' where "sess_at (snd (route_close EV now d e)) s = Some sess''" "dgramReplay sess'' = dgramReplay sess'"
        "recv_at (snd (route_close EV now d e)) s = recv_at e s"
      using at(2) by auto
    moreover from this obtain S' where "S \<subseteq> S'" "tracks n s S' (snd (route_close EV now d e))"
      using tracks_step [OF assms sess o] by blast
    ultimately show ?thesis
      unfolding step_result_def by (intro exI [of _ S']) simp
  next
    case False
    have "sess_at (snd (route_close EV now d e)) s = sess_at e s" "recv_at (snd (route_close EV now d e)) s = recv_at e s"
      using False p by (auto simp: route_close_def split: option.split sum.split prod.split)
    then show ?thesis
      using assms tracks_other [of "snd (route_close EV now d e)" s e n S] by (auto simp: step_result_def)
  qed
qed

lemma routeDatagram_step:
  assumes "tracks n s S e"
  shows "step_result n s S (accepts_data EV now d s e) e (snd (routeDatagram EV now src d e))"
proof (cases "PeekDatagramType d = Inr DatagramFrameData")
  case True
  have "snd (routeDatagram EV now src d e) = snd (route_data EV now src d e)"
    by (simp add: routeDatagram_def True bindS_def DatagramFrameData_def DatagramFrameHandshake_def split: prod.split sum.split)
  then show ?thesis
    using route_data_step [OF assms True] by simp
next
  case False
  then have "accepts_data EV now d s e = None"
    by (auto simp: accepts_data_def split: sum.split prod.split)
  moreover have "store_keeps e (snd (routeDatagram EV now src d e)) \<or> snd (routeDatagram EV now src d e) = snd (route_close EV now d e)"
    using False route_handshake_keeps [of e EV now src d] route_retry_keeps [of e d]
    by (auto simp: routeDatagram_def tryS_def bindS_def split: prod.split sum.split)
  ultimately show ?thesis
    using step_result_keeps [OF assms] route_close_step [OF assms] by metis
qed

text \<open>A run of received datagrams, and what it accepts for \<open>s\<close>.\<close>

fun received :: "dgram_env \<Rightarrow> sid \<Rightarrow> (int \<times> net_addr \<times> bytes) list \<Rightarrow> dgram_endpoint \<Rightarrow> (u64 \<times> bytes) list" where
  "received EV s [] e = []"
| "received EV s ((now, src, d) # xs) e =
     (case accepts_data EV now d s e of None \<Rightarrow> [] | Some a \<Rightarrow> [a]) @ received EV s xs (snd (routeDatagram EV now src d e))"

fun route_all :: "dgram_env \<Rightarrow> (int \<times> net_addr \<times> bytes) list \<Rightarrow> dgram_endpoint \<Rightarrow> dgram_endpoint" where
  "route_all EV [] e = e"
| "route_all EV ((now, src, d) # xs) e = route_all EV xs (snd (routeDatagram EV now src d e))"

lemma received_once:
  assumes "tracks n s S e"
  shows "distinct (map fst (received EV s xs e)) \<and> S \<inter> fst ` set (received EV s xs e) = {} \<and>
    recv_at (route_all EV xs e) s = fold (chan_offer dataInboxCap) (map snd (received EV s xs e)) (recv_at e s) \<and>
    (\<exists>S'. tracks n s S' (route_all EV xs e))"
  using assms
proof (induction xs arbitrary: S e)
  case (Cons x xs)
  obtain now src d where x: "x = (now, src, d)"
    by (cases x) auto
  let ?e = "snd (routeDatagram EV now src d e)"
  obtain S' where S': "S \<subseteq> S'" "tracks n s S' ?e"
      "case accepts_data EV now d s e of None \<Rightarrow> recv_at ?e s = recv_at e s
       | Some (sq, pt) \<Rightarrow> sq \<notin> S \<and> sq \<in> S' \<and> recv_at ?e s = chan_offer dataInboxCap pt (recv_at e s)"
    using routeDatagram_step [OF Cons.prems, of EV now d src] unfolding step_result_def by blast
  then show ?case
    using Cons.IH [OF S'(2)] x by (cases "accepts_data EV now d s e") (auto, force+)
qed auto

section \<open>Properties\<close>

text \<open>
  C6: Application data is delivered at most once.  Take an established session with a fresh replay window and
  any sequence of datagrams whatsoever, with any sources and times, routed by the endpoint: handshake, rekey
  and retry frames, frames for other sessions, replays, forgeries.  The data frames accepted for the session
  have pairwise different sequence numbers, and its receive queue holds exactly their payloads, in order of
  acceptance, as far as its capacity allows.
\<close>

theorem endpoint_delivers_once:
  assumes "s < length (ep_store e)" "ds_sess (ep_store e ! s) = Some sess" "dgramReplay sess = Some NewDatagramReplayWindow"
  shows "distinct (map fst (received EV s xs e)) \<and>
    ds_recvCh (ep_store (route_all EV xs e) ! s) =
      fold (chan_offer dataInboxCap) (map snd (received EV s xs e)) (ds_recvCh (ep_store e ! s))"
proof -
  have t: "tracks 1024 s {} e"
    using assms default_window_rel by (auto simp: tracks_def sess_at_def)
  note r = received_once [OF t, of EV xs]
  then have "s < length (ep_store (route_all EV xs e))"
    by (auto simp: tracks_def sess_at_def split: if_splits)
  then show ?thesis
    using r assms(1) by (simp add: recv_at_def)
qed

theorem endpoint_delivers_once_witness:
  "\<exists>e. length (ep_store e) = 1 \<and> (\<exists>sess. ds_sess (ep_store e ! 0) = Some sess \<and> dgramReplay sess = Some NewDatagramReplayWindow) \<and>
     distinct (map fst (received sample_env 0 [(1, OtherAddr ''b'', replicate 40 2), (2, OtherAddr ''c'', replicate 40 2)] e))"
proof -
  define e where "e = (blank_endpoint [] [])\<lparr>ep_store := [(responder_session (OtherAddr ''b''))
    \<lparr>ds_sess := Some (sample_server\<lparr>dgramReplay := Some NewDatagramReplayWindow\<rparr>)\<rparr>]\<rparr>"
  have s: "length (ep_store e) = 1" "0 < length (ep_store e)" "ds_sess (ep_store e ! 0) = Some (sample_server\<lparr>dgramReplay := Some NewDatagramReplayWindow\<rparr>)"
    by (simp_all add: e_def)
  have w: "dgramReplay (sample_server\<lparr>dgramReplay := Some NewDatagramReplayWindow\<rparr>) = Some NewDatagramReplayWindow"
    by simp
  show ?thesis
    using endpoint_delivers_once [OF s(2,3) w] s w by blast
qed

end
