(* ===== verification/Spec2Isabelle.thy ===== *)
theory Spec2Isabelle
  imports Replay Reassembly Limiter Stream_Delivery Dgram_Routing
begin

text \<open>
  Verification of the Quantum-Go tunnel library (Go package quantum-go): a hybrid post-quantum tunnel over
  reliable streams and over datagrams.

  \<^bold>\<open>The program.\<close>  A \<^emph>\<open>session\<close> holds the keys of one peer.  A \<^emph>\<open>handshake\<close> negotiates a version, a KEM suite
  and a cipher suite, runs the KEM (with optional static-key, pre-shared-key and ticket legs) and keys the
  session once the peer's Finished record is verified.  The \<^emph>\<open>stream transport\<close> carries records over a
  connection and rekeys the session; the \<^emph>\<open>datagram endpoint\<close> routes packets of many sessions, runs the same
  handshake over a lossy network with fragmentation and retransmission, and rekeys by epochs.  Everything
  travels in the encodings of the protocol package.

  \<^bold>\<open>Theories and sources\<close> (under src/; each operation has the name of the Go function, with a prefix where
  several types share one).
  \<^item> \<open>Prelude\<close>: words, results with errors and panics, reads that panic where Go does, association lists for
    maps, \<open>Time.Sub\<close>; internal/errors.  \<open>Float64\<close>: binary64 arithmetic with rounding to nearest even, and
    \<open>Duration.Seconds\<close>.  \<open>Bitset\<close>: bit sets in 64-bit words.  \<open>Constants\<close>: internal/constants.
  \<^item> \<open>Wire\<close>: pkg/protocol codec.go, messages.go, version.go.  \<open>Datagram_Codec\<close>: datagram_codec.go and
    datagram_inplace.go.  Shown: every message decodes to what was encoded (locale \<open>message_codec\<close>,
    interpreted for each message), which decoders panic on which input, where a length field wraps.
  \<^item> \<open>Kdf\<close>, \<open>Aead\<close>, \<open>Chkem\<close>: pkg/crypto kdf.go, aead.go, aead_inplace.go, random.go, x25519.go, mlkem.go, xwing.go
    and pkg/chkem.  Shown: derivation inputs are injective, nonces of a cipher object differ, sealing round
    trips, both suites agree on the secret (locale \<open>kem_contract\<close>, interpreted for both).
  \<^item> \<open>Replay\<close>, \<open>Reassembly\<close>, \<open>Limiter\<close>, \<open>Ticket\<close>: pkg/tunnel replay.go, reassembly.go and dgram_handshake.go,
    limiter.go, ticket.go.  Shown: the bitmap window is the filter that remembers every number (locale
    \<open>replay_filter\<close>); fragments reassemble in any order within fixed memory; the connection limiter is exact
    and the token bucket bounded including its rounding; what an accepted ticket proves.
  \<^item> \<open>Session\<close>, \<open>Transport\<close>: session.go, transport.go from NewTransport to CheckAndRekey.  Shown: nonces never
    repeat in any run of session methods, rekey agreement, what a closed session still does; receiving never
    panics and ends.  \<open>Stream_Net\<close>, \<open>Stream_Delivery\<close>: two transports joined by a reliable stream; in every
    interleaving of sends, deliveries and rekeys each receiver has got exactly what the peer sent so far.
  \<^item> \<open>Handshake\<close>, \<open>Handshake_Run\<close>, \<open>Handshake_Agree\<close>: handshake.go, both roles and the drivers.  Shown: compatible
    ends complete with the same secret; a verified ServerFinished means that no negotiated parameter was
    changed; no key is installed before a Finished record of the peer was presented.
  \<^item> \<open>Dgram_Session\<close>: dgram_session.go, dgram_session_inplace.go and the session half of dgram_rekey.go.
    \<open>Dgram_Fsm\<close>, \<open>Dgram_Driver\<close>, \<open>Dgram_Recover\<close>: dgram_handshake_fsm.go, dgram_handshake_driver.go,
    dgram_cookie.go.  \<open>Dgram_Registry\<close>, \<open>Dgram_Endpoint\<close>, \<open>Dgram_Cookie\<close>, \<open>Dgram_Routing\<close>: datagram.go,
    dgram_handshake_wire.go, dgram_conn.go, the endpoint half of dgram_rekey.go, and of dgram_batch.go and
    dgram_batch_linux.go the batch arithmetic.  Shown: an epoch change keeps both ends matched, any loss and
    reordering can be recovered from, timers give up in bounded time (and where one is never armed), half-open
    accounting is a multiset, the cookie gate keeps no state, and accepted packets are delivered once.

  \<^bold>\<open>Conventions.\<close>  State is a record per Go struct; a method returns its result and the state it leaves, on
  errors too.  Integers keep their width (\<open>uint\<close> types and the \<open>int64\<close> counters are words, lengths are
  natural numbers).  Clock readings, in integer nanoseconds, and random bytes are arguments.  Code outside the
  repository is a parameter: the records \<open>hash_lib\<close>, \<open>cipher_lib\<close> and \<open>kem_lib\<close> and the fields of \<open>dgram_env\<close>,
  with documented behaviour as the predicates \<open>hash_lib_ok\<close>, \<open>cipher_lib_ok\<close>, \<open>kem_lib_ok\<close> and, where needed, a
  hypothesis about single values (a hash input that does not collide, a record that opens only under its
  key).  Concrete instances satisfy them and serve the witnesses.  A goroutine is a record and one iteration
  of its loop a step; steps are atomic, also \<open>open_fresh\<close>, where the code takes the replay lock twice.

  \<^bold>\<open>Bounds and fuel.\<close>  \<open>receive_loop\<close> has fuel and returns with one round per five buffered bytes, the size of
  a message header.  \<open>deliverHandshake\<close> has fuel for its re-dispatch, which an atomic step never needs: one
  unit gives what any number gives (\<open>deliverHandshake_fuel\<close>).  All other definitions are total without fuel.
  The stream network assumes that an end that sends still has two sequence numbers under its key, since a
  record beyond 2^28 is refused.  The token bucket is bounded for bursts up to 2^53, which binary64 holds
  exactly.

  \<^bold>\<open>Not modelled.\<close>  Dialling, listening and accepting of stream connections (sockets and goroutines around
  the modelled handshake), the connection pool, observers, metrics, logging and tracing (no effect on the
  tunnel), system calls for batches and shared ports, the coarse clock (an argument), self tests of the
  primitives (parameters), buffer pools and zeroisation (the model has values, not storage), the override
  of the random source, and the command line tool.
\<close>

end
